(* ===== verification/Prelude.thy ===== *)
theory Prelude
  imports Main "HOL-Library.AList"
begin

text \<open>
  The shared vocabulary of the development.

  A Python dict is an association list whose keys are distinct and whose order is insertion
  order: \<^const>\<open>AList.update\<close> keeps the position of a key it overwrites and appends a new one,
  which is what a dict assignment does, and \<^const>\<open>map_of\<close> is the lookup.  A
  \<open>collections.deque\<close> with a \<open>maxlen\<close> is a list with its bound.  An instant is a count of
  microseconds (the resolution of \<open>datetime\<close>), so a difference of two instants is exact.
\<close>

section \<open>Collections of facts\<close>

named_theorems dict_simps "reading a dict after it was written"
named_theorems deque_simps "bounded deques"

section \<open>Instants\<close>

type_synonym instant = int

text \<open>\<open>timedelta(seconds=s)\<close> and \<open>timedelta(minutes=m)\<close> in microseconds.\<close>

definition seconds :: "int \<Rightarrow> int" where
  "seconds s = s * 1000000"

definition minutes :: "int \<Rightarrow> int" where
  "minutes m = seconds (60 * m)"

lemma seconds_mono [simp]: "seconds a \<le> seconds b \<longleftrightarrow> a \<le> b"
  by (simp add: seconds_def)

lemma seconds_pos [simp]: "0 < seconds a \<longleftrightarrow> 0 < a"
  by (simp add: seconds_def)

lemma minutes_pos [simp]: "0 < minutes a \<longleftrightarrow> 0 < a"
  by (simp add: minutes_def)

lemma nat_max_0 [simp]: "nat (max n 0) = nat n"
  by simp

section \<open>Dicts\<close>

type_synonym ('k, 'v) dict = "('k \<times> 'v) list"

abbreviation dict_get :: "('k, 'v) dict \<Rightarrow> 'k \<Rightarrow> 'v option" where
  "dict_get d k \<equiv> map_of d k"

abbreviation dict_set :: "'k \<Rightarrow> 'v \<Rightarrow> ('k, 'v) dict \<Rightarrow> ('k, 'v) dict" where
  "dict_set \<equiv> AList.update"

abbreviation dict_del :: "'k \<Rightarrow> ('k, 'v) dict \<Rightarrow> ('k, 'v) dict" where
  "dict_del \<equiv> AList.delete"

definition dict_get_or :: "('k, 'v) dict \<Rightarrow> 'k \<Rightarrow> 'v \<Rightarrow> 'v" where
  "dict_get_or d k x = (case dict_get d k of None \<Rightarrow> x | Some v \<Rightarrow> v)"

definition dict_wf :: "('k, 'v) dict \<Rightarrow> bool" where
  "dict_wf d \<longleftrightarrow> distinct (map fst d)"

lemma dict_get_set [dict_simps]:
  "dict_get (dict_set k v d) k' = (if k' = k then Some v else dict_get d k')"
  by (simp add: AList.update_conv')

lemma dict_get_del [dict_simps]:
  "dict_get (dict_del k d) k' = (if k' = k then None else dict_get d k')"
  by (simp add: AList.delete_conv')

lemma dict_get_or_set [dict_simps]:
  "dict_get_or (dict_set k v d) k' x = (if k' = k then v else dict_get_or d k' x)"
  by (simp add: dict_get_or_def dict_simps)

lemma dict_get_or_del [dict_simps]:
  "dict_get_or (dict_del k d) k' x = (if k' = k then x else dict_get_or d k' x)"
  by (simp add: dict_get_or_def dict_simps)

lemma dict_get_or_empty [dict_simps]: "dict_get_or [] k x = x"
  by (simp add: dict_get_or_def)

lemma dict_wf_empty [simp]: "dict_wf []"
  by (simp add: dict_wf_def)

lemma dict_wf_set [simp]: "dict_wf d \<Longrightarrow> dict_wf (dict_set k v d)"
  by (simp add: dict_wf_def AList.distinct_update)

lemma dict_wf_del [simp]: "dict_wf d \<Longrightarrow> dict_wf (dict_del k d)"
  by (simp add: dict_wf_def AList.distinct_delete)

lemma dict_wf_Cons: "dict_wf ((k, v) # d) \<longleftrightarrow> k \<notin> fst ` set d \<and> dict_wf d"
  by (auto simp: dict_wf_def)

lemma dict_wf_mem: "dict_wf d \<Longrightarrow> (k, v) \<in> set d \<longleftrightarrow> dict_get d k = Some v"
  by (simp add: dict_wf_def)

lemma set_dict_set_subset:
  "(k', v') \<in> set (dict_set k v d) \<Longrightarrow> (k', v') = (k, v) \<or> (k', v') \<in> set d"
  by (induction d) (auto split: if_splits)

text \<open>A property of every value survives an assignment of a value that has it.\<close>

definition dict_all :: "('k \<Rightarrow> 'v \<Rightarrow> bool) \<Rightarrow> ('k, 'v) dict \<Rightarrow> bool" where
  "dict_all P d \<longleftrightarrow> (\<forall>k v. dict_get d k = Some v \<longrightarrow> P k v)"

lemma dict_all_empty [simp]: "dict_all P []"
  by (simp add: dict_all_def)

lemma dict_all_set [intro]: "dict_all P d \<Longrightarrow> P k v \<Longrightarrow> dict_all P (dict_set k v d)"
  by (simp add: dict_all_def dict_simps)

lemma dict_all_del [intro]: "dict_all P d \<Longrightarrow> dict_all P (dict_del k d)"
  by (simp add: dict_all_def dict_simps)

lemma dict_allD: "dict_all P d \<Longrightarrow> dict_get d k = Some v \<Longrightarrow> P k v"
  by (simp add: dict_all_def)

section \<open>Slices\<close>

text \<open>\<open>xs[:k]\<close>: a negative bound counts from the end.\<close>

definition slice_to :: "int \<Rightarrow> 'a list \<Rightarrow> 'a list" where
  "slice_to k xs = (if k \<ge> 0 then take (nat k) xs else take (length xs - nat (- k)) xs)"

section \<open>Bounded deques\<close>

definition last_n :: "nat \<Rightarrow> 'a list \<Rightarrow> 'a list" where
  "last_n n xs = drop (length xs - n) xs"

lemma length_last_n [deque_simps]: "length (last_n n xs) = min n (length xs)"
  by (simp add: last_n_def)

lemma last_n_le [deque_simps]: "length xs \<le> n \<Longrightarrow> last_n n xs = xs"
  by (simp add: last_n_def)

lemma set_last_n: "set (last_n n xs) \<subseteq> set xs"
  by (simp add: last_n_def set_drop_subset)

lemma last_n_append_last_n [deque_simps]: "last_n n (last_n n xs @ ys) = last_n n (xs @ ys)"
  by (cases "length xs \<le> n") (simp_all add: last_n_def drop_drop add.commute)

lemma last_n_last_n [deque_simps]: "last_n m (last_n n xs) = last_n (min m n) xs"
  by (cases "length xs \<le> n") (auto simp: last_n_def min_def)

record 'a deque =
  items :: "'a list"
  maxlen :: nat

text \<open>\<open>deque(xs, maxlen=n)\<close> and \<open>d.append(x)\<close>: both keep the rightmost \<open>maxlen\<close> items.\<close>

definition deque_of :: "'a list \<Rightarrow> nat \<Rightarrow> 'a deque" where
  "deque_of xs n = \<lparr>items = last_n n xs, maxlen = n\<rparr>"

definition deque_append :: "'a \<Rightarrow> 'a deque \<Rightarrow> 'a deque" where
  "deque_append x d = d\<lparr>items := last_n (maxlen d) (items d @ [x])\<rparr>"

definition deque_clear :: "'a deque \<Rightarrow> 'a deque" where
  "deque_clear d = d\<lparr>items := []\<rparr>"

lemmas deque_defs = deque_of_def deque_append_def deque_clear_def

section \<open>Sequences of atomic operations\<close>

text \<open>
  A critical section is a function from the state to a result and the next state.  Threads that
  contend for one lock are a sequence of such functions, in the order in which they got it.
\<close>

type_synonym ('s, 'a) action = "'s \<Rightarrow> 'a \<times> 's"

fun run_actions :: "('s, 'a) action list \<Rightarrow> 's \<Rightarrow> 'a list \<times> 's" where
  "run_actions [] s = ([], s)"
| "run_actions (f # fs) s =
     (let (a, s1) = f s; (as, s2) = run_actions fs s1 in (a # as, s2))"

lemma run_actions_append:
  "run_actions (fs @ gs) s =
     (let (as, s1) = run_actions fs s; (bs, s2) = run_actions gs s1 in (as @ bs, s2))"
  by (induction fs arbitrary: s) (simp_all add: Let_def split: prod.splits)

lemma length_run_actions [simp]: "length (fst (run_actions fs s)) = length fs"
  by (induction fs arbitrary: s) (simp_all add: Let_def split_beta)

text \<open>A view of each result is the result of the viewed actions.\<close>

lemma run_actions_map_prod:
  "run_actions (map (\<lambda>i s. map_prod f (\<lambda>s. s) (g i s)) is) s =
     map_prod (map f) (\<lambda>s. s) (run_actions (map g is) s)"
  by (induction "is" arbitrary: s) (auto simp: Let_def split_beta)

text \<open>An invariant of every action is an invariant of the sequence.\<close>

lemma run_actions_invariant:
  assumes "\<And>f s. f \<in> set fs \<Longrightarrow> I s \<Longrightarrow> I (snd (f s))" and "I s"
  shows "I (snd (run_actions fs s))"
  using assms by (induction fs arbitrary: s) (auto simp: Let_def split_beta)

section \<open>Gates with one winner\<close>

text \<open>
  A gate: an atomic attempt that reports whether it won.  An armed gate is won by the next attempt,
  which leaves it spent, and no attempt wins a spent gate.  Then of any number of contenders exactly
  the first wins, whatever each brings with it (its clock reading, its failure count).
\<close>

locale single_winner =
  fixes attempt :: "'i \<Rightarrow> 'r \<Rightarrow> bool \<times> 'r"
    and armed :: "'r \<Rightarrow> bool" and spent :: "'r \<Rightarrow> bool"
  assumes armed_wins: "armed r \<Longrightarrow> fst (attempt i r) \<and> spent (snd (attempt i r))"
    and spent_loses: "spent r \<Longrightarrow> \<not> fst (attempt i r) \<and> spent (snd (attempt i r))"
begin

lemma all_lose:
  "spent r \<Longrightarrow> fst (run_actions (map attempt is) r) = replicate (length is) False
               \<and> spent (snd (run_actions (map attempt is) r))"
  by (induction "is" arbitrary: r) (auto simp: Let_def split_beta spent_loses)

lemma first_wins:
  assumes "armed r"
  shows "fst (run_actions (map attempt (i # is)) r) = True # replicate (length is) False"
  using armed_wins [OF assms, of i] all_lose [of "snd (attempt i r)" "is"]
  by (simp add: Let_def split_beta)

end

end
