(* ===== verification/Py_Float.thy ===== *)
theory Py_Float
  imports Complex_Main "HOL-Library.Log_Nat" Prelude
begin

text \<open>
  The float arithmetic the source relies on.  A Python float is an IEEE 754 double; a finite double
  is a rational, and an arithmetic operation on doubles is the exact operation followed by a
  rounding to the nearest double, ties to even.  \<open>fl\<close> is that rounding on the rationals, for a
  53-bit significand and an unbounded exponent: the quotients and percentages rounded here lie far
  from the overflow and subnormal ranges.  \<open>/\<close> on two ints is correctly rounded by the language.

  The locale \<open>rounding\<close> is what the components use of it: monotone, and exact on the integers up
  to \<open>2 ^ 53\<close>.
\<close>

section \<open>Rounding to the nearest double\<close>

definition exp2 :: "rat \<Rightarrow> int" where
  "exp2 x = (let (p, q) = quotient_of x; e = bitlen p - bitlen q
             in if (2::rat) powi e \<le> x then e else e - 1)"

definition round_even :: "rat \<Rightarrow> int" where
  "round_even x = (let f = \<lfloor>x\<rfloor>; d = x - of_int f
                   in if d < 1/2 then f else if 1/2 < d then f + 1
                      else if even f then f else f + 1)"

definition ulp :: "rat \<Rightarrow> rat" where
  "ulp x = 2 powi (exp2 x - 52)"

definition fl_pos :: "rat \<Rightarrow> rat" where
  "fl_pos x = of_int (round_even (x / ulp x)) * ulp x"

definition fl :: "rat \<Rightarrow> rat" where
  "fl x = (if x = 0 then 0 else if 0 < x then fl_pos x else - fl_pos (- x))"

text \<open>\<open>a / b\<close> on ints, \<open>x * y\<close> on floats.\<close>

definition fdiv :: "int \<Rightarrow> int \<Rightarrow> rat" where
  "fdiv a b = fl (of_int a / of_int b)"

definition fmul :: "rat \<Rightarrow> rat \<Rightarrow> rat" where
  "fmul x y = fl (x * y)"

section \<open>Laws of the rounding\<close>

lemma round_even_mono: "x \<le> y \<Longrightarrow> round_even x \<le> round_even y"
proof -
  assume le: "x \<le> y"
  then have f: "\<lfloor>x\<rfloor> \<le> \<lfloor>y\<rfloor>" by (rule floor_mono)
  show ?thesis
  proof (cases "\<lfloor>x\<rfloor> = \<lfloor>y\<rfloor>")
    case True
    then show ?thesis using le by (auto simp: round_even_def Let_def)
  next
    case False
    with f have "\<lfloor>x\<rfloor> + 1 \<le> \<lfloor>y\<rfloor>" by simp
    moreover have "round_even x \<le> \<lfloor>x\<rfloor> + 1" and "\<lfloor>y\<rfloor> \<le> round_even y"
      by (simp_all add: round_even_def Let_def)
    ultimately show ?thesis by linarith
  qed
qed

lemma round_even_of_int [simp]: "round_even (of_int n) = n"
  by (simp add: round_even_def)

lemma round_even_error: "\<bar>of_int (round_even x) - x\<bar> \<le> 1/2"
proof -
  have "of_int \<lfloor>x\<rfloor> \<le> x" and "x < of_int \<lfloor>x\<rfloor> + 1" by linarith+
  then show ?thesis by (auto simp: round_even_def Let_def abs_le_iff)
qed

lemma powi_pos [simp]: "0 < (2::rat) powi e"
  by (simp add: power_int_def)

lemma bitlen_rat_bounds:
  assumes "0 < n"
  shows "(2::rat) powi (bitlen n - 1) \<le> of_int n" and "of_int n < (2::rat) powi (bitlen n)"
proof -
  from assms have b: "1 \<le> bitlen n" by (metis bitlen_eq_zero_iff bitlen_nonneg int_one_le_iff_zero_less order.not_eq_order_implies_strict linorder_not_le)
  from bitlen_bounds [OF assms] have l: "2 ^ nat (bitlen n - 1) \<le> n" and u: "n < 2 ^ nat (bitlen n)"
    by auto
  from l have "of_int (2 ^ nat (bitlen n - 1)) \<le> (of_int n :: rat)" by (simp only: of_int_le_iff)
  with b show "(2::rat) powi (bitlen n - 1) \<le> of_int n" by (simp add: power_int_def)
  from u have "(of_int n :: rat) < of_int (2 ^ nat (bitlen n))" by (simp only: of_int_less_iff)
  with b show "of_int n < (2::rat) powi (bitlen n)" by (simp add: power_int_def)
qed

lemma exp2_bounds:
  assumes "0 < x"
  shows "(2::rat) powi (exp2 x) \<le> x" and "x < (2::rat) powi (exp2 x + 1)"
proof -
  obtain p q where pq: "quotient_of x = (p, q)" by (cases "quotient_of x")
  then have q: "0 < q" and x: "x = of_int p / of_int q"
    by (auto simp: quotient_of_denom_pos quotient_of_div)
  with assms have p: "0 < p" by (simp add: zero_less_divide_iff)
  note bp = bitlen_rat_bounds [OF p] and bq = bitlen_rat_bounds [OF q]
  let ?e = "bitlen p - bitlen q"
  have qp: "(0::rat) < of_int q" using q by simp
  have up: "x < 2 powi (?e + 1)"
  proof -
    have "of_int p < (2::rat) powi (?e + 1) * 2 powi (bitlen q - 1)"
      using bp(2) by (simp flip: power_int_add)
    also have "\<dots> \<le> 2 powi (?e + 1) * of_int q"
      using bq(1) by (intro mult_left_mono) (simp_all add: less_imp_le)
    finally show ?thesis using qp by (simp add: x divide_less_eq)
  qed
  have lo: "2 powi (?e - 1) \<le> x"
  proof -
    have "2 powi (?e - 1) * of_int q \<le> (2::rat) powi (?e - 1) * 2 powi (bitlen q)"
      using bq(2) by (intro mult_left_mono) (simp_all add: less_imp_le)
    also have "\<dots> = 2 powi (bitlen p - 1)" by (simp flip: power_int_add)
    also note bp(1)
    finally show ?thesis using qp by (simp add: x le_divide_eq)
  qed
  show "(2::rat) powi (exp2 x) \<le> x" using lo by (simp add: exp2_def pq Let_def)
  show "x < (2::rat) powi (exp2 x + 1)" using up by (auto simp: exp2_def pq Let_def)
qed

lemma exp2_unique:
  assumes "(2::rat) powi e \<le> x" and "x < 2 powi (e + 1)"
  shows "exp2 x = e"
proof -
  have x: "0 < x" using assms(1) by (rule less_le_trans [OF powi_pos])
  have "(2::rat) powi (exp2 x) < 2 powi (e + 1)" and "(2::rat) powi e < 2 powi (exp2 x + 1)"
    using exp2_bounds [OF x] assms by linarith+
  then have "exp2 x < e + 1" and "e < exp2 x + 1"
    by (meson not_le one_le_numeral power_int_increasing)+
  then show ?thesis by simp
qed

lemma exp2_mono: "0 < x \<Longrightarrow> x \<le> y \<Longrightarrow> exp2 x \<le> exp2 y"
proof -
  assume x: "0 < x" and xy: "x \<le> y"
  then have "(2::rat) powi (exp2 x) < 2 powi (exp2 y + 1)"
    using exp2_bounds [of x] exp2_bounds [of y] by linarith
  then have "exp2 x < exp2 y + 1"
    by (meson not_le one_le_numeral power_int_increasing)
  then show ?thesis by simp
qed

lemma ulp_pos [simp]: "0 < ulp x"
  by (simp add: ulp_def)

lemma ulp_nonzero [simp]: "ulp x \<noteq> 0"
  using ulp_pos [of x] by linarith

lemma powi_exp2_ulp: "2 powi (exp2 x) = 2 ^ 52 * ulp x" "2 powi (exp2 x + 1) = 2 ^ 53 * ulp x"
  by (simp_all add: ulp_def power_int_diff power_int_add)

lemma fl_pos_bounds:
  assumes "0 < x"
  shows "2 powi (exp2 x) \<le> fl_pos x" and "fl_pos x \<le> 2 powi (exp2 x + 1)"
proof -
  have "2 ^ 52 \<le> x / ulp x" and "x / ulp x \<le> 2 ^ 53"
    using exp2_bounds [OF assms] by (simp_all add: powi_exp2_ulp pos_le_divide_eq pos_divide_le_eq)
  then have "round_even (of_int (2 ^ 52)) \<le> round_even (x / ulp x)"
    and "round_even (x / ulp x) \<le> round_even (of_int (2 ^ 53))"
    by (auto intro!: round_even_mono)
  then have "2 ^ 52 \<le> round_even (x / ulp x)" and "round_even (x / ulp x) \<le> 2 ^ 53"
    by (simp_all only: round_even_of_int)
  then have "of_int (2 ^ 52) \<le> (of_int (round_even (x / ulp x)) :: rat)"
    and "(of_int (round_even (x / ulp x)) :: rat) \<le> of_int (2 ^ 53)"
    by (simp_all only: of_int_le_iff)
  then show "2 powi (exp2 x) \<le> fl_pos x" and "fl_pos x \<le> 2 powi (exp2 x + 1)"
    by (simp_all add: fl_pos_def powi_exp2_ulp mult_right_mono less_imp_le)
qed

lemma fl_pos_mono:
  assumes "0 < x" and "x \<le> y"
  shows "fl_pos x \<le> fl_pos y"
proof (cases "exp2 x = exp2 y")
  case True
  then have u: "ulp x = ulp y" by (simp add: ulp_def)
  have "x / ulp y \<le> y / ulp y" using assms(2) by (simp add: divide_right_mono less_imp_le)
  then show ?thesis
    by (simp add: fl_pos_def u mult_right_mono less_imp_le round_even_mono)
next
  case False
  with exp2_mono [OF assms] have "exp2 x + 1 \<le> exp2 y" by simp
  then have "(2::rat) powi (exp2 x + 1) \<le> 2 powi (exp2 y)" by (intro power_int_increasing) simp_all
  then show ?thesis
    using fl_pos_bounds(2) [of x] fl_pos_bounds(1) [of y] assms by linarith
qed

lemma fl_pos_pos: "0 < x \<Longrightarrow> 0 < fl_pos x"
  using fl_pos_bounds(1) [of x] by (rule less_le_trans [OF powi_pos])

lemma fl_mono: "x \<le> y \<Longrightarrow> fl x \<le> fl y"
  using fl_pos_mono [of x y] fl_pos_mono [of "- y" "- x"] fl_pos_pos [of "- x"] fl_pos_pos [of y]
  by (auto simp: fl_def)

lemma fl_zero [simp]: "fl 0 = 0"
  by (simp add: fl_def)

text \<open>A rational with at most 53 significant bits is a double.\<close>

definition representable :: "rat \<Rightarrow> bool" where
  "representable x \<longleftrightarrow> (\<exists>m k. x = of_int m * 2 powi k \<and> \<bar>m\<bar> < 2 ^ 53)"

lemma fl_pos_representable:
  assumes x: "0 < x" and rep: "representable x"
  shows "fl_pos x = x"
proof -
  from rep obtain m k where m: "x = of_int m * 2 powi k" "\<bar>m\<bar> < 2 ^ 53"
    by (auto simp: representable_def)
  have "x < 2 powi (53 + k)"
  proof -
    have "m < 2 ^ 53" using m(2) by simp
    then have "(of_int m :: rat) < of_int (2 ^ 53)" by (simp only: of_int_less_iff)
    then have "of_int m * 2 powi k < of_int (2 ^ 53) * (2::rat) powi k" by simp
    then show ?thesis by (simp add: m(1) power_int_add)
  qed
  then have "(2::rat) powi (exp2 x) < 2 powi (53 + k)" using exp2_bounds(1) [OF x] by linarith
  then have "exp2 x < 53 + k" by (meson not_le one_le_numeral power_int_increasing)
  then have k: "k - (exp2 x - 52) = int (nat (k - (exp2 x - 52)))" by simp
  have "x / ulp x = of_int m * 2 powi (k - (exp2 x - 52))"
    by (simp add: m(1) ulp_def power_int_diff)
  also have "\<dots> = of_int (m * 2 ^ nat (k - (exp2 x - 52)))"
    by (subst k) (simp only: power_int_of_nat of_int_mult of_int_power of_int_numeral)
  finally have "x / ulp x = of_int (m * 2 ^ nat (k - (exp2 x - 52)))" .
  then have "of_int (round_even (x / ulp x)) = x / ulp x" by (metis round_even_of_int)
  then show ?thesis by (simp add: fl_pos_def)
qed

lemma representable_minus: "representable (- x) \<longleftrightarrow> representable x"
proof -
  have "representable x \<Longrightarrow> representable (- x)" for x
    unfolding representable_def by (metis abs_minus_cancel minus_mult_left of_int_minus)
  from this [of x] this [of "- x"] show ?thesis by auto
qed

lemma fl_representable: "representable x \<Longrightarrow> fl x = x"
  using fl_pos_representable [of x] fl_pos_representable [of "- x"]
  by (auto simp: fl_def representable_minus not_less)

lemma representableI: "\<bar>m\<bar> < 2 ^ 53 \<Longrightarrow> representable (of_int m * 2 powi k)"
  unfolding representable_def by blast

lemma representable_of_int: "\<bar>n\<bar> < 2 ^ 53 \<Longrightarrow> representable (of_int n)"
  using representableI [of n 0] by simp

lemma fl_of_int: "\<bar>n\<bar> < 2 ^ 53 \<Longrightarrow> fl (of_int n) = of_int n"
  by (rule fl_representable, rule representable_of_int)

text \<open>Rounding cannot cross a double.\<close>

lemma fl_below: "representable r \<Longrightarrow> x \<le> r \<Longrightarrow> fl x \<le> r"
  using fl_mono [of x r] by (simp add: fl_representable)

lemma fl_above: "representable r \<Longrightarrow> r \<le> x \<Longrightarrow> r \<le> fl x"
  using fl_mono [of r x] by (simp add: fl_representable)

section \<open>The interface the components use\<close>

locale rounding =
  fixes rnd :: "rat \<Rightarrow> rat"
  assumes rnd_mono: "x \<le> y \<Longrightarrow> rnd x \<le> rnd y"
    and rnd_of_int: "\<bar>n\<bar> < 2 ^ 53 \<Longrightarrow> rnd (of_int n) = of_int n"
begin

lemma rnd_between:
  assumes "of_int a \<le> x" and "x \<le> of_int b" and "\<bar>a\<bar> < 2 ^ 53" and "\<bar>b\<bar> < 2 ^ 53"
  shows "of_int a \<le> rnd x" and "rnd x \<le> of_int b"
  using rnd_mono [OF assms(1)] rnd_mono [OF assms(2)] rnd_of_int [OF assms(3)]
    rnd_of_int [OF assms(4)] by simp_all

text \<open>A ratio of a part to its whole is a number between 0 and 1, and its percentage one
  between 0 and 100.\<close>

lemma rnd_fraction:
  assumes "0 \<le> a" and "a \<le> b" and "0 < b"
  shows "0 \<le> rnd (of_int a / of_int b)" and "rnd (of_int a / of_int b) \<le> 1"
  using rnd_between [of 0 "of_int a / of_int b" 1] assms by simp_all

lemma rnd_percentage:
  assumes "0 \<le> x" and "x \<le> 1"
  shows "0 \<le> rnd (x * 100)" and "rnd (x * 100) \<le> 100"
  using rnd_between [of 0 "x * 100" 100] assms by simp_all

lemma rnd_whole: "0 < b \<Longrightarrow> rnd (rnd (of_int b / of_int b) * 100) = 100"
  using rnd_of_int [of 1] rnd_of_int [of 100] by simp

end

interpretation fl: rounding fl
  by unfold_locales (simp_all add: fl_mono fl_of_int)

end
