(* ===== verification/CB_Types.thy ===== *)
theory CB_Types
  imports Py_Float
begin

text \<open>
  The data of the circuit breaker: the state enum and the row every repository stores
  (\<open>interfaces/repositories.py\<close>), the rule that decides whether an operator's override is in force,
  the configuration (\<open>services/circuit_breaker/config.py\<close>) and the trip predicate
  (\<open>services/circuit_breaker/outcome_window.py\<close>).

  The state of a row is a string in the source, with three stored values and one sentinel that
  \<open>trip_to_open\<close> returns and never stores; here they are the four constructors of \<open>cb_state\<close>.
  Metadata values are opaque strings.  \<open>utc_now()\<close> is an argument \<open>now\<close>: all clock reads of one
  operation return the same instant.
\<close>

section \<open>The stored row\<close>

datatype cb_state = CLOSED | OPEN | HALF_OPEN | PINNED_TOKEN

record cb_row =
  service_name :: string
  row_id :: "int option"
  state :: cb_state
  failure_count :: int
  success_count :: int
  last_failure_at :: "instant option"
  opened_at :: "instant option"
  manually_controlled :: bool
  controlled_by_id :: "int option"
  control_reason :: string
  manual_override_expires_at :: "instant option"
  half_open_request_count :: int
  half_open_window_started_at :: "instant option"
  metadata :: "(string, string) dict"
  created_at :: "instant option"
  updated_at :: "instant option"

text \<open>The dataclass constructor with only its required field given.\<close>

definition new_row :: "string \<Rightarrow> cb_row" where
  "new_row sn = \<lparr>service_name = sn, row_id = None, state = CLOSED, failure_count = 0,
     success_count = 0, last_failure_at = None, opened_at = None, manually_controlled = False,
     controlled_by_id = None, control_reason = [], manual_override_expires_at = None,
     half_open_request_count = 0, half_open_window_started_at = None, metadata = [],
     created_at = None, updated_at = None\<rparr>"

definition is_open :: "cb_row \<Rightarrow> bool" where
  "is_open r \<longleftrightarrow> state r = OPEN"

definition is_closed :: "cb_row \<Rightarrow> bool" where
  "is_closed r \<longleftrightarrow> state r = CLOSED"

definition is_half_open :: "cb_row \<Rightarrow> bool" where
  "is_half_open r \<longleftrightarrow> state r = HALF_OPEN"

definition non_closed_states :: "cb_state list" where
  "non_closed_states = [OPEN, HALF_OPEN]"

section \<open>Manual overrides\<close>

definition manual_pin_is_active :: "instant \<Rightarrow> bool \<Rightarrow> instant option \<Rightarrow> bool" where
  "manual_pin_is_active now mc expires \<longleftrightarrow>
     mc \<and> (case expires of None \<Rightarrow> True | Some e \<Rightarrow> now < e)"

definition is_pin_active :: "instant \<Rightarrow> cb_row \<Rightarrow> bool" where
  "is_pin_active now r = manual_pin_is_active now (manually_controlled r) (manual_override_expires_at r)"

definition resolve_manual_override_expiry :: "instant \<Rightarrow> int option \<Rightarrow> instant option" where
  "resolve_manual_override_expiry now ttl =
     (case ttl of None \<Rightarrow> None
      | Some m \<Rightarrow> if m \<le> 0 then None else Some (now + minutes m))"

text \<open>The service-side predicates of \<open>manual_control.py\<close>.\<close>

definition is_manual_pin_active :: "instant \<Rightarrow> cb_row \<Rightarrow> bool" where
  "is_manual_pin_active now r =
     manual_pin_is_active now (manually_controlled r) (manual_override_expires_at r)"

definition is_operator_block_in_force :: "instant \<Rightarrow> cb_row \<Rightarrow> bool" where
  "is_operator_block_in_force now r \<longleftrightarrow>
     state r = OPEN \<and> manually_controlled r \<and> is_manual_pin_active now r"

definition is_pin_lift_due :: "instant \<Rightarrow> cb_row \<Rightarrow> bool" where
  "is_pin_lift_due now r \<longleftrightarrow>
     manually_controlled r \<and> state r = OPEN \<and>
     (case manual_override_expires_at r of
        None \<Rightarrow> False
      | Some e \<Rightarrow> e \<le> now \<and> (case opened_at r of None \<Rightarrow> True | Some t \<Rightarrow> t \<le> e))"

lemmas pin_defs = manual_pin_is_active_def is_pin_active_def is_manual_pin_active_def
  is_operator_block_in_force_def is_pin_lift_due_def

lemma is_manual_pin_active_eq [simp]: "is_manual_pin_active now r = is_pin_active now r"
  by (simp add: pin_defs)

text \<open>An override is not at once in force and due to lift.\<close>

lemma block_not_lift_due: "is_operator_block_in_force now r \<Longrightarrow> \<not> is_pin_lift_due now r"
  by (auto simp: pin_defs split: option.splits)

text \<open>Once lapsed an override stays lapsed.\<close>

lemma pin_active_antimono: "is_pin_active t r \<Longrightarrow> now \<le> t \<Longrightarrow> is_pin_active now r"
  by (auto simp: pin_defs split: option.splits)

section \<open>Results of the atomic transitions\<close>

record close_attempt =
  ca_state :: cb_row
  did_close :: bool

record open_attempt =
  oa_state :: cb_row
  did_open :: bool

definition pinned_trip_attempt :: "string \<Rightarrow> instant option \<Rightarrow> open_attempt" where
  "pinned_trip_attempt sn expires =
     \<lparr>oa_state = (new_row sn)\<lparr>state := PINNED_TOKEN, manually_controlled := True,
                             manual_override_expires_at := expires\<rparr>,
      did_open = False\<rparr>"

section \<open>Configuration\<close>

record cb_config =
  enabled :: bool
  failure_threshold :: int
  recovery_timeout :: int
  success_threshold :: int
  minimum_calls :: int
  sliding_window_size :: int
  failure_rate_threshold :: rat
  fallback_strategy :: string
  fallback_cache_ttl_seconds :: int
  cb_open_burn_rate_multiplier :: rat
  cb_open_base_consumption_minutes :: rat
  manual_override_ttl_minutes :: int
  half_open_max_calls :: int
  half_open_stuck_timeout_seconds :: int
  max_pending_duration_hours :: int
  max_retry_lifetime_hours :: int
  rate_limit_cascade_threshold :: int
  rate_limit_cascade_window_seconds :: int
  rate_limit_cascade_rate :: rat
  rate_limit_cascade_minimum_calls :: int
  self_ddos_protection_enabled :: bool
  self_ddos_rps_limit :: int
  self_ddos_window_seconds :: int
  self_ddos_backoff_multiplier :: rat
  self_ddos_backoff_base_seconds :: rat
  self_ddos_backoff_max_seconds :: rat
  self_ddos_backoff_jitter_factor :: rat
  rate_limit_distributed :: bool

definition default_config :: cb_config where
  "default_config = \<lparr>enabled = True, failure_threshold = 5, recovery_timeout = 60,
     success_threshold = 2, minimum_calls = 10, sliding_window_size = 100,
     failure_rate_threshold = 50, fallback_strategy = ''cache'', fallback_cache_ttl_seconds = 300,
     cb_open_burn_rate_multiplier = 10, cb_open_base_consumption_minutes = 1,
     manual_override_ttl_minutes = 90, half_open_max_calls = 3,
     half_open_stuck_timeout_seconds = 60, max_pending_duration_hours = 4,
     max_retry_lifetime_hours = 24, rate_limit_cascade_threshold = 10,
     rate_limit_cascade_window_seconds = 60, rate_limit_cascade_rate = 10,
     rate_limit_cascade_minimum_calls = 20, self_ddos_protection_enabled = False,
     self_ddos_rps_limit = 200, self_ddos_window_seconds = 10, self_ddos_backoff_multiplier = 2,
     self_ddos_backoff_base_seconds = 1, self_ddos_backoff_max_seconds = 60,
     self_ddos_backoff_jitter_factor = 1/4, rate_limit_distributed = False\<rparr>"

section \<open>The trip predicate\<close>

datatype trip_reason = TRIP_REASON_RATE | TRIP_REASON_COUNT

definition failure_rate :: "int \<Rightarrow> int \<Rightarrow> rat" where
  "failure_rate f t = fmul (fdiv f t) 100"

definition evaluate_trip :: "int \<Rightarrow> int \<Rightarrow> int \<Rightarrow> cb_config \<Rightarrow> trip_reason option" where
  "evaluate_trip consecutive fails calls cfg =
     (if failure_rate_threshold cfg > 0 \<and> calls > 0 \<and> calls \<ge> minimum_calls cfg
         \<and> failure_rate fails calls \<ge> failure_rate_threshold cfg
      then Some TRIP_REASON_RATE
      else if consecutive \<ge> failure_threshold cfg then Some TRIP_REASON_COUNT
      else None)"

lemmas rate_defs = failure_rate_def fmul_def fdiv_def

lemma failure_rate_bounds:
  assumes "0 \<le> f" and "f \<le> t" and "0 < t"
  shows "0 \<le> failure_rate f t" and "failure_rate f t \<le> 100"
  using fl.rnd_percentage [OF fl.rnd_fraction [OF assms]] by (simp_all add: rate_defs)

lemma failure_rate_all: "0 < t \<Longrightarrow> failure_rate t t = 100"
  using fl.rnd_whole [of t] by (simp add: rate_defs)

lemma failure_rate_mono:
  assumes "f \<le> f'" and "0 < t"
  shows "failure_rate f t \<le> failure_rate f' t"
  using assms by (auto simp: rate_defs divide_right_mono intro!: fl_mono)

text \<open>Both roundings together do not move a rate across one half, for windows of any size a
  deployment can configure.\<close>

lemma failure_rate_half:
  assumes "0 < t" and "t \<le> 2 ^ 51"
  shows "failure_rate f t \<ge> 50 \<longleftrightarrow> t \<le> 2 * f"
proof
  assume "t \<le> 2 * f"
  then have "(1/2 :: rat) \<le> of_int f / of_int t"
    using assms(1) by (simp add: le_divide_eq)
  moreover have "representable (1/2)" using representableI [of 1 "-1"] by simp
  ultimately have "1/2 \<le> fdiv f t" unfolding fdiv_def by (intro fl_above)
  moreover have "representable 50" using representable_of_int [of 50] by simp
  ultimately show "failure_rate f t \<ge> 50"
    unfolding failure_rate_def fmul_def by (intro fl_above) simp_all
next
  assume ge: "failure_rate f t \<ge> 50"
  show "t \<le> 2 * f"
  proof (rule ccontr)
    assume "\<not> t \<le> 2 * f"
    then have "2 * f + 1 \<le> t" by simp
    then have "of_int (2 * f + 1) \<le> (of_int t :: rat)" by (simp only: of_int_le_iff)
    then have "2 * of_int f + 1 \<le> (of_int t :: rat)" by simp
    moreover have t: "(0::rat) < of_int t" using assms(1) by simp
    moreover have "(of_int t :: rat) \<le> of_int (2 ^ 51)" using assms(2) by (simp only: of_int_le_iff)
    then have "of_int t * (1 / 2 ^ 52) \<le> (1/2 :: rat)" by simp
    ultimately have "of_int f \<le> (1/2 - 1 / 2 ^ 52) * (of_int t :: rat)"
      by (simp add: left_diff_distrib)
    then have "of_int f / of_int t \<le> (1/2 :: rat) - 1 / 2 ^ 52"
      using t by (simp only: pos_divide_le_eq)
    moreover have "representable (1/2 - 1 / 2 ^ 52)"
      using representableI [of "2 ^ 51 - 1" "-52"] by (simp add: power_int_minus field_simps)
    ultimately have "fdiv f t \<le> 1/2 - 1 / 2 ^ 52" unfolding fdiv_def by (intro fl_below)
    then have "fdiv f t * 100 \<le> 50 - 1 / 2 ^ 46" by (simp add: field_simps)
    moreover have "representable (50 - 1 / 2 ^ 46)"
      using representableI [of "50 * 2 ^ 46 - 1" "-46"] by (simp add: power_int_minus field_simps)
    ultimately have "failure_rate f t \<le> 50 - 1 / 2 ^ 46"
      unfolding failure_rate_def fmul_def by (intro fl_below)
    with ge show False by simp
  qed
qed

end
