(* ===== verification/CB_Memory_Repo.thy ===== *)
theory CB_Memory_Repo
  imports CB_Types "HOL-Library.Option_ord"
begin

text \<open>
  The in-memory state repository of \<open>adapters/memory/circuit_breaker.py\<close>.  The state is the class's
  three fields; there is one definition per method.  Every method runs under the class's lock, so
  it is a function from the repository to its result and the next repository, and a list of
  \<open>repo_op\<close> is an interleaving of any number of threads.

  A method that builds a new \<open>CircuitBreakerStateData\<close> without passing \<open>metadata\<close> stores the empty
  default; the updates below say so.
\<close>

section \<open>State\<close>

datatype acquire_marker = NO_ACQUIRE | TRANSITION | INCREMENT | REJECTED | STUCK_RECOVERY | NO_OP

record mem_repo =
  storage :: "(string, cb_row) dict"
  next_id :: int
  last_acquire_marker :: acquire_marker

definition empty_repo :: mem_repo where
  "empty_repo = \<lparr>storage = [], next_id = 1, last_acquire_marker = NO_ACQUIRE\<rparr>"

definition put_row :: "string \<Rightarrow> cb_row \<Rightarrow> mem_repo \<Rightarrow> mem_repo" where
  "put_row sn r R = R\<lparr>storage := dict_set sn r (storage R)\<rparr>"

section \<open>Reads and creation\<close>

definition repo_get_by_service_name :: "string \<Rightarrow> mem_repo \<Rightarrow> cb_row option" where
  "repo_get_by_service_name sn R = dict_get (storage R) sn"

definition repo_get_or_create_unlocked :: "instant \<Rightarrow> string \<Rightarrow> mem_repo \<Rightarrow> cb_row \<times> mem_repo" where
  "repo_get_or_create_unlocked now sn R =
     (case dict_get (storage R) sn of
        Some r \<Rightarrow> (r, R)
      | None \<Rightarrow>
          let r = (new_row sn)\<lparr>row_id := Some (next_id R), state := CLOSED,
                               created_at := Some now, updated_at := Some now\<rparr>
          in (r, (put_row sn r R)\<lparr>next_id := next_id R + 1\<rparr>))"

definition repo_get_or_create :: "instant \<Rightarrow> string \<Rightarrow> mem_repo \<Rightarrow> cb_row \<times> mem_repo" where
  "repo_get_or_create now sn R =
     (case dict_get (storage R) sn of
        Some cached \<Rightarrow> (cached, R)
      | None \<Rightarrow> repo_get_or_create_unlocked now sn R)"

definition repo_get_all_states :: "mem_repo \<Rightarrow> cb_row list" where
  "repo_get_all_states R = map snd (storage R)"

definition repo_get_all_open :: "mem_repo \<Rightarrow> cb_row list" where
  "repo_get_all_open R = filter (\<lambda>r. state r = OPEN) (map snd (storage R))"

text \<open>\<open>s.opened_at or datetime.min\<close> as a sort key: a missing instant sorts first.\<close>

definition repo_get_open_states :: "int option \<Rightarrow> mem_repo \<Rightarrow> cb_row list" where
  "repo_get_open_states limit R =
     (let open_states = sort_key opened_at (filter (\<lambda>r. state r = OPEN) (map snd (storage R)))
      in case limit of None \<Rightarrow> open_states | Some k \<Rightarrow> slice_to k open_states)"

definition repo_delete :: "string \<Rightarrow> mem_repo \<Rightarrow> bool \<times> mem_repo" where
  "repo_delete sn R =
     (if dict_get (storage R) sn \<noteq> None then (True, R\<lparr>storage := dict_del sn (storage R)\<rparr>)
      else (False, R))"

definition repo_clear :: "mem_repo \<Rightarrow> mem_repo" where
  "repo_clear R = R\<lparr>storage := [], next_id := 1\<rparr>"

section \<open>Field updates\<close>

definition repo_hydrate_snapshot ::
    "instant \<Rightarrow> cb_row \<Rightarrow> bool \<Rightarrow> mem_repo \<Rightarrow> bool \<times> mem_repo" where
  "repo_hydrate_snapshot now snap skip_if_local_pin_active R =
     (let sn = service_name snap; entry = dict_get (storage R) sn
      in if skip_if_local_pin_active \<and> (case entry of None \<Rightarrow> False | Some e \<Rightarrow> is_pin_active now e)
         then (False, R)
         else case entry of
            None \<Rightarrow>
              (True, (put_row sn (snap\<lparr>row_id := Some (next_id R), half_open_request_count := 0,
                                       half_open_window_started_at := None,
                                       created_at := Some now, updated_at := Some now\<rparr>) R)
                     \<lparr>next_id := next_id R + 1\<rparr>)
          | Some e \<Rightarrow>
              (True, put_row sn (snap\<lparr>row_id := row_id e,
                                      half_open_request_count := half_open_request_count e,
                                      half_open_window_started_at := half_open_window_started_at e,
                                      created_at := created_at e, updated_at := Some now\<rparr>) R))"

text \<open>The keyword arguments of \<open>update_state\<close>, with their defaults.\<close>

record state_update =
  u_state :: cb_state
  u_failure_count :: "int option"
  u_success_count :: "int option"
  u_opened_at :: "instant option"
  u_last_failure_at :: "instant option"
  u_half_open_request_count :: "int option"
  u_reset_half_open_count :: bool
  u_clear_opened_at :: bool
  u_skip_if_pinned :: bool
  u_keep_open :: bool

definition update_to :: "cb_state \<Rightarrow> state_update" where
  "update_to st = \<lparr>u_state = st, u_failure_count = None, u_success_count = None, u_opened_at = None,
     u_last_failure_at = None, u_half_open_request_count = None, u_reset_half_open_count = False,
     u_clear_opened_at = False, u_skip_if_pinned = False, u_keep_open = False\<rparr>"

definition given :: "'a option \<Rightarrow> 'a \<Rightarrow> 'a" where
  "given x old = (case x of None \<Rightarrow> old | Some v \<Rightarrow> v)"

definition given_opt :: "'a option \<Rightarrow> 'a option \<Rightarrow> 'a option" where
  "given_opt x old = (case x of None \<Rightarrow> old | Some v \<Rightarrow> Some v)"

definition updated_row :: "instant \<Rightarrow> string \<Rightarrow> state_update \<Rightarrow> cb_row \<Rightarrow> cb_row" where
  "updated_row now sn u e =
     e\<lparr>service_name := sn, state := u_state u,
       failure_count := given (u_failure_count u) (failure_count e),
       success_count := given (u_success_count u) (success_count e),
       last_failure_at := given_opt (u_last_failure_at u) (last_failure_at e),
       opened_at := (if u_clear_opened_at u then None else given_opt (u_opened_at u) (opened_at e)),
       half_open_request_count :=
         (if u_reset_half_open_count u then 0
          else given (u_half_open_request_count u) (half_open_request_count e)),
       half_open_window_started_at :=
         (if u_reset_half_open_count u then None else half_open_window_started_at e),
       metadata := [], updated_at := Some now\<rparr>"

definition repo_update_state :: "instant \<Rightarrow> string \<Rightarrow> state_update \<Rightarrow> mem_repo \<Rightarrow> bool \<times> mem_repo" where
  "repo_update_state now sn u R =
     (case dict_get (storage R) sn of
        None \<Rightarrow> (False, R)
      | Some e \<Rightarrow>
          if u_skip_if_pinned u \<and> is_pin_active now e then (True, R)
          else if u_keep_open u \<and> state e \<in> set non_closed_states then (True, R)
          else (True, put_row sn (updated_row now sn u e) R))"

definition repo_increment_failure_count ::
    "instant \<Rightarrow> string \<Rightarrow> instant option \<Rightarrow> mem_repo \<Rightarrow> int \<times> mem_repo" where
  "repo_increment_failure_count now sn last_failure R =
     (let (e, R') = repo_get_or_create now sn R; new_count = failure_count e + 1
      in (new_count,
          put_row sn (e\<lparr>service_name := sn, failure_count := new_count,
                        last_failure_at := Some (given last_failure now),
                        metadata := [], updated_at := Some now\<rparr>) R'))"

definition repo_reset_counts :: "instant \<Rightarrow> string \<Rightarrow> mem_repo \<Rightarrow> bool \<times> mem_repo" where
  "repo_reset_counts now sn R =
     (case dict_get (storage R) sn of
        None \<Rightarrow> (False, R)
      | Some e \<Rightarrow>
          (True, put_row sn (e\<lparr>service_name := sn, failure_count := 0, success_count := 0,
                               opened_at := None, half_open_request_count := 0,
                               half_open_window_started_at := None, metadata := [],
                               updated_at := Some now\<rparr>) R))"

definition repo_converge_to_closed_unless_pinned ::
    "instant \<Rightarrow> string \<Rightarrow> mem_repo \<Rightarrow> bool \<times> mem_repo" where
  "repo_converge_to_closed_unless_pinned now sn R =
     (case dict_get (storage R) sn of
        None \<Rightarrow> (False, R)
      | Some e \<Rightarrow>
          if is_pin_active now e then (False, R)
          else (True, put_row sn (e\<lparr>service_name := sn, state := CLOSED, failure_count := 0,
                                    success_count := 0, opened_at := None,
                                    half_open_request_count := 0,
                                    half_open_window_started_at := None,
                                    updated_at := Some now\<rparr>) R))"

section \<open>Manual control\<close>

definition repo_set_manual_control ::
    "instant \<Rightarrow> string \<Rightarrow> cb_state \<Rightarrow> int option \<Rightarrow> string \<Rightarrow> instant option \<Rightarrow> mem_repo \<Rightarrow> bool \<times> mem_repo" where
  "repo_set_manual_control now sn st by_id reason expires R =
     (let (e, R') = repo_get_or_create now sn R
      in (True,
          put_row sn (e\<lparr>service_name := sn, state := st,
                        opened_at := (if st = OPEN then Some now else opened_at e),
                        manually_controlled := True, controlled_by_id := by_id,
                        control_reason := reason, manual_override_expires_at := expires,
                        metadata := [], updated_at := Some now\<rparr>) R'))"

definition repo_clear_manual_control :: "instant \<Rightarrow> string \<Rightarrow> bool \<Rightarrow> mem_repo \<Rightarrow> bool \<times> mem_repo" where
  "repo_clear_manual_control now sn preserve_reason R =
     (case dict_get (storage R) sn of
        None \<Rightarrow> (False, R)
      | Some e \<Rightarrow>
          (True, put_row sn (e\<lparr>service_name := sn, manually_controlled := False,
                               controlled_by_id := None,
                               control_reason := (if preserve_reason then control_reason e else []),
                               manual_override_expires_at := None, metadata := [],
                               updated_at := Some now\<rparr>) R))"

definition repo_atomic_force_open ::
    "instant \<Rightarrow> string \<Rightarrow> string \<Rightarrow> int option \<Rightarrow> int option \<Rightarrow> mem_repo
       \<Rightarrow> (bool \<times> cb_state \<times> cb_state) \<times> mem_repo" where
  "repo_atomic_force_open now sn reason by_id ttl R =
     (let (e, R') = repo_get_or_create now sn R
      in ((True, state e, OPEN),
          put_row sn (e\<lparr>service_name := sn, state := OPEN, opened_at := Some now,
                        manually_controlled := True, controlled_by_id := by_id,
                        control_reason := reason,
                        manual_override_expires_at := resolve_manual_override_expiry now ttl,
                        half_open_request_count := 0, half_open_window_started_at := None,
                        metadata := [], updated_at := Some now\<rparr>) R'))"

definition repo_atomic_force_close ::
    "instant \<Rightarrow> string \<Rightarrow> string \<Rightarrow> int option \<Rightarrow> int option \<Rightarrow> mem_repo
       \<Rightarrow> (bool \<times> cb_state \<times> cb_state) \<times> mem_repo" where
  "repo_atomic_force_close now sn reason by_id ttl R =
     (let (e, R') = repo_get_or_create now sn R
      in ((True, state e, CLOSED),
          put_row sn (e\<lparr>service_name := sn, state := CLOSED, failure_count := 0,
                        success_count := 0, opened_at := None,
                        manually_controlled := True, controlled_by_id := by_id,
                        control_reason := reason,
                        manual_override_expires_at := resolve_manual_override_expiry now ttl,
                        half_open_request_count := 0, half_open_window_started_at := None,
                        metadata := [], updated_at := Some now\<rparr>) R'))"

text \<open>The row both resets write.\<close>

definition initial_row :: "instant \<Rightarrow> string \<Rightarrow> string \<Rightarrow> cb_row \<Rightarrow> cb_row" where
  "initial_row now sn reason e =
     e\<lparr>service_name := sn, state := CLOSED, failure_count := 0, success_count := 0,
       last_failure_at := None, opened_at := None, manually_controlled := False,
       controlled_by_id := None, control_reason := reason, manual_override_expires_at := None,
       half_open_request_count := 0, half_open_window_started_at := None, metadata := [],
       updated_at := Some now\<rparr>"

definition repo_reset :: "instant \<Rightarrow> string \<Rightarrow> mem_repo \<Rightarrow> bool \<times> mem_repo" where
  "repo_reset now sn R =
     (case dict_get (storage R) sn of
        None \<Rightarrow> (False, R)
      | Some e \<Rightarrow> (True, put_row sn (initial_row now sn [] e) R))"

text \<open>A missing row is reported as \<open>(False, '', '')\<close>; the two empty strings are \<open>None\<close> here.\<close>

definition repo_atomic_reset ::
    "instant \<Rightarrow> string \<Rightarrow> string \<Rightarrow> int option \<Rightarrow> mem_repo
       \<Rightarrow> (bool \<times> cb_state option \<times> cb_state option) \<times> mem_repo" where
  "repo_atomic_reset now sn reason by_id R =
     (case dict_get (storage R) sn of
        None \<Rightarrow> ((False, None, None), R)
      | Some e \<Rightarrow> ((True, Some (state e), Some CLOSED), put_row sn (initial_row now sn reason e) R))"

section \<open>Recording and automatic transitions\<close>

definition repo_record_failure :: "instant \<Rightarrow> string \<Rightarrow> mem_repo \<Rightarrow> cb_row \<times> mem_repo" where
  "repo_record_failure now sn R =
     (let (e, R') = repo_get_or_create_unlocked now sn R;
          r = e\<lparr>service_name := sn, failure_count := failure_count e + 1,
                last_failure_at := Some now, metadata := [], updated_at := Some now\<rparr>
      in (r, put_row sn r R'))"

definition repo_record_success :: "instant \<Rightarrow> string \<Rightarrow> mem_repo \<Rightarrow> cb_row \<times> mem_repo" where
  "repo_record_success now sn R =
     (let (e, R') = repo_get_or_create_unlocked now sn R;
          r = e\<lparr>service_name := sn, success_count := success_count e + 1, metadata := [],
                updated_at := Some now\<rparr>
      in (r, put_row sn r R'))"

definition repo_record_success_with_close_check ::
    "instant \<Rightarrow> string \<Rightarrow> int \<Rightarrow> mem_repo \<Rightarrow> close_attempt \<times> mem_repo" where
  "repo_record_success_with_close_check now sn threshold R =
     (let (e, R') = repo_get_or_create_unlocked now sn R;
          count = success_count e + 1;
          should_close = (state e = HALF_OPEN \<and> count \<ge> threshold)
      in if should_close
         then let r = e\<lparr>service_name := sn, state := CLOSED, failure_count := 0, success_count := 0,
                        opened_at := None, half_open_request_count := 0,
                        half_open_window_started_at := None, metadata := [],
                        updated_at := Some now\<rparr>
              in (\<lparr>ca_state = r, did_close = True\<rparr>, put_row sn r R')
         else let r = e\<lparr>service_name := sn, success_count := count, metadata := [],
                        updated_at := Some now\<rparr>
              in (\<lparr>ca_state = r, did_close = False\<rparr>, put_row sn r R'))"

definition repo_record_failure_with_open_check ::
    "instant \<Rightarrow> string \<Rightarrow> mem_repo \<Rightarrow> open_attempt \<times> mem_repo" where
  "repo_record_failure_with_open_check now sn R =
     (let (e, R') = repo_get_or_create_unlocked now sn R
      in if state e \<noteq> HALF_OPEN then (\<lparr>oa_state = e, did_open = False\<rparr>, R')
         else let r = e\<lparr>service_name := sn, state := OPEN, failure_count := 0, success_count := 0,
                        opened_at := Some now, half_open_request_count := 0,
                        half_open_window_started_at := None, metadata := [],
                        updated_at := Some now\<rparr>
              in (\<lparr>oa_state = r, did_open = True\<rparr>, put_row sn r R'))"

definition repo_trip_to_open :: "instant \<Rightarrow> string \<Rightarrow> int \<Rightarrow> mem_repo \<Rightarrow> open_attempt \<times> mem_repo" where
  "repo_trip_to_open now sn failures R =
     (let (e, R') = repo_get_or_create_unlocked now sn R
      in if is_pin_active now e then (pinned_trip_attempt sn (manual_override_expires_at e), R')
         else if state e \<noteq> CLOSED then (\<lparr>oa_state = e, did_open = False\<rparr>, R')
         else let r = e\<lparr>service_name := sn, state := OPEN, failure_count := failures,
                        success_count := 0, opened_at := Some now, manually_controlled := False,
                        controlled_by_id := None, manual_override_expires_at := None,
                        half_open_request_count := 0, half_open_window_started_at := None,
                        updated_at := Some now\<rparr>
              in (\<lparr>oa_state = r, did_open = True\<rparr>, put_row sn r R'))"

text \<open>A missing watermark reads as an infinite age.\<close>

definition window_stuck :: "instant \<Rightarrow> int \<Rightarrow> instant option \<Rightarrow> bool" where
  "window_stuck now stuck_timeout started =
     (case started of None \<Rightarrow> True | Some t \<Rightarrow> now - t > seconds stuck_timeout)"

definition repo_try_acquire_half_open_slot ::
    "instant \<Rightarrow> string \<Rightarrow> int \<Rightarrow> int \<Rightarrow> mem_repo \<Rightarrow> (bool \<times> cb_state \<times> cb_state) \<times> mem_repo" where
  "repo_try_acquire_half_open_slot now sn limit stuck_timeout R =
     (let (e, R') = repo_get_or_create now sn R;
          count = half_open_request_count e; started = half_open_window_started_at e
      in if state e = HALF_OPEN \<and> count \<ge> limit
         then if window_stuck now stuck_timeout started
              then ((True, HALF_OPEN, HALF_OPEN),
                    (put_row sn (e\<lparr>service_name := sn, state := HALF_OPEN, success_count := 0,
                                   half_open_request_count := 1,
                                   half_open_window_started_at := Some now, metadata := [],
                                   updated_at := Some now\<rparr>) R')\<lparr>last_acquire_marker := STUCK_RECOVERY\<rparr>)
              else ((False, HALF_OPEN, HALF_OPEN), R'\<lparr>last_acquire_marker := REJECTED\<rparr>)
         else if state e = OPEN
         then ((True, OPEN, HALF_OPEN),
               (put_row sn (e\<lparr>service_name := sn, state := HALF_OPEN, success_count := 0,
                              half_open_request_count := 1,
                              half_open_window_started_at := Some now, metadata := [],
                              updated_at := Some now\<rparr>) R')\<lparr>last_acquire_marker := TRANSITION\<rparr>)
         else if state e = HALF_OPEN \<and> count < limit
         then ((True, HALF_OPEN, HALF_OPEN),
               (put_row sn (e\<lparr>service_name := sn, state := HALF_OPEN,
                              half_open_request_count := count + 1,
                              half_open_window_started_at := Some (given started now),
                              metadata := [], updated_at := Some now\<rparr>) R')
                 \<lparr>last_acquire_marker := INCREMENT\<rparr>)
         else ((False, state e, state e), R'\<lparr>last_acquire_marker := NO_OP\<rparr>))"

definition repo_reset_half_open_count :: "instant \<Rightarrow> string \<Rightarrow> mem_repo \<Rightarrow> mem_repo" where
  "repo_reset_half_open_count now sn R =
     (case dict_get (storage R) sn of
        None \<Rightarrow> R
      | Some e \<Rightarrow>
          put_row sn (e\<lparr>half_open_request_count := 0, half_open_window_started_at := None,
                        metadata := [], updated_at := Some now\<rparr>) R)"

section \<open>Rows after an operation\<close>

named_theorems repo_rows "the row of a name after an operation"

abbreviation row_of :: "mem_repo \<Rightarrow> string \<Rightarrow> cb_row option" where
  "row_of R sn \<equiv> dict_get (storage R) sn"

text \<open>The row \<open>get_or_create\<close> answers with, and the repository it leaves.\<close>

definition entry_of :: "instant \<Rightarrow> string \<Rightarrow> mem_repo \<Rightarrow> cb_row" where
  "entry_of now sn R = fst (repo_get_or_create_unlocked now sn R)"

definition with_entry :: "instant \<Rightarrow> string \<Rightarrow> mem_repo \<Rightarrow> mem_repo" where
  "with_entry now sn R = snd (repo_get_or_create_unlocked now sn R)"

lemma get_or_create_unlocked_eq [repo_rows]:
  "repo_get_or_create_unlocked now sn R = (entry_of now sn R, with_entry now sn R)"
  by (simp add: entry_of_def with_entry_def)

lemma get_or_create_eq [repo_rows]:
  "repo_get_or_create now sn R = (entry_of now sn R, with_entry now sn R)"
  by (simp add: entry_of_def with_entry_def repo_get_or_create_def repo_get_or_create_unlocked_def
      split: option.splits)

lemma row_put_row [repo_rows]:
  "row_of (put_row sn r R) sn' = (if sn' = sn then Some r else row_of R sn')"
  by (simp add: put_row_def dict_simps)

lemma next_id_put_row [simp]: "next_id (put_row sn r R) = next_id R"
  by (simp add: put_row_def)

lemma row_of_marker [simp]: "row_of (R\<lparr>last_acquire_marker := m\<rparr>) sn = row_of R sn"
  by simp

lemma entry_of_Some [simp]: "row_of R sn = Some r \<Longrightarrow> entry_of now sn R = r"
  by (simp add: entry_of_def repo_get_or_create_unlocked_def)

lemma with_entry_Some [simp]: "row_of R sn = Some r \<Longrightarrow> with_entry now sn R = R"
  by (simp add: with_entry_def repo_get_or_create_unlocked_def)

lemma entry_of_None:
  "row_of R sn = None \<Longrightarrow>
     entry_of now sn R = (new_row sn)\<lparr>row_id := Some (next_id R), created_at := Some now,
                                      updated_at := Some now\<rparr>"
  by (simp add: entry_of_def repo_get_or_create_unlocked_def new_row_def Let_def)

lemma row_with_entry [repo_rows]:
  "row_of (with_entry now sn R) sn' = (if sn' = sn then Some (entry_of now sn R) else row_of R sn')"
  by (auto simp: with_entry_def entry_of_def repo_get_or_create_unlocked_def repo_rows Let_def
      split: option.splits)

section \<open>Operations as a type\<close>

datatype repo_op =
    Get_Or_Create string
  | Hydrate_Snapshot cb_row bool
  | Update_State string state_update
  | Increment_Failure_Count string "instant option"
  | Reset_Counts string
  | Converge_To_Closed string
  | Set_Manual_Control string cb_state "int option" string "instant option"
  | Clear_Manual_Control string bool
  | Force_Open string string "int option" "int option"
  | Force_Close string string "int option" "int option"
  | Reset string
  | Atomic_Reset string string "int option"
  | Record_Failure string
  | Record_Success string
  | Success_With_Close_Check string int
  | Failure_With_Open_Check string
  | Trip_To_Open string int
  | Try_Acquire string int int
  | Reset_Half_Open_Count string
  | Delete string
  | Clear

fun repo_step :: "instant \<Rightarrow> repo_op \<Rightarrow> mem_repo \<Rightarrow> mem_repo" where
  "repo_step now (Get_Or_Create sn) R = snd (repo_get_or_create now sn R)"
| "repo_step now (Hydrate_Snapshot snap skip) R = snd (repo_hydrate_snapshot now snap skip R)"
| "repo_step now (Update_State sn u) R = snd (repo_update_state now sn u R)"
| "repo_step now (Increment_Failure_Count sn t) R = snd (repo_increment_failure_count now sn t R)"
| "repo_step now (Reset_Counts sn) R = snd (repo_reset_counts now sn R)"
| "repo_step now (Converge_To_Closed sn) R = snd (repo_converge_to_closed_unless_pinned now sn R)"
| "repo_step now (Set_Manual_Control sn st i why t) R = snd (repo_set_manual_control now sn st i why t R)"
| "repo_step now (Clear_Manual_Control sn keep) R = snd (repo_clear_manual_control now sn keep R)"
| "repo_step now (Force_Open sn why i ttl) R = snd (repo_atomic_force_open now sn why i ttl R)"
| "repo_step now (Force_Close sn why i ttl) R = snd (repo_atomic_force_close now sn why i ttl R)"
| "repo_step now (Reset sn) R = snd (repo_reset now sn R)"
| "repo_step now (Atomic_Reset sn why i) R = snd (repo_atomic_reset now sn why i R)"
| "repo_step now (Record_Failure sn) R = snd (repo_record_failure now sn R)"
| "repo_step now (Record_Success sn) R = snd (repo_record_success now sn R)"
| "repo_step now (Success_With_Close_Check sn n) R = snd (repo_record_success_with_close_check now sn n R)"
| "repo_step now (Failure_With_Open_Check sn) R = snd (repo_record_failure_with_open_check now sn R)"
| "repo_step now (Trip_To_Open sn n) R = snd (repo_trip_to_open now sn n R)"
| "repo_step now (Try_Acquire sn k stuck) R = snd (repo_try_acquire_half_open_slot now sn k stuck R)"
| "repo_step now (Reset_Half_Open_Count sn) R = repo_reset_half_open_count now sn R"
| "repo_step now (Delete sn) R = snd (repo_delete sn R)"
| "repo_step now Clear R = repo_clear R"

fun repo_run :: "(instant \<times> repo_op) list \<Rightarrow> mem_repo \<Rightarrow> mem_repo" where
  "repo_run [] R = R"
| "repo_run ((now, x) # xs) R = repo_run xs (repo_step now x R)"

section \<open>The repository invariant\<close>

text \<open>
  A stored row is filed under its own name, holds one of the three real states, an id handed out
  before, counts that are not negative, and a watermark whenever a trial slot is taken.
\<close>

definition row_ok :: "int \<Rightarrow> string \<Rightarrow> cb_row \<Rightarrow> bool" where
  "row_ok nid sn r \<longleftrightarrow>
     service_name r = sn \<and> state r \<noteq> PINNED_TOKEN
     \<and> (case row_id r of None \<Rightarrow> False | Some i \<Rightarrow> 1 \<le> i \<and> i < nid)
     \<and> 0 \<le> failure_count r \<and> 0 \<le> success_count r \<and> 0 \<le> half_open_request_count r
     \<and> (0 < half_open_request_count r \<longrightarrow> half_open_window_started_at r \<noteq> None)"

definition ids_distinct :: "(string, cb_row) dict \<Rightarrow> bool" where
  "ids_distinct d \<longleftrightarrow>
     (\<forall>sn sn' r r'. dict_get d sn = Some r \<longrightarrow> dict_get d sn' = Some r' \<longrightarrow> row_id r = row_id r' \<longrightarrow> sn = sn')"

definition repo_inv :: "mem_repo \<Rightarrow> bool" where
  "repo_inv R \<longleftrightarrow> dict_wf (storage R) \<and> 1 \<le> next_id R
     \<and> dict_all (row_ok (next_id R)) (storage R) \<and> ids_distinct (storage R)"

text \<open>What the callers of the repository owe: a real state, counts that are not negative, and no
  trial count set by hand without its watermark (no caller in the program passes one).\<close>

fun op_ok :: "repo_op \<Rightarrow> bool" where
  "op_ok (Hydrate_Snapshot snap _) \<longleftrightarrow>
     state snap \<noteq> PINNED_TOKEN \<and> 0 \<le> failure_count snap \<and> 0 \<le> success_count snap"
| "op_ok (Update_State _ u) \<longleftrightarrow>
     u_state u \<noteq> PINNED_TOKEN \<and> 0 \<le> given (u_failure_count u) 0 \<and> 0 \<le> given (u_success_count u) 0
     \<and> given (u_half_open_request_count u) 0 = 0"
| "op_ok (Set_Manual_Control _ st _ _ _) \<longleftrightarrow> st \<noteq> PINNED_TOKEN"
| "op_ok (Trip_To_Open _ n) \<longleftrightarrow> 0 \<le> n"
| "op_ok _ \<longleftrightarrow> True"

lemma row_ok_mono: "row_ok n sn r \<Longrightarrow> n \<le> n' \<Longrightarrow> row_ok n' sn r"
  by (auto simp: row_ok_def split: option.splits)

lemma repo_inv_row: "repo_inv R \<Longrightarrow> row_of R sn = Some r \<Longrightarrow> row_ok (next_id R) sn r"
  by (auto simp: repo_inv_def dest: dict_allD)

lemma repo_inv_empty: "repo_inv empty_repo"
  by (simp add: repo_inv_def empty_repo_def ids_distinct_def)

text \<open>Overwriting a row by one with the same id, and filing a row under the next id.\<close>

lemma repo_inv_put_row:
  assumes "repo_inv R" and "row_of R sn = Some e" and "row_id r = row_id e"
    and "row_ok (next_id R) sn r"
  shows "repo_inv (put_row sn r R)"
  using assms unfolding repo_inv_def put_row_def ids_distinct_def
  by (auto simp: dict_simps split: if_splits)

lemma repo_inv_new_row:
  assumes inv: "repo_inv R" and new: "row_of R sn = None" and i: "row_id r = Some (next_id R)"
    and ok: "row_ok (next_id R + 1) sn r"
  shows "repo_inv ((put_row sn r R)\<lparr>next_id := next_id R + 1\<rparr>)"
proof -
  have old: "row_ok (next_id R) sn' r' \<and> row_id r' \<noteq> Some (next_id R)"
    if "row_of R sn' = Some r'" for sn' r'
    using repo_inv_row [OF inv that] by (auto simp: row_ok_def)
  have "dict_all (row_ok (next_id R + 1)) (storage R)"
    using old row_ok_mono [of "next_id R" _ _ "next_id R + 1"] by (simp add: dict_all_def)
  then have "dict_all (row_ok (next_id R + 1)) (dict_set sn r (storage R))"
    using ok by (rule dict_all_set)
  moreover have "ids_distinct (dict_set sn r (storage R))"
    using inv old i unfolding repo_inv_def ids_distinct_def
    by (auto simp: dict_simps split: if_splits) metis+
  ultimately show ?thesis using inv by (simp add: repo_inv_def put_row_def)
qed

lemma row_ok_entry: "repo_inv R \<Longrightarrow> row_ok (next_id (with_entry now sn R)) sn (entry_of now sn R)"
proof (cases "row_of R sn")
  case None
  assume "repo_inv R"
  with None show ?thesis
    by (simp add: entry_of_None repo_inv_def row_ok_def new_row_def with_entry_def
        repo_get_or_create_unlocked_def Let_def)
qed (simp add: repo_inv_row)

lemma repo_inv_with_entry: "repo_inv R \<Longrightarrow> repo_inv (with_entry now sn R)"
proof (cases "row_of R sn")
  case None
  assume "repo_inv R"
  with None show ?thesis
    using repo_inv_new_row [OF \<open>repo_inv R\<close> None, of "entry_of now sn R"] row_ok_entry [of R now sn]
    by (auto simp: with_entry_def entry_of_def repo_get_or_create_unlocked_def Let_def)
qed simp

text \<open>An operation that creates the row if it is missing and then overwrites it.\<close>

lemma repo_inv_put_entry:
  assumes "repo_inv R" and "row_id r = row_id (entry_of now sn R)"
    and "row_ok (next_id (with_entry now sn R)) sn r"
  shows "repo_inv (put_row sn r (with_entry now sn R))"
  using repo_inv_put_row [OF repo_inv_with_entry [OF assms(1)] _ assms(2,3)] by (simp add: repo_rows)

lemma repo_inv_marker [simp]: "repo_inv (R\<lparr>last_acquire_marker := m\<rparr>) = repo_inv R"
  by (simp add: repo_inv_def)

lemma repo_inv_del: "repo_inv R \<Longrightarrow> repo_inv (R\<lparr>storage := dict_del sn (storage R)\<rparr>)"
  by (auto simp: repo_inv_def ids_distinct_def dict_simps)

lemmas repo_write_defs = repo_increment_failure_count_def repo_set_manual_control_def
  repo_atomic_force_open_def repo_atomic_force_close_def repo_record_failure_def
  repo_record_success_def repo_record_success_with_close_check_def
  repo_record_failure_with_open_check_def repo_trip_to_open_def
  repo_try_acquire_half_open_slot_def

lemmas repo_update_defs = repo_update_state_def repo_reset_counts_def
  repo_converge_to_closed_unless_pinned_def repo_clear_manual_control_def repo_reset_def
  repo_atomic_reset_def repo_reset_half_open_count_def

text \<open>The writes that create a missing row, the writes that need one, and the others.\<close>

lemma repo_inv_update:
  assumes "repo_inv R" and "row_of R sn = Some e" and "row_id r = row_id e"
    and "row_ok (next_id R) sn e \<Longrightarrow> row_ok (next_id R) sn r"
  shows "repo_inv (put_row sn r R)"
  using assms repo_inv_row [OF assms(1,2)] by (blast intro: repo_inv_put_row)

lemma repo_inv_hydrate:
  assumes "repo_inv R" and "op_ok (Hydrate_Snapshot snap skip)"
  shows "repo_inv (snd (repo_hydrate_snapshot now snap skip R))"
proof (cases "row_of R (service_name snap)")
  case None
  then show ?thesis using assms
    by (auto simp: repo_hydrate_snapshot_def Let_def row_ok_def repo_inv_def [of R]
        intro!: repo_inv_new_row)
next
  case (Some e)
  then show ?thesis using assms
    by (auto simp: repo_hydrate_snapshot_def Let_def row_ok_def intro!: repo_inv_update [OF _ Some])
qed

lemma repo_inv_update_state:
  assumes "repo_inv R" and "op_ok (Update_State sn u)"
  shows "repo_inv (snd (repo_update_state now sn u R))"
proof (cases "row_of R sn")
  case (Some e)
  then show ?thesis using assms
    by (auto simp: repo_update_state_def updated_row_def row_ok_def given_def
        split: option.splits intro!: repo_inv_update [OF _ Some])
qed (use assms in \<open>simp add: repo_update_state_def\<close>)

lemma repo_inv_entry_write:
  assumes "repo_inv R" and "row_id r = row_id (entry_of now sn R)"
    and "row_ok (next_id (with_entry now sn R)) sn (entry_of now sn R) \<Longrightarrow>
         row_ok (next_id (with_entry now sn R)) sn r"
  shows "repo_inv (put_row sn r (with_entry now sn R))"
  using assms row_ok_entry [OF assms(1)] by (blast intro: repo_inv_put_entry)

lemma repo_inv_step:
  assumes "repo_inv R" and "op_ok x"
  shows "repo_inv (repo_step now x R)"
proof (cases x)
  case (Hydrate_Snapshot snap skip)
  with assms show ?thesis by (simp add: repo_inv_hydrate del: op_ok.simps)
next
  case (Update_State sn u)
  with assms show ?thesis by (simp add: repo_inv_update_state del: op_ok.simps)
next
  case (Delete sn)
  with assms show ?thesis by (simp add: repo_delete_def repo_inv_del)
next
  case Clear
  with assms show ?thesis by (simp add: repo_clear_def repo_inv_def ids_distinct_def)
next
  case (Try_Acquire sn k stuck)
  with assms show ?thesis
    by (auto simp: repo_write_defs repo_rows Let_def row_ok_def repo_inv_with_entry
        intro!: repo_inv_entry_write)
qed (use assms in \<open>auto simp: repo_write_defs repo_update_defs repo_rows Let_def row_ok_def
       initial_row_def repo_inv_with_entry split: option.splits
       intro!: repo_inv_entry_write intro: repo_inv_update\<close>)

lemma repo_inv_run:
  assumes "repo_inv R" and "\<forall>(now, x) \<in> set xs. op_ok x"
  shows "repo_inv (repo_run xs R)"
  using assms by (induction xs arbitrary: R) (auto simp: repo_inv_step)

text \<open>After any interleaving of the repository's operations, each called with arguments its
  callers may pass, every row is filed under its own name with an id no other row has, holds a real
  state, counts that are not negative, and a watermark whenever a trial slot is taken.\<close>

theorem repo_run_invariant:
  assumes "\<forall>(now, x) \<in> set xs. op_ok x"
  shows "repo_inv (repo_run xs empty_repo)"
  by (rule repo_inv_run [OF repo_inv_empty assms])

theorem repo_run_invariant_witness:
  "repo_inv (repo_run [(0, Record_Failure ''a''), (1, Trip_To_Open ''a'' 1), (9, Try_Acquire ''a'' 3 60),
                       (9, Get_Or_Create ''b''), (10, Force_Open ''b'' [] None (Some 5))] empty_repo)"
  by (rule repo_run_invariant) simp

section \<open>Frame\<close>

text \<open>The name an operation is about.\<close>

fun op_name :: "repo_op \<Rightarrow> string option" where
  "op_name (Get_Or_Create sn) = Some sn"
| "op_name (Hydrate_Snapshot snap _) = Some (service_name snap)"
| "op_name (Update_State sn _) = Some sn"
| "op_name (Increment_Failure_Count sn _) = Some sn"
| "op_name (Reset_Counts sn) = Some sn"
| "op_name (Converge_To_Closed sn) = Some sn"
| "op_name (Set_Manual_Control sn _ _ _ _) = Some sn"
| "op_name (Clear_Manual_Control sn _) = Some sn"
| "op_name (Force_Open sn _ _ _) = Some sn"
| "op_name (Force_Close sn _ _ _) = Some sn"
| "op_name (Reset sn) = Some sn"
| "op_name (Atomic_Reset sn _ _) = Some sn"
| "op_name (Record_Failure sn) = Some sn"
| "op_name (Record_Success sn) = Some sn"
| "op_name (Success_With_Close_Check sn _) = Some sn"
| "op_name (Failure_With_Open_Check sn) = Some sn"
| "op_name (Trip_To_Open sn _) = Some sn"
| "op_name (Try_Acquire sn _ _) = Some sn"
| "op_name (Reset_Half_Open_Count sn) = Some sn"
| "op_name (Delete sn) = Some sn"
| "op_name Clear = None"

lemma repo_step_frame:
  assumes "op_name x = Some sn'" and "sn' \<noteq> sn"
  shows "row_of (repo_step now x R) sn = row_of R sn"
  using assms
  by (cases x) (auto simp: repo_write_defs repo_update_defs repo_rows Let_def repo_delete_def
      repo_hydrate_snapshot_def dict_simps split: option.splits)

end
