(* ===== verification/CB_Repo_Contract.thy ===== *)
theory CB_Repo_Contract
  imports CB_Memory_Repo
begin

text \<open>
  What the repository's atomic transitions promise to the threads that contend for them
  (\<open>interfaces/repositories.py\<close>): one winner per transition, one announcement per state change, a
  bounded number of trial calls.  The abstract base class also has default bodies for three of them,
  written over the primitives; they are modelled here over the in-memory primitives and compared
  with the in-memory overrides.
\<close>

section \<open>The default bodies of the base class\<close>

definition dflt_record_success_with_close_check ::
    "instant \<Rightarrow> string \<Rightarrow> int \<Rightarrow> mem_repo \<Rightarrow> close_attempt \<times> mem_repo" where
  "dflt_record_success_with_close_check now sn threshold R =
     (let (updated, R1) = repo_record_success now sn R
      in if state updated = HALF_OPEN \<and> success_count updated \<ge> threshold
         then let R2 = snd (repo_update_state now sn
                        ((update_to CLOSED)\<lparr>u_failure_count := Some 0, u_success_count := Some 0,
                           u_opened_at := None, u_reset_half_open_count := True\<rparr>) R1);
                  closed_state = given (repo_get_by_service_name sn R2) updated
              in (\<lparr>ca_state = closed_state, did_close = True\<rparr>, R2)
         else (\<lparr>ca_state = updated, did_close = False\<rparr>, R1))"

definition dflt_record_failure_with_open_check ::
    "instant \<Rightarrow> string \<Rightarrow> mem_repo \<Rightarrow> open_attempt \<times> mem_repo" where
  "dflt_record_failure_with_open_check now sn R =
     (let (e, R1) = repo_get_or_create now sn R
      in if state e = HALF_OPEN
         then let R2 = snd (repo_update_state now sn
                        ((update_to OPEN)\<lparr>u_failure_count := Some 0, u_success_count := Some 0,
                           u_opened_at := Some now, u_reset_half_open_count := True\<rparr>) R1);
                  open_state = given (repo_get_by_service_name sn R2) e
              in (\<lparr>oa_state = open_state, did_open = True\<rparr>, R2)
         else (\<lparr>oa_state = e, did_open = False\<rparr>, R1))"

definition dflt_trip_to_open :: "instant \<Rightarrow> string \<Rightarrow> int \<Rightarrow> mem_repo \<Rightarrow> open_attempt \<times> mem_repo" where
  "dflt_trip_to_open now sn failures R =
     (let (e, R1) = repo_get_or_create now sn R
      in if is_pin_active now e then (pinned_trip_attempt sn (manual_override_expires_at e), R1)
         else if state e = CLOSED
         then let R2 = snd (repo_update_state now sn
                        ((update_to OPEN)\<lparr>u_failure_count := Some failures, u_success_count := Some 0,
                           u_opened_at := Some now, u_reset_half_open_count := True\<rparr>) R1);
                  R3 = (if manually_controlled e then snd (repo_clear_manual_control now sn True R2) else R2);
                  open_state = given (repo_get_by_service_name sn R3) e
              in (\<lparr>oa_state = open_state, did_open = True\<rparr>, R3)
         else (\<lparr>oa_state = e, did_open = False\<rparr>, R1))"

definition dflt_get_cluster_states :: "mem_repo \<Rightarrow> cb_row list" where
  "dflt_get_cluster_states R = repo_get_all_states R"

definition dflt_get_open_states :: "int option \<Rightarrow> mem_repo \<Rightarrow> cb_row list" where
  "dflt_get_open_states limit R =
     (let open_states = sort_key opened_at (filter (\<lambda>r. state r = OPEN) (repo_get_all_states R))
      in case limit of None \<Rightarrow> open_states | Some k \<Rightarrow> slice_to k open_states)"

lemmas dflt_defs = dflt_record_success_with_close_check_def dflt_record_failure_with_open_check_def
  dflt_trip_to_open_def repo_update_state_def repo_clear_manual_control_def
  repo_get_by_service_name_def update_to_def updated_row_def given_def given_opt_def

section \<open>One winner per transition\<close>

text \<open>The three gates of one name: the trip of a CLOSED or missing row that no override holds, the
  re-open of a HALF_OPEN row, and the close of a HALF_OPEN row one success short of its threshold.\<close>

definition trip_attempt :: "string \<Rightarrow> instant \<times> int \<Rightarrow> mem_repo \<Rightarrow> bool \<times> mem_repo" where
  "trip_attempt sn i R = map_prod did_open (\<lambda>R. R) (repo_trip_to_open (fst i) sn (snd i) R)"

definition dflt_trip_attempt :: "string \<Rightarrow> instant \<times> int \<Rightarrow> mem_repo \<Rightarrow> bool \<times> mem_repo" where
  "dflt_trip_attempt sn i R = map_prod did_open (\<lambda>R. R) (dflt_trip_to_open (fst i) sn (snd i) R)"

definition reopen_attempt :: "string \<Rightarrow> instant \<Rightarrow> mem_repo \<Rightarrow> bool \<times> mem_repo" where
  "reopen_attempt sn now R = map_prod did_open (\<lambda>R. R) (repo_record_failure_with_open_check now sn R)"

definition close_attempt_of :: "string \<Rightarrow> int \<Rightarrow> instant \<Rightarrow> mem_repo \<Rightarrow> bool \<times> mem_repo" where
  "close_attempt_of sn threshold now R =
     map_prod did_close (\<lambda>R. R) (repo_record_success_with_close_check now sn threshold R)"

definition state_of :: "mem_repo \<Rightarrow> string \<Rightarrow> cb_state" where
  "state_of R sn = (case row_of R sn of None \<Rightarrow> CLOSED | Some r \<Rightarrow> state r)"

definition flagged :: "mem_repo \<Rightarrow> string \<Rightarrow> bool" where
  "flagged R sn = (case row_of R sn of None \<Rightarrow> False | Some r \<Rightarrow> manually_controlled r)"

definition successes :: "mem_repo \<Rightarrow> string \<Rightarrow> int" where
  "successes R sn = (case row_of R sn of None \<Rightarrow> 0 | Some r \<Rightarrow> success_count r)"

lemmas attempt_defs = trip_attempt_def dflt_trip_attempt_def reopen_attempt_def close_attempt_of_def

lemma state_entry: "state (entry_of now sn R) = state_of R sn"
  by (cases "row_of R sn") (simp_all add: state_of_def entry_of_None new_row_def)

lemma flagged_entry: "manually_controlled (entry_of now sn R) = flagged R sn"
  by (cases "row_of R sn") (simp_all add: flagged_def entry_of_None new_row_def)

lemma successes_entry: "success_count (entry_of now sn R) = successes R sn"
  by (cases "row_of R sn") (simp_all add: successes_def entry_of_None new_row_def)

lemmas entry_views = state_entry flagged_entry successes_entry

lemma views_put [repo_rows]:
  "state_of (put_row sn r R) sn' = (if sn' = sn then state r else state_of R sn')"
  "flagged (put_row sn r R) sn' = (if sn' = sn then manually_controlled r else flagged R sn')"
  "successes (put_row sn r R) sn' = (if sn' = sn then success_count r else successes R sn')"
  by (simp_all add: state_of_def flagged_def successes_def repo_rows)

lemma views_with_entry [repo_rows]:
  "state_of (with_entry now sn R) sn' = state_of R sn'"
  "flagged (with_entry now sn R) sn' = flagged R sn'"
  "successes (with_entry now sn R) sn' = successes R sn'"
  using state_entry [of now sn R] flagged_entry [of now sn R] successes_entry [of now sn R]
  by (auto simp: state_of_def flagged_def successes_def repo_rows)

interpretation trip: single_winner "trip_attempt sn"
    "\<lambda>R. state_of R sn = CLOSED \<and> \<not> flagged R sn" "\<lambda>R. state_of R sn = OPEN" for sn
  by unfold_locales
    (simp_all add: attempt_defs repo_trip_to_open_def repo_rows entry_views pin_defs
      pinned_trip_attempt_def Let_def)

interpretation dflt_trip: single_winner "dflt_trip_attempt sn"
    "\<lambda>R. state_of R sn = CLOSED \<and> \<not> flagged R sn" "\<lambda>R. state_of R sn = OPEN" for sn
  by unfold_locales
    (simp_all add: attempt_defs dflt_defs repo_rows entry_views pin_defs
      pinned_trip_attempt_def Let_def)

interpretation reopen: single_winner "reopen_attempt sn"
    "\<lambda>R. state_of R sn = HALF_OPEN" "\<lambda>R. state_of R sn = OPEN" for sn
  by unfold_locales
    (simp_all add: attempt_defs repo_record_failure_with_open_check_def repo_rows entry_views Let_def)

interpretation close: single_winner "close_attempt_of sn threshold"
    "\<lambda>R. state_of R sn = HALF_OPEN \<and> successes R sn + 1 \<ge> threshold" "\<lambda>R. state_of R sn = CLOSED"
    for sn threshold
  by unfold_locales
    (simp_all add: attempt_defs repo_record_success_with_close_check_def repo_rows entry_views Let_def)

text \<open>Of any number of threads that decided to trip a CLOSED (or not yet stored) breaker that no
  override flags, in whatever order they get the lock, exactly the first is told \<open>did_open\<close>.\<close>

theorem concurrent_trips_one_winner:
  assumes "state_of R sn = CLOSED" and "\<not> flagged R sn"
  shows "map did_open (fst (run_actions (map (\<lambda>(now, n). repo_trip_to_open now sn n) (i # is)) R))
           = True # replicate (length is) False"
  using trip.first_wins [OF conjI [OF assms], of i "is"]
  by (simp only: trip_attempt_def [abs_def] run_actions_map_prod case_prod_unfold fst_map_prod)

theorem concurrent_trips_one_winner_witness:
  "map did_open (fst (run_actions (map (\<lambda>(now, n). repo_trip_to_open now ''pay'' n)
     [(10, 5), (11, 6), (12, 5)]) empty_repo)) = [True, False, False]"
  using concurrent_trips_one_winner [of empty_repo "''pay''" "(10, 5)" "[(11, 6), (12, 5)]"]
  by (simp add: state_of_def flagged_def empty_repo_def numeral_2_eq_2 del: run_actions.simps list.map(2))

lemma concurrent_reopens_one_winner:
  assumes "state_of R sn = HALF_OPEN"
  shows "map did_open (fst (run_actions (map (\<lambda>now. repo_record_failure_with_open_check now sn) (i # is)) R))
           = True # replicate (length is) False"
  using reopen.first_wins [of R sn i "is"] assms
  by (simp only: reopen_attempt_def [abs_def] run_actions_map_prod split_beta fst_map_prod)

lemma close_attempt_below:
  assumes "state_of R sn = HALF_OPEN" and "successes R sn + 1 < th"
  shows "\<not> fst (close_attempt_of sn th now R)"
    "state_of (snd (close_attempt_of sn th now R)) sn = HALF_OPEN"
    "successes (snd (close_attempt_of sn th now R)) sn = successes R sn + 1"
  using assms
  by (simp_all add: attempt_defs repo_record_success_with_close_check_def repo_rows entry_views Let_def)

lemma closes_below:
  assumes "state_of R sn = HALF_OPEN" and "successes R sn + 1 + int (length ts) \<le> th"
  shows "fst (run_actions (map (close_attempt_of sn th) ts) R) = replicate (length ts) False
    \<and> state_of (snd (run_actions (map (close_attempt_of sn th) ts) R)) sn = HALF_OPEN
    \<and> successes (snd (run_actions (map (close_attempt_of sn th) ts) R)) sn
        = successes R sn + int (length ts)"
  using assms
  by (induction ts arbitrary: R) (auto simp: Let_def split_beta close_attempt_below)

text \<open>Of the successes recorded on a HALF_OPEN breaker, in whatever order the threads get the
  lock, exactly the one that reaches the success threshold is told \<open>did_close\<close>: none before it, and
  none of the stragglers after it.\<close>

theorem concurrent_successes_close_once:
  assumes "state_of R sn = HALF_OPEN" and "successes R sn + 1 + int (length ts) = th"
  shows "map did_close (fst (run_actions
             (map (\<lambda>now. repo_record_success_with_close_check now sn th) (ts @ t # ts')) R))
           = replicate (length ts) False @ True # replicate (length ts') False"
proof -
  define R1 where "R1 = snd (run_actions (map (close_attempt_of sn th) ts) R)"
  have "state_of R1 sn = HALF_OPEN \<and> successes R1 sn + 1 \<ge> th"
    using closes_below [of R sn ts th] assms unfolding R1_def by simp
  from close.first_wins [OF this, of t ts']
  have "fst (run_actions (map (close_attempt_of sn th) (ts @ t # ts')) R)
         = replicate (length ts) False @ True # replicate (length ts') False"
    using closes_below [of R sn ts th] assms
    by (simp add: run_actions_append R1_def split_beta Let_def del: run_actions.simps)
  then show ?thesis
    by (simp only: close_attempt_of_def [abs_def] run_actions_map_prod split_beta fst_map_prod)
qed


theorem concurrent_successes_close_once_witness:
  "map did_close (fst (run_actions (map (\<lambda>now. repo_record_success_with_close_check now ''pay'' 2)
     [70, 71, 72]) (snd (repo_try_acquire_half_open_slot 60 ''pay'' 3 60
                      (snd (repo_trip_to_open 0 ''pay'' 5 empty_repo)))))) = [False, True, False]"
  using concurrent_successes_close_once [of "snd (repo_try_acquire_half_open_slot 60 ''pay'' 3 60
      (snd (repo_trip_to_open 0 ''pay'' 5 empty_repo)))" "''pay''" "[70]" 2 71 "[72]"]
  by (simp add: repo_write_defs repo_rows entry_views Let_def state_of_def flagged_def successes_def pin_defs
      empty_repo_def entry_of_None new_row_def del: run_actions.simps list.map(2))

section \<open>Trial slots\<close>

text \<open>How many calls were admitted.\<close>

definition admitted :: "(bool \<times> cb_state \<times> cb_state) list \<Rightarrow> nat" where
  "admitted rs = length (filter fst rs)"

lemma acquire_open:
  assumes "row_of R sn = Some e" and "state e = OPEN"
  shows "\<exists>e'. row_of (snd (repo_try_acquire_half_open_slot now sn k stuck R)) sn = Some e'
           \<and> fst (repo_try_acquire_half_open_slot now sn k stuck R) = (True, OPEN, HALF_OPEN)
           \<and> state e' = HALF_OPEN \<and> half_open_request_count e' = 1
           \<and> half_open_window_started_at e' = Some now"
  using assms by (simp add: repo_try_acquire_half_open_slot_def repo_rows Let_def)

lemma acquire_half_open:
  assumes "row_of R sn = Some e" and "state e = HALF_OPEN" and "half_open_window_started_at e = Some t0"
    and "now - t0 \<le> seconds stuck"
  shows "\<exists>e'. row_of (snd (repo_try_acquire_half_open_slot now sn k stuck R)) sn = Some e'
           \<and> fst (fst (repo_try_acquire_half_open_slot now sn k stuck R)) = (half_open_request_count e < k)
           \<and> state e' = HALF_OPEN \<and> half_open_window_started_at e' = Some t0
           \<and> half_open_request_count e' = (if half_open_request_count e < k
                then half_open_request_count e + 1 else half_open_request_count e)"
  using assms
  by (simp add: repo_try_acquire_half_open_slot_def repo_rows Let_def window_stuck_def given_def)

lemma admitted_half_open:
  assumes "row_of R sn = Some e" and "state e = HALF_OPEN" and "half_open_window_started_at e = Some t0"
    and "\<forall>t \<in> set ts. t - t0 \<le> seconds stuck"
  shows "admitted (fst (run_actions (map (\<lambda>now. repo_try_acquire_half_open_slot now sn k stuck) ts) R))
           = min (length ts) (nat (k - half_open_request_count e))"
  using assms
proof (induction ts arbitrary: R e)
  case (Cons t ts)
  obtain e' where e': "row_of (snd (repo_try_acquire_half_open_slot t sn k stuck R)) sn = Some e'"
      "fst (fst (repo_try_acquire_half_open_slot t sn k stuck R)) = (half_open_request_count e < k)"
      "state e' = HALF_OPEN" "half_open_window_started_at e' = Some t0"
      "half_open_request_count e' = (if half_open_request_count e < k
                then half_open_request_count e + 1 else half_open_request_count e)"
    using acquire_half_open [of R sn e t0 t stuck k] Cons.prems by auto
  from Cons.IH [OF e'(1) e'(3) e'(4)] Cons.prems(4) e'(2,5) show ?case
    by (auto simp: admitted_def Let_def split_beta)
qed (simp add: admitted_def)

text \<open>When a breaker turns from OPEN to HALF_OPEN, of the calls that ask for a trial slot before
  the stuck timeout has passed, exactly the configured number is admitted (all of them if fewer ask).\<close>

theorem trial_slots_exact:
  assumes "row_of R sn = Some e" and "state e = OPEN" and "1 \<le> k"
    and "\<forall>t \<in> set ts. t - t0 \<le> seconds stuck"
  shows "admitted (fst (run_actions
            (map (\<lambda>now. repo_try_acquire_half_open_slot now sn k stuck) (t0 # ts)) R))
           = min (length (t0 # ts)) (nat k)"
proof -
  obtain e' where e': "row_of (snd (repo_try_acquire_half_open_slot t0 sn k stuck R)) sn = Some e'"
      "fst (repo_try_acquire_half_open_slot t0 sn k stuck R) = (True, OPEN, HALF_OPEN)"
      "state e' = HALF_OPEN" "half_open_request_count e' = 1"
      "half_open_window_started_at e' = Some t0"
    using acquire_open [OF assms(1,2), of t0 k stuck] by auto
  from admitted_half_open [OF e'(1) e'(3) e'(5) assms(4), of k] e'(2,4) assms(3) show ?thesis
    by (auto simp: admitted_def Let_def split_beta)
qed

theorem trial_slots_exact_witness:
  "admitted (fst (run_actions (map (\<lambda>now. repo_try_acquire_half_open_slot now ''pay'' 3 60)
     [60, 61, 62, 63, 64]) (snd (repo_trip_to_open 0 ''pay'' 5 empty_repo)))) = 3"
  using trial_slots_exact [of "snd (repo_trip_to_open 0 ''pay'' 5 empty_repo)" "''pay''"
      "oa_state (fst (repo_trip_to_open 0 ''pay'' 5 empty_repo))" 3 "[61, 62, 63, 64]" 60 60]
  by (simp add: repo_trip_to_open_def repo_rows Let_def pin_defs
      empty_repo_def entry_of_None new_row_def seconds_def del: run_actions.simps list.map(2))

section \<open>Announced transitions\<close>

text \<open>The transition a caller of an operation announces on, read off the operation's return value:
  \<open>did_open\<close>, \<open>did_close\<close>, and the pair of states of an acquisition.\<close>

fun announced :: "instant \<Rightarrow> repo_op \<Rightarrow> mem_repo \<Rightarrow> (cb_state \<times> cb_state) list" where
  "announced now (Trip_To_Open sn n) R =
     (if did_open (fst (repo_trip_to_open now sn n R)) then [(CLOSED, OPEN)] else [])"
| "announced now (Failure_With_Open_Check sn) R =
     (if did_open (fst (repo_record_failure_with_open_check now sn R)) then [(HALF_OPEN, OPEN)] else [])"
| "announced now (Success_With_Close_Check sn n) R =
     (if did_close (fst (repo_record_success_with_close_check now sn n R)) then [(HALF_OPEN, CLOSED)] else [])"
| "announced now (Try_Acquire sn k stuck) R =
     (let (got, prev, cur) = fst (repo_try_acquire_half_open_slot now sn k stuck R)
      in if prev \<noteq> cur then [(prev, cur)] else [])"
| "announced now _ R = []"

text \<open>The operations the automatic machinery calls: no operator's action, no wholesale restore, and
  of the field updates only the guarded one that may refresh a CLOSED row.\<close>

fun automatic :: "repo_op \<Rightarrow> bool" where
  "automatic (Get_Or_Create _) = True"
| "automatic (Update_State sn u) \<longleftrightarrow> u_keep_open u \<and> u_state u = CLOSED \<and> op_ok (Update_State sn u)"
| "automatic (Increment_Failure_Count _ _) = True"
| "automatic (Record_Failure _) = True"
| "automatic (Record_Success _) = True"
| "automatic (Success_With_Close_Check _ _) = True"
| "automatic (Failure_With_Open_Check _) = True"
| "automatic (Trip_To_Open _ n) \<longleftrightarrow> 0 \<le> n"
| "automatic (Try_Acquire _ _ _) = True"
| "automatic (Reset_Half_Open_Count _) = True"
| "automatic _ = False"

fun announced_run :: "string \<Rightarrow> (instant \<times> repo_op) list \<Rightarrow> mem_repo \<Rightarrow> (cb_state \<times> cb_state) list" where
  "announced_run sn [] R = []"
| "announced_run sn ((now, x) # xs) R =
     (if op_name x = Some sn then announced now x R else []) @ announced_run sn xs (repo_step now x R)"

fun path_from :: "cb_state \<Rightarrow> (cb_state \<times> cb_state) list \<Rightarrow> cb_state \<Rightarrow> bool" where
  "path_from s [] t \<longleftrightarrow> s = t"
| "path_from s ((a, b) # es) t \<longleftrightarrow> a = s \<and> path_from b es t"

definition breaker_edges :: "(cb_state \<times> cb_state) set" where
  "breaker_edges = {(CLOSED, OPEN), (OPEN, HALF_OPEN), (HALF_OPEN, CLOSED), (HALF_OPEN, OPEN)}"

lemma path_from_append: "path_from s es u \<Longrightarrow> path_from u es' t \<Longrightarrow> path_from s (es @ es') t"
  by (induction s es u rule: path_from.induct) auto

lemma automatic_op_ok: "automatic x \<Longrightarrow> op_ok x"
  by (cases x) simp_all

lemma automatic_name: "automatic x \<Longrightarrow> \<exists>sn. op_name x = Some sn"
  by (cases x) simp_all

lemma state_of_frame: "op_name x = Some sn' \<Longrightarrow> sn' \<noteq> sn \<Longrightarrow> state_of (repo_step now x R) sn = state_of R sn"
  by (simp add: state_of_def repo_step_frame)

lemma state_of_real: "repo_inv R \<Longrightarrow> state_of R sn \<noteq> PINNED_TOKEN"
  by (auto simp: state_of_def row_ok_def dest: repo_inv_row split: option.splits)

lemma state_of_marker [simp]: "state_of (R\<lparr>last_acquire_marker := m\<rparr>) sn = state_of R sn"
  by (simp add: state_of_def)

lemma automatic_update_state:
  assumes "repo_inv R" and "u_keep_open u" and "u_state u = CLOSED"
  shows "state_of (snd (repo_update_state now sn u R)) sn = state_of R sn"
  using state_of_real [OF assms(1), of sn] assms(2,3)
  by (cases "state_of R sn")
    (auto simp: repo_update_state_def updated_row_def repo_rows state_of_def non_closed_states_def
      split: option.splits)

lemma announced_step:
  assumes "automatic x" and "op_name x = Some sn" and "repo_inv R"
  shows "path_from (state_of R sn) (announced now x R) (state_of (repo_step now x R) sn)"
  using assms state_of_real [OF assms(3), of sn]
  by (cases x)
    (auto simp: repo_write_defs repo_rows entry_views Let_def automatic_update_state
      pinned_trip_attempt_def repo_reset_half_open_count_def split: option.splits
      simp: state_of_def [of R])

lemma announced_edges: "set (announced now x R) \<subseteq> breaker_edges"
  by (cases x) (auto simp: breaker_edges_def repo_try_acquire_half_open_slot_def Let_def split_beta)

lemma announced_run_path:
  assumes "repo_inv R" and "\<forall>(now, x) \<in> set xs. automatic x"
  shows "path_from (state_of R sn) (announced_run sn xs R) (state_of (repo_run xs R) sn)
         \<and> set (announced_run sn xs R) \<subseteq> breaker_edges"
  using assms
proof (induction xs arbitrary: R)
  case (Cons y xs)
  obtain now x where y: "y = (now, x)" by fastforce
  have x: "automatic x" using Cons.prems y by simp
  note IH = Cons.IH [OF repo_inv_step [OF Cons.prems(1) automatic_op_ok [OF x], of now]]
  have "path_from (state_of R sn) (if op_name x = Some sn then announced now x R else [])
          (state_of (repo_step now x R) sn)"
    using announced_step [OF x _ Cons.prems(1)] automatic_name [OF x] state_of_frame by fastforce
  moreover have "path_from (state_of (repo_step now x R) sn) (announced_run sn xs (repo_step now x R))
          (state_of (repo_run xs (repo_step now x R)) sn)"
    using IH Cons.prems(2) by simp
  ultimately have "path_from (state_of R sn) (announced_run sn (y # xs) R)
      (state_of (repo_run (y # xs) R) sn)"
    unfolding y announced_run.simps repo_run.simps by (rule path_from_append)
  moreover have "set (announced_run sn (y # xs) R) \<subseteq> breaker_edges"
    using IH Cons.prems(2) announced_edges [of now x R] by (auto simp: y)
  ultimately show ?case by blast
qed simp



section \<open>The default bodies against the overrides\<close>

text \<open>What the two trips may leave different: the metadata, which \<open>update_state\<close> drops, and the
  operator fields of a row that no override flags.\<close>

definition visible_row :: "cb_row \<Rightarrow> cb_row" where
  "visible_row r = (if manually_controlled r then r\<lparr>metadata := []\<rparr>
     else r\<lparr>metadata := [], controlled_by_id := None, manual_override_expires_at := None\<rparr>)"

text \<open>Run without interference, the base class's default trip and the in-memory override report
  the same winner and leave the same row for every name, up to the metadata and to the operator fields
  of a row that no override flags.\<close>

theorem default_trip_agrees:
  "did_open (fst (dflt_trip_to_open now sn n R)) = did_open (fst (repo_trip_to_open now sn n R))
   \<and> map_option visible_row (row_of (snd (dflt_trip_to_open now sn n R)) sn')
     = map_option visible_row (row_of (snd (repo_trip_to_open now sn n R)) sn')"
  by (auto simp: dflt_defs repo_trip_to_open_def repo_rows Let_def pinned_trip_attempt_def visible_row_def)

lemma default_reopen_agrees:
  "fst (dflt_record_failure_with_open_check now sn R) = fst (repo_record_failure_with_open_check now sn R)
   \<and> row_of (snd (dflt_record_failure_with_open_check now sn R)) sn'
     = row_of (snd (repo_record_failure_with_open_check now sn R)) sn'"
  by (auto simp: dflt_defs repo_record_failure_with_open_check_def repo_rows Let_def)

text \<open>The base class's default close passes \<open>opened_at=None\<close>, which \<open>update_state\<close> reads as
  "keep": the row it leaves is CLOSED and still carries the instant it opened.  The in-memory override
  clears it.\<close>

theorem default_close_keeps_opened_at:
  assumes "row_of R sn = Some e" and "state e = HALF_OPEN" and "success_count e + 1 \<ge> th"
  shows "map_option (\<lambda>r. (state r, opened_at r)) (row_of (snd (dflt_record_success_with_close_check now sn th R)) sn)
           = Some (CLOSED, opened_at e)
       \<and> map_option (\<lambda>r. (state r, opened_at r)) (row_of (snd (repo_record_success_with_close_check now sn th R)) sn)
           = Some (CLOSED, None)"
  using assms by (auto simp: dflt_defs repo_write_defs repo_rows Let_def)

theorem default_close_keeps_opened_at_witness:
  "map_option (\<lambda>r. (state r, opened_at r)) (row_of (snd (dflt_record_success_with_close_check 70 ''pay'' 1
       (put_row ''pay'' ((new_row ''pay'')\<lparr>state := HALF_OPEN, opened_at := Some 3\<rparr>) empty_repo))) ''pay'')
     = Some (CLOSED, Some 3)"
  using default_close_keeps_opened_at [of
      "put_row ''pay'' ((new_row ''pay'')\<lparr>state := HALF_OPEN, opened_at := Some 3\<rparr>) empty_repo" "''pay''"
      "(new_row ''pay'')\<lparr>state := HALF_OPEN, opened_at := Some 3\<rparr>" 1 70]
  by (simp add: repo_rows new_row_def)

end
