(* ===== verification/Outcome_Window.thy ===== *)
theory Outcome_Window
  imports CB_Types
begin

text \<open>
  The call-outcome ring of \<open>services/circuit_breaker/outcome_window.py\<close>: per name a bounded deque of
  outcomes (1 a failure, 0 a success), an epoch, the number of failure writes in flight and the
  last state seen.  One definition per method of \<open>OutcomeWindow\<close>; each method is one critical
  section, so a list of \<open>ow_op\<close> is an interleaving of any number of threads.

  Shown: the ring holds exactly the most recent outcomes of the current evidence period
  (\<open>evidence\<close> locale and its interpretation), every method keeps the invariant, the ring is cleared
  once per re-entry into CLOSED, and a read-free success append succeeds only when nothing happened
  to the name since its admission.
\<close>

section \<open>State\<close>

definition FAILURE_OUTCOME :: int where "FAILURE_OUTCOME = 1"

definition SUCCESS_OUTCOME :: int where "SUCCESS_OUTCOME = 0"

record outcome_window =
  windows :: "(string, int deque) dict"
  epochs :: "(string, int) dict"
  writes_in_flight :: "(string, int) dict"
  last_seen :: "(string, cb_state) dict"

definition empty_window :: outcome_window where
  "empty_window = \<lparr>windows = [], epochs = [], writes_in_flight = [], last_seen = []\<rparr>"

section \<open>Methods\<close>

text \<open>\<open>_resolve\<close>: the ring of the name, sized to the configured window.\<close>

definition ow_resolve :: "string \<Rightarrow> int \<Rightarrow> outcome_window \<Rightarrow> int deque \<times> outcome_window" where
  "ow_resolve sn wsize w =
     (let n = nat (max wsize 0)
      in case dict_get (windows w) sn of
           None \<Rightarrow> let d = deque_of [] n in (d, w\<lparr>windows := dict_set sn d (windows w)\<rparr>)
         | Some d \<Rightarrow>
             if maxlen d \<noteq> n
             then let d' = deque_of (items d) n in (d', w\<lparr>windows := dict_set sn d' (windows w)\<rparr>)
             else (d, w))"

text \<open>\<open>self._resolve(..).append(x)\<close>: the deque is mutated in place in the dict.\<close>

definition ow_append :: "string \<Rightarrow> int \<Rightarrow> int \<Rightarrow> outcome_window \<Rightarrow> outcome_window" where
  "ow_append sn wsize x w =
     (let (d, w') = ow_resolve sn wsize w
      in w'\<lparr>windows := dict_set sn (deque_append x d) (windows w')\<rparr>)"

definition ow_epoch_of :: "string \<Rightarrow> outcome_window \<Rightarrow> int" where
  "ow_epoch_of sn w = dict_get_or (epochs w) sn 0"

definition ow_move_epoch :: "string \<Rightarrow> outcome_window \<Rightarrow> outcome_window" where
  "ow_move_epoch sn w = w\<lparr>epochs := dict_set sn (dict_get_or (epochs w) sn 0 + 1) (epochs w)\<rparr>"

definition ow_record_success :: "string \<Rightarrow> int \<Rightarrow> outcome_window \<Rightarrow> outcome_window" where
  "ow_record_success sn wsize w = ow_append sn wsize SUCCESS_OUTCOME w"

definition ow_record_success_if_epoch ::
    "string \<Rightarrow> int \<Rightarrow> int \<Rightarrow> bool \<Rightarrow> outcome_window \<Rightarrow> bool \<times> outcome_window" where
  "ow_record_success_if_epoch sn wsize hint_epoch require_no_write w =
     (if require_no_write \<and> dict_get_or (writes_in_flight w) sn 0 \<noteq> 0 then (False, w)
      else if dict_get_or (epochs w) sn 0 \<noteq> hint_epoch then (False, w)
      else (True, ow_append sn wsize SUCCESS_OUTCOME w))"

definition ow_record_failure :: "string \<Rightarrow> int \<Rightarrow> outcome_window \<Rightarrow> outcome_window" where
  "ow_record_failure sn wsize w = ow_move_epoch sn (ow_append sn wsize FAILURE_OUTCOME w)"

definition ow_record_rejection :: "string \<Rightarrow> int \<Rightarrow> outcome_window \<Rightarrow> outcome_window" where
  "ow_record_rejection sn wsize w = ow_append sn wsize FAILURE_OUTCOME w"

definition ow_begin_write :: "string \<Rightarrow> outcome_window \<Rightarrow> outcome_window" where
  "ow_begin_write sn w =
     w\<lparr>writes_in_flight := dict_set sn (dict_get_or (writes_in_flight w) sn 0 + 1) (writes_in_flight w)\<rparr>"

definition ow_end_write :: "string \<Rightarrow> outcome_window \<Rightarrow> outcome_window" where
  "ow_end_write sn w =
     (let remaining = dict_get_or (writes_in_flight w) sn 0 - 1
      in ow_move_epoch sn
           (w\<lparr>writes_in_flight := (if remaining > 0 then dict_set sn remaining (writes_in_flight w)
                                  else dict_del sn (writes_in_flight w))\<rparr>))"

definition ow_bump :: "string \<Rightarrow> outcome_window \<Rightarrow> outcome_window" where
  "ow_bump sn w = ow_move_epoch sn w"

text \<open>\<open>window.clear()\<close> on the ring of the name, if it has one.\<close>

definition ow_clear_ring :: "string \<Rightarrow> outcome_window \<Rightarrow> outcome_window" where
  "ow_clear_ring sn w =
     (case dict_get (windows w) sn of
        None \<Rightarrow> w
      | Some d \<Rightarrow> w\<lparr>windows := dict_set sn (deque_clear d) (windows w)\<rparr>)"

definition ow_observe_state ::
    "string \<Rightarrow> cb_state \<Rightarrow> int option \<Rightarrow> outcome_window \<Rightarrow> bool \<times> outcome_window" where
  "ow_observe_state sn st as_of w =
     (if dict_get (last_seen w) sn = Some st then (False, w)
      else if as_of \<noteq> None \<and> dict_get_or (epochs w) sn 0 \<noteq> the as_of then (False, w)
      else let previous = dict_get (last_seen w) sn;
               w1 = w\<lparr>last_seen := dict_set sn st (last_seen w)\<rparr>
           in if previous = None then (False, w1)
              else let w2 = ow_move_epoch sn w1
                   in if st \<noteq> CLOSED then (False, w2)
                      else (True, ow_clear_ring sn w2))"

definition ow_clear :: "string \<Rightarrow> outcome_window \<Rightarrow> outcome_window" where
  "ow_clear sn w = ow_move_epoch sn (ow_clear_ring sn w)"

definition ow_epochs_snapshot :: "outcome_window \<Rightarrow> (string, int) dict" where
  "ow_epochs_snapshot w = epochs w"

definition ring_evidence :: "int deque \<Rightarrow> int \<times> int" where
  "ring_evidence d = (sum_list (items d), int (length (items d)))"

definition ow_read :: "string \<Rightarrow> outcome_window \<Rightarrow> int \<times> int" where
  "ow_read sn w = (case dict_get (windows w) sn of None \<Rightarrow> (0, 0) | Some d \<Rightarrow> ring_evidence d)"

fun sum_evidence :: "(int \<times> int) list \<Rightarrow> int \<times> int" where
  "sum_evidence [] = (0, 0)"
| "sum_evidence ((f, t) # es) = (let (fs, ts) = sum_evidence es in (f + fs, t + ts))"

definition ow_read_all :: "outcome_window \<Rightarrow> int \<times> int" where
  "ow_read_all w = sum_evidence (map (ring_evidence \<circ> snd) (windows w))"

definition ow_read_each :: "outcome_window \<Rightarrow> (string, int \<times> int) dict" where
  "ow_read_each w = map (\<lambda>(n, d). (n, ring_evidence d)) (windows w)"

lemmas ow_defs = ow_resolve_def ow_append_def ow_epoch_of_def ow_move_epoch_def
  ow_record_success_def ow_record_success_if_epoch_def ow_record_failure_def
  ow_record_rejection_def ow_begin_write_def ow_end_write_def ow_bump_def ow_clear_ring_def
  ow_observe_state_def ow_clear_def ow_read_def

section \<open>What a read sees after each method\<close>

definition ring_of :: "string \<Rightarrow> outcome_window \<Rightarrow> int list" where
  "ring_of sn w = (case dict_get (windows w) sn of None \<Rightarrow> [] | Some d \<Rightarrow> items d)"

lemma ow_read_ring: "ow_read sn w = (sum_list (ring_of sn w), int (length (ring_of sn w)))"
  by (simp add: ow_read_def ring_of_def ring_evidence_def split: option.splits)

definition ring_bounded :: "outcome_window \<Rightarrow> bool" where
  "ring_bounded w \<longleftrightarrow> dict_all (\<lambda>_ d. length (items d) \<le> maxlen d) (windows w)"

lemma windows_ow_append:
  "windows (ow_append sn n x w) =
     dict_set sn \<lparr>items = last_n (nat (max n 0)) (ring_of sn w @ [x]), maxlen = nat (max n 0)\<rparr> (windows w)"
proof (cases "dict_get (windows w) sn")
  case None
  then show ?thesis
    by (simp add: ow_append_def ow_resolve_def ring_of_def deque_defs Let_def last_n_def)
next
  case (Some d)
  then show ?thesis
    by (cases d)
      (auto simp: ow_append_def ow_resolve_def ring_of_def deque_defs deque_simps Let_def)
qed

lemma ring_of_append_same [simp]:
  "ring_of sn (ow_append sn n x w) = last_n (nat n) (ring_of sn w @ [x])"
  by (simp add: ring_of_def [of _ "ow_append sn n x w"] windows_ow_append dict_simps)

lemma ring_of_append_other [simp]: "sn' \<noteq> sn \<Longrightarrow> ring_of sn' (ow_append sn n x w) = ring_of sn' w"
  by (simp add: ring_of_def windows_ow_append dict_simps)

lemma ow_append_frame [simp]:
  "epochs (ow_append sn wsize x w) = epochs w"
  "writes_in_flight (ow_append sn wsize x w) = writes_in_flight w"
  "last_seen (ow_append sn wsize x w) = last_seen w"
  by (auto simp: ow_append_def ow_resolve_def Let_def split: option.splits)

lemma ow_move_epoch_frame [simp]:
  "windows (ow_move_epoch sn w) = windows w"
  "writes_in_flight (ow_move_epoch sn w) = writes_in_flight w"
  "last_seen (ow_move_epoch sn w) = last_seen w"
  by (simp_all add: ow_move_epoch_def)

lemma ow_epoch_move [simp]:
  "ow_epoch_of sn' (ow_move_epoch sn w) = ow_epoch_of sn' w + (if sn' = sn then 1 else 0)"
  by (simp add: ow_epoch_of_def ow_move_epoch_def dict_simps)

lemma ow_epoch_append [simp]: "ow_epoch_of sn' (ow_append sn wsize x w) = ow_epoch_of sn' w"
  by (simp add: ow_epoch_of_def)

lemma ow_clear_ring_frame [simp]:
  "epochs (ow_clear_ring sn w) = epochs w"
  "writes_in_flight (ow_clear_ring sn w) = writes_in_flight w"
  "last_seen (ow_clear_ring sn w) = last_seen w"
  by (simp_all add: ow_clear_ring_def split: option.splits)

lemma ow_epoch_clear_ring [simp]: "ow_epoch_of sn' (ow_clear_ring sn w) = ow_epoch_of sn' w"
  by (simp add: ow_epoch_of_def)

lemma ring_of_move_epoch [simp]: "ring_of sn' (ow_move_epoch sn w) = ring_of sn' w"
  by (simp add: ring_of_def)

lemma ring_of_clear_ring [simp]:
  "ring_of sn' (ow_clear_ring sn w) = (if sn' = sn then [] else ring_of sn' w)"
  by (auto simp: ring_of_def ow_clear_ring_def deque_defs dict_simps split: option.splits)

lemma ring_of_updates [simp]:
  "ring_of sn (w\<lparr>writes_in_flight := f\<rparr>) = ring_of sn w"
  "ring_of sn (w\<lparr>last_seen := l\<rparr>) = ring_of sn w"
  "ow_epoch_of sn (w\<lparr>writes_in_flight := f\<rparr>) = ow_epoch_of sn w"
  "ow_epoch_of sn (w\<lparr>last_seen := l\<rparr>) = ow_epoch_of sn w"
  by (simp_all add: ring_of_def ow_epoch_of_def)

lemma ring_of_empty [simp]: "ring_of sn empty_window = []"
  by (simp add: ring_of_def empty_window_def)

lemma ring_bounded_append: "ring_bounded w \<Longrightarrow> ring_bounded (ow_append sn n x w)"
  by (auto simp: ring_bounded_def windows_ow_append deque_simps intro!: dict_all_set)

lemma ring_bounded_clear_ring: "ring_bounded w \<Longrightarrow> ring_bounded (ow_clear_ring sn w)"
  by (auto simp: ring_bounded_def ow_clear_ring_def deque_defs split: option.splits)

lemma ring_bounded_updates [simp]:
  "ring_bounded (ow_move_epoch sn w) = ring_bounded w"
  "ring_bounded (w\<lparr>writes_in_flight := f\<rparr>) = ring_bounded w"
  "ring_bounded (w\<lparr>last_seen := l\<rparr>) = ring_bounded w"
  by (simp_all add: ring_bounded_def)

section \<open>Interleavings\<close>

datatype ow_op =
    Ow_Success (ow_name: string) int
  | Ow_Success_If_Epoch (ow_name: string) int int bool
  | Ow_Failure (ow_name: string) int
  | Ow_Rejection (ow_name: string) int
  | Ow_Begin_Write (ow_name: string)
  | Ow_End_Write (ow_name: string)
  | Ow_Bump (ow_name: string)
  | Ow_Observe (ow_name: string) cb_state "int option"
  | Ow_Clear (ow_name: string)

fun ow_step :: "ow_op \<Rightarrow> outcome_window \<Rightarrow> outcome_window" where
  "ow_step (Ow_Success sn n) w = ow_record_success sn n w"
| "ow_step (Ow_Success_If_Epoch sn n e b) w = snd (ow_record_success_if_epoch sn n e b w)"
| "ow_step (Ow_Failure sn n) w = ow_record_failure sn n w"
| "ow_step (Ow_Rejection sn n) w = ow_record_rejection sn n w"
| "ow_step (Ow_Begin_Write sn) w = ow_begin_write sn w"
| "ow_step (Ow_End_Write sn) w = ow_end_write sn w"
| "ow_step (Ow_Bump sn) w = ow_bump sn w"
| "ow_step (Ow_Observe sn st as_of) w = snd (ow_observe_state sn st as_of w)"
| "ow_step (Ow_Clear sn) w = ow_clear sn w"

fun ow_run :: "ow_op list \<Rightarrow> outcome_window \<Rightarrow> outcome_window" where
  "ow_run [] w = w"
| "ow_run (op # ops) w = ow_run ops (ow_step op w)"

subsection \<open>The invariant\<close>

definition outcomes_ok :: "outcome_window \<Rightarrow> bool" where
  "outcomes_ok w \<longleftrightarrow> dict_all (\<lambda>_ d. set (items d) \<subseteq> {0, 1}) (windows w)"

definition in_flight_ok :: "outcome_window \<Rightarrow> bool" where
  "in_flight_ok w \<longleftrightarrow> dict_all (\<lambda>_ n. 0 < n) (writes_in_flight w)"

definition ow_inv :: "outcome_window \<Rightarrow> bool" where
  "ow_inv w \<longleftrightarrow> ring_bounded w \<and> outcomes_ok w \<and> in_flight_ok w \<and> dict_wf (windows w)"

lemma ow_inv_empty [simp]: "ow_inv empty_window"
  by (simp add: ow_inv_def ring_bounded_def outcomes_ok_def in_flight_ok_def empty_window_def)

lemma outcomes_ok_ring: "outcomes_ok w \<Longrightarrow> set (ring_of sn w) \<subseteq> {0, 1}"
  by (auto simp: outcomes_ok_def ring_of_def dest!: dict_allD split: option.splits)

lemma outcomes_ok_append: "outcomes_ok w \<Longrightarrow> x \<in> {0, 1} \<Longrightarrow> outcomes_ok (ow_append sn n x w)"
  using outcomes_ok_ring [of w sn] set_last_n [of "nat (max n 0)" "ring_of sn w @ [x]"]
  by (auto simp: outcomes_ok_def windows_ow_append intro!: dict_all_set)

lemma ow_inv_append: "ow_inv w \<Longrightarrow> x \<in> {0, 1} \<Longrightarrow> ow_inv (ow_append sn n x w)"
  by (simp add: ow_inv_def ring_bounded_append outcomes_ok_append in_flight_ok_def windows_ow_append)

lemma ow_inv_clear_ring: "ow_inv w \<Longrightarrow> ow_inv (ow_clear_ring sn w)"
  by (auto simp: ow_inv_def ring_bounded_clear_ring in_flight_ok_def outcomes_ok_def)
    (auto simp: ow_clear_ring_def deque_defs split: option.splits intro!: dict_all_set)

lemma ow_inv_updates [simp]:
  "ow_inv (ow_move_epoch sn w) = ow_inv w"
  "ow_inv (w\<lparr>last_seen := l\<rparr>) = ow_inv w"
  by (simp_all add: ow_inv_def outcomes_ok_def in_flight_ok_def)

lemma ow_inv_begin_write: "ow_inv w \<Longrightarrow> ow_inv (ow_begin_write sn w)"
proof -
  assume "ow_inv w"
  then have "0 < dict_get_or (writes_in_flight w) sn 0 + 1"
    by (auto simp: ow_inv_def in_flight_ok_def dict_get_or_def dest: dict_allD split: option.splits)
  with \<open>ow_inv w\<close> show ?thesis
    by (auto simp: ow_inv_def ow_begin_write_def outcomes_ok_def in_flight_ok_def)
qed

lemma ow_inv_end_write: "ow_inv w \<Longrightarrow> ow_inv (ow_end_write sn w)"
  by (auto simp: ow_end_write_def Let_def)
    (auto simp: ow_inv_def outcomes_ok_def in_flight_ok_def)

lemma ow_inv_observe: "ow_inv w \<Longrightarrow> ow_inv (snd (ow_observe_state sn st as_of w))"
  by (auto simp: ow_observe_state_def Let_def ow_inv_clear_ring)

lemma ow_inv_step: "ow_inv w \<Longrightarrow> ow_inv (ow_step op w)"
  by (cases op)
    (auto simp: ow_record_success_def ow_record_success_if_epoch_def ow_record_failure_def
      ow_record_rejection_def ow_bump_def ow_clear_def SUCCESS_OUTCOME_def FAILURE_OUTCOME_def
      ow_inv_append ow_inv_clear_ring ow_inv_begin_write ow_inv_end_write ow_inv_observe)

lemma ow_inv_run: "ow_inv w \<Longrightarrow> ow_inv (ow_run ops w)"
  by (induction ops arbitrary: w) (simp_all add: ow_inv_step)

lemma ow_inv_ring: "ow_inv w \<Longrightarrow> set (ring_of sn w) \<subseteq> {0, 1}"
  by (simp add: ow_inv_def outcomes_ok_ring)

lemma outcomes_sum: "set xs \<subseteq> {0, 1::int} \<Longrightarrow> sum_list xs = int (count_list xs 1)"
  by (induction xs) auto

lemma ow_inv_read:
  assumes "ow_inv w" and "ow_read sn w = (f, t)"
  shows "0 \<le> f" and "f \<le> t"
  using outcomes_sum [OF ow_inv_ring [OF assms(1)], of sn] assms(2)
    count_le_length [of "ring_of sn w" 1]
  by (auto simp: ow_read_ring)

subsection \<open>Names are independent: a per-name specification\<close>

record name_evidence =
  ne_ring :: "int list"
  ne_epoch :: int
  ne_in_flight :: int
  ne_seen :: "cb_state option"

text \<open>The promise of the window for one name: the ring holds the last \<open>n\<close> outcomes of the current
  evidence period, and the epoch moves on a failure, the end of a failure write, a clear, a bump
  and a change of the observed state.\<close>

fun spec_step :: "name_evidence \<Rightarrow> ow_op \<Rightarrow> name_evidence" where
  "spec_step e (Ow_Success sn n) = e\<lparr>ne_ring := last_n (nat n) (ne_ring e @ [0])\<rparr>"
| "spec_step e (Ow_Success_If_Epoch sn n h b) =
     (if (b \<and> ne_in_flight e \<noteq> 0) \<or> ne_epoch e \<noteq> h then e
      else e\<lparr>ne_ring := last_n (nat n) (ne_ring e @ [0])\<rparr>)"
| "spec_step e (Ow_Failure sn n) =
     e\<lparr>ne_ring := last_n (nat n) (ne_ring e @ [1]), ne_epoch := ne_epoch e + 1\<rparr>"
| "spec_step e (Ow_Rejection sn n) = e\<lparr>ne_ring := last_n (nat n) (ne_ring e @ [1])\<rparr>"
| "spec_step e (Ow_Begin_Write sn) = e\<lparr>ne_in_flight := ne_in_flight e + 1\<rparr>"
| "spec_step e (Ow_End_Write sn) =
     e\<lparr>ne_in_flight := max 0 (ne_in_flight e - 1), ne_epoch := ne_epoch e + 1\<rparr>"
| "spec_step e (Ow_Bump sn) = e\<lparr>ne_epoch := ne_epoch e + 1\<rparr>"
| "spec_step e (Ow_Clear sn) = e\<lparr>ne_ring := [], ne_epoch := ne_epoch e + 1\<rparr>"
| "spec_step e (Ow_Observe sn st as_of) =
     (if ne_seen e = Some st \<or> (as_of \<noteq> None \<and> as_of \<noteq> Some (ne_epoch e)) then e
      else if ne_seen e = None then e\<lparr>ne_seen := Some st\<rparr>
      else e\<lparr>ne_seen := Some st, ne_epoch := ne_epoch e + 1,
             ne_ring := (if st = CLOSED then [] else ne_ring e)\<rparr>)"

definition name_view :: "string \<Rightarrow> outcome_window \<Rightarrow> name_evidence" where
  "name_view sn w = \<lparr>ne_ring = ring_of sn w, ne_epoch = ow_epoch_of sn w,
     ne_in_flight = dict_get_or (writes_in_flight w) sn 0, ne_seen = dict_get (last_seen w) sn\<rparr>"

lemma in_flight_nonneg: "ow_inv w \<Longrightarrow> 0 \<le> dict_get_or (writes_in_flight w) sn 0"
  by (auto simp: ow_inv_def in_flight_ok_def dict_get_or_def dest!: dict_allD split: option.splits)

lemmas ow_step_defs = ow_record_success_def ow_record_success_if_epoch_def ow_record_failure_def
  ow_record_rejection_def ow_begin_write_def ow_end_write_def ow_bump_def ow_clear_def

lemma name_view_observe:
  "name_view sn (snd (ow_observe_state sn st as_of w)) =
     spec_step (name_view sn w) (Ow_Observe sn st as_of)"
  by (cases as_of; cases "dict_get (last_seen w) sn")
    (simp_all add: ow_observe_state_def name_view_def Let_def ow_epoch_of_def [symmetric] dict_simps)

lemma name_view_observe_other:
  "sn' \<noteq> sn \<Longrightarrow> name_view sn' (snd (ow_observe_state sn st as_of w)) = name_view sn' w"
  by (simp add: ow_observe_state_def name_view_def Let_def dict_simps)

lemma name_view_same:
  "ow_inv w \<Longrightarrow> name_view (ow_name op) (ow_step op w) = spec_step (name_view (ow_name op) w) op"
  using in_flight_nonneg [of w "ow_name op"]
  by (cases op)
    (simp_all add: name_view_observe, simp_all add: name_view_def ow_step_defs Let_def
      ow_epoch_of_def [symmetric] SUCCESS_OUTCOME_def FAILURE_OUTCOME_def dict_simps)

lemma name_view_other: "ow_name op \<noteq> sn \<Longrightarrow> name_view sn (ow_step op w) = name_view sn w"
  by (cases op)
    (simp_all add: name_view_observe_other, simp_all add: name_view_def ow_step_defs Let_def dict_simps)

lemma name_view_step:
  "ow_inv w \<Longrightarrow> name_view sn (ow_step op w) =
     (if ow_name op = sn then spec_step (name_view sn w) op else name_view sn w)"
  using name_view_same [of w op] name_view_other [of op sn w] by auto

lemma name_view_run:
  "ow_inv w \<Longrightarrow> name_view sn (ow_run ops w) =
     foldl spec_step (name_view sn w) (filter (\<lambda>op. ow_name op = sn) ops)"
  by (induction ops arbitrary: w) (simp_all add: name_view_step ow_inv_step)

subsection \<open>Evidence windows as an interface\<close>

text \<open>One call outcome, as the service records it for a CLOSED breaker.\<close>

definition record_outcome :: "string \<Rightarrow> int \<Rightarrow> bool \<Rightarrow> outcome_window \<Rightarrow> outcome_window" where
  "record_outcome sn n failed w =
     (if failed then ow_record_failure sn n w else ow_record_success sn n w)"

text \<open>What the trip decision relies on: a window keeps the codes of the last \<open>cap\<close> outcomes pushed
  since it was reset.\<close>

locale evidence_window =
  fixes evid :: "'w \<Rightarrow> int list"
    and push :: "'a \<Rightarrow> 'w \<Rightarrow> 'w"
    and code_of :: "'a \<Rightarrow> int"
    and reset :: "'w \<Rightarrow> 'w"
    and cap :: nat
  assumes evid_push: "evid (push x w) = last_n cap (evid w @ [code_of x])"
    and evid_reset: "evid (reset w) = []"
begin

lemma evid_pushes: "xs \<noteq> [] \<Longrightarrow> evid (fold push xs w) = last_n cap (evid w @ map code_of xs)"
proof (induction xs rule: rev_induct)
  case (snoc x xs)
  then show ?case
    using last_n_append_last_n [of cap "evid w @ map code_of xs" "[code_of x]"]
    by (cases "xs = []") (simp_all add: evid_push)
qed simp

lemma evid_period: "evid (fold push xs (reset w)) = last_n cap (map code_of xs)"
  by (cases "xs = []") (simp_all add: evid_pushes evid_reset last_n_def)

end

interpretation ring: evidence_window "ring_of sn" "record_outcome sn n" of_bool "ow_clear sn" "nat n" for sn n
  by unfold_locales
    (simp_all add: ow_clear_def record_outcome_def ow_record_failure_def ow_record_success_def
      FAILURE_OUTCOME_def SUCCESS_OUTCOME_def)

lemma sum_of_bool: "sum_list (map of_bool fs) = int (length (filter id fs))"
  by (induction fs) auto

section \<open>Properties\<close>

text \<open>The rate evidence is that of the most recent calls: after a clear, recording any sequence
  of call outcomes makes \<open>read\<close> return the number of failures among the last \<open>n\<close> of them and the
  number of those calls, \<open>n\<close> being the configured window size.\<close>

theorem window_reads_recent_outcomes:
  "ow_read sn (fold (record_outcome sn n) fs (ow_clear sn w)) =
     (int (length (filter id (last_n (nat n) fs))), int (min (nat n) (length fs)))"
proof -
  have "ring_of sn (fold (record_outcome sn n) fs (ow_clear sn w)) = last_n (nat n) (map of_bool fs)"
    by (rule ring.evid_period)
  also have "\<dots> = map of_bool (last_n (nat n) fs)" by (simp add: last_n_def drop_map)
  finally show ?thesis by (simp add: ow_read_ring sum_of_bool deque_simps)
qed

text \<open>(C33) The window implements its per-name specification: whatever the interleaving of methods
  for any names, what it holds for one name is what the specification computes from that name's
  own methods, in order.\<close>

theorem window_refines_spec:
  "name_view sn (ow_run ops empty_window) =
     foldl spec_step \<lparr>ne_ring = [], ne_epoch = 0, ne_in_flight = 0, ne_seen = None\<rparr>
       (filter (\<lambda>op. ow_name op = sn) ops)"
proof -
  have "name_view sn empty_window = \<lparr>ne_ring = [], ne_epoch = 0, ne_in_flight = 0, ne_seen = None\<rparr>"
    by (simp add: name_view_def empty_window_def ring_of_def ow_epoch_of_def dict_simps)
  then show ?thesis using name_view_run [of empty_window sn ops] by simp
qed

text \<open>After any interleaving, every ring is within its bound and holds only failures and
  successes, in-flight markers are positive, and a reading is a pair of a part and its whole, so
  that the failure rate computed from it lies between 0 and 100.\<close>

theorem window_run_invariant:
  "ow_inv (ow_run ops empty_window) \<and>
   (let (f, t) = ow_read sn (ow_run ops empty_window)
    in 0 \<le> f \<and> f \<le> t \<and> (t = 0 \<or> 0 \<le> failure_rate f t \<and> failure_rate f t \<le> 100))"
proof -
  obtain f t where r: "ow_read sn (ow_run ops empty_window) = (f, t)" by (cases "ow_read sn (ow_run ops empty_window)")
  have inv: "ow_inv (ow_run ops empty_window)" by (simp add: ow_inv_run)
  from ow_inv_read [OF inv r] failure_rate_bounds [of f t] show ?thesis
    by (auto simp: inv r)
qed

text \<open>An observation clears the ring exactly when the name was last seen in another state, is
  now seen CLOSED, and the row reported is not older than the window's epoch; then nothing is left
  to read, and otherwise the ring is untouched.\<close>

theorem observe_clears_on_reentry:
  "let (cleared, w') = ow_observe_state sn st as_of w
   in (cleared \<longleftrightarrow> st = CLOSED \<and> dict_get (last_seen w) sn \<notin> {None, Some CLOSED}
                   \<and> as_of \<in> {None, Some (ow_epoch_of sn w)})
      \<and> (if cleared then ow_read sn w' = (0, 0) else ring_of sn w' = ring_of sn w)"
  by (cases as_of) (auto simp: ow_observe_state_def Let_def ow_read_ring ow_epoch_of_def [symmetric])

subsection \<open>The read-free append\<close>

text \<open>The methods that say something happened to a name.\<close>

fun touches :: "ow_op \<Rightarrow> bool" where
  "touches (Ow_Failure sn n) = True"
| "touches (Ow_Begin_Write sn) = True"
| "touches (Ow_End_Write sn) = True"
| "touches (Ow_Bump sn) = True"
| "touches (Ow_Clear sn) = True"
| "touches _ = False"

lemma spec_epoch_mono: "ne_epoch e \<le> ne_epoch (spec_step e op)"
  by (cases op) auto

lemma spec_epoch_mono_run: "ne_epoch e \<le> ne_epoch (foldl spec_step e ops)"
proof (induction ops arbitrary: e)
  case (Cons op ops)
  show ?case using spec_epoch_mono [of e op] Cons.IH [of "spec_step e op"] by simp
qed simp

lemma spec_in_flight_mono:
  "ne_epoch (spec_step e op) = ne_epoch e \<Longrightarrow> ne_in_flight e \<le> ne_in_flight (spec_step e op)"
  by (cases op) auto

lemma spec_run_in_flight_mono:
  "ne_epoch (foldl spec_step e ops) = ne_epoch e \<Longrightarrow> ne_in_flight e \<le> ne_in_flight (foldl spec_step e ops)"
proof (induction ops arbitrary: e)
  case (Cons op ops)
  have "ne_epoch (spec_step e op) = ne_epoch e"
    using Cons.prems spec_epoch_mono [of e op] spec_epoch_mono_run [of "spec_step e op" ops] by simp
  then show ?case
    using Cons.IH [of "spec_step e op"] Cons.prems spec_in_flight_mono [of e op] by simp
qed simp

lemma spec_step_quiet:
  assumes "ne_epoch (spec_step e op) = ne_epoch e"
    and "ne_in_flight (spec_step e op) \<le> ne_in_flight e"
  shows "\<not> touches op" and "ne_seen e = Some st \<Longrightarrow> ne_seen (spec_step e op) = Some st"
  using assms by (cases op; auto split: if_splits)+

lemma spec_run_quiet:
  assumes "ne_epoch (foldl spec_step e ops) = ne_epoch e"
    and "ne_in_flight (foldl spec_step e ops) \<le> ne_in_flight e"
    and "ne_seen e = Some st"
  shows "(\<forall>op\<in>set ops. \<not> touches op) \<and> ne_seen (foldl spec_step e ops) = Some st"
  using assms
proof (induction ops arbitrary: e)
  case (Cons op ops)
  let ?e = "spec_step e op"
  have ep: "ne_epoch ?e = ne_epoch e" and run: "ne_epoch (foldl spec_step ?e ops) = ne_epoch ?e"
    using Cons.prems(1) spec_epoch_mono [of e op] spec_epoch_mono_run [of ?e ops] by auto
  from spec_run_in_flight_mono [OF run] Cons.prems(2)
  have fl: "ne_in_flight ?e \<le> ne_in_flight e" by simp
  note quiet = spec_step_quiet [OF ep fl]
  have "ne_in_flight (foldl spec_step ?e ops) \<le> ne_in_flight ?e"
    using Cons.prems(2) spec_in_flight_mono [OF ep] by simp
  with Cons.IH [OF run] quiet Cons.prems(3) show ?case by simp
qed simp

text \<open>The read-free success path never appends across an event.  If a success is appended
  against the epoch its admission saw, then, whatever other threads did to the window in between,
  no failure was recorded or being written for the name, no write ended, nothing was cleared or
  bumped, and the name is still last seen in the state the admission saw.\<close>

theorem fast_append_only_if_untouched:
  assumes "ow_inv w" and "dict_get (last_seen w) sn = Some st"
    and "fst (ow_record_success_if_epoch sn n (ow_epoch_of sn w) True (ow_run ops w))"
  shows "(\<forall>op\<in>set ops. ow_name op = sn \<longrightarrow> \<not> touches op)
     \<and> dict_get (last_seen (ow_run ops w)) sn = Some st"
proof -
  let ?e = "name_view sn w" and ?ops = "filter (\<lambda>op. ow_name op = sn) ops"
  have v: "name_view sn (ow_run ops w) = foldl spec_step ?e ?ops" by (rule name_view_run [OF assms(1)])
  from assms(3) have "ow_epoch_of sn (ow_run ops w) = ow_epoch_of sn w"
    and "dict_get_or (writes_in_flight (ow_run ops w)) sn 0 = 0"
    by (auto simp: ow_record_success_if_epoch_def ow_epoch_of_def split: if_splits)
  then have "ne_epoch (foldl spec_step ?e ?ops) = ne_epoch ?e"
    and "ne_in_flight (foldl spec_step ?e ?ops) \<le> ne_in_flight ?e"
    using in_flight_nonneg [OF assms(1), of sn] by (simp_all add: v [symmetric], simp_all add: name_view_def)
  moreover have "ne_seen ?e = Some st" using assms(2) by (simp add: name_view_def)
  ultimately have "(\<forall>op\<in>set ?ops. \<not> touches op) \<and> ne_seen (name_view sn (ow_run ops w)) = Some st"
    using spec_run_quiet v by metis
  then show ?thesis by (auto simp: name_view_def)
qed

theorem fast_append_only_if_untouched_witness:
  "fst (ow_record_success_if_epoch ''a'' 100 0 True
      (ow_run [Ow_Success ''a'' 100, Ow_Failure ''b'' 100]
        (snd (ow_observe_state ''a'' CLOSED (Some 0) empty_window))))
   \<and> dict_get (last_seen (ow_run [Ow_Success ''a'' 100, Ow_Failure ''b'' 100]
        (snd (ow_observe_state ''a'' CLOSED (Some 0) empty_window)))) ''a'' = Some CLOSED"
proof -
  let ?w = "snd (ow_observe_state ''a'' CLOSED (Some 0) empty_window)"
  have inv: "ow_inv ?w" by (simp add: ow_inv_observe)
  have seen: "dict_get (last_seen ?w) ''a'' = Some CLOSED" and ep: "ow_epoch_of ''a'' ?w = 0" by code_simp+
  have app: "fst (ow_record_success_if_epoch ''a'' 100 (ow_epoch_of ''a'' ?w) True
      (ow_run [Ow_Success ''a'' 100, Ow_Failure ''b'' 100] ?w))" by code_simp
  from fast_append_only_if_untouched [OF inv seen app] app show ?thesis by (simp only: ep)
qed

end
