(* ===== verification/CB_Freeze.thy ===== *)
theory CB_Freeze
  imports CB_Types
begin

text \<open>
  Freeze mode (\<open>services/circuit_breaker/freeze_mode.py\<close>): a derived view of the emergency level
  (\<open>models/emergency.py\<close>).  The emergency manager is a provider outside this program; what it
  answers when asked for its level is a value of \<open>emergency_answer\<close>, an argument of every
  definition here.
\<close>

section \<open>Emergency levels\<close>

datatype emergency_level = NORMAL | LEVEL_1 | LEVEL_2 | LEVEL_3

fun severity :: "emergency_level \<Rightarrow> int" where
  "severity NORMAL = 0"
| "severity LEVEL_1 = 1"
| "severity LEVEL_2 = 2"
| "severity LEVEL_3 = 3"

lemma severity_inject: "severity a = severity b \<Longrightarrow> a = b"
  by (cases a; cases b) simp_all

text \<open>The comparison methods of the enum.\<close>

instantiation emergency_level :: linorder
begin

definition less_eq_emergency_level :: "emergency_level \<Rightarrow> emergency_level \<Rightarrow> bool" where
  "a \<le> b \<longleftrightarrow> severity a \<le> severity b"

definition less_emergency_level :: "emergency_level \<Rightarrow> emergency_level \<Rightarrow> bool" where
  "a < b \<longleftrightarrow> severity a < severity b"

instance
  by standard (auto simp: less_eq_emergency_level_def less_emergency_level_def dest: severity_inject)

end

text \<open>\<open>from_severity\<close>: \<open>None\<close> is the \<open>ValueError\<close>.\<close>

definition from_severity :: "int \<Rightarrow> emergency_level option" where
  "from_severity n = find (\<lambda>l. severity l = n) [NORMAL, LEVEL_1, LEVEL_2, LEVEL_3]"

lemma from_severity_severity: "from_severity (severity l) = Some l"
  by (cases l) (simp_all add: from_severity_def)

section \<open>The gate\<close>

datatype emergency_answer =
    No_Emergency_Manager
  | Level_Is emergency_level
  | Level_Not_Ordered
  | Level_Raises

definition FREEZE_LEVEL :: emergency_level where
  "FREEZE_LEVEL = LEVEL_3"

fun is_lockdown :: "emergency_answer \<Rightarrow> bool" where
  "is_lockdown No_Emergency_Manager = False"
| "is_lockdown Level_Raises = False"
| "is_lockdown Level_Not_Ordered = False"
| "is_lockdown (Level_Is l) = (l \<ge> FREEZE_LEVEL)"

record freeze_state =
  fz_active :: bool
  fz_activated_at :: "string option"
  fz_reason :: string
  fz_activated_by :: string

definition LOCKDOWN_ENTRY :: string where
  "LOCKDOWN_ENTRY = ''Freeze Mode activated due to LOCKDOWN entry''"

text \<open>\<open>get_state\<close>: the activation time is read from the emergency state, if it has one.\<close>

definition get_freeze_state :: "emergency_answer \<Rightarrow> string option \<Rightarrow> freeze_state" where
  "get_freeze_state em activated =
     (if \<not> is_lockdown em
      then \<lparr>fz_active = False, fz_activated_at = None, fz_reason = [], fz_activated_by = []\<rparr>
      else \<lparr>fz_active = True, fz_activated_at = activated, fz_reason = LOCKDOWN_ENTRY,
            fz_activated_by = ''system''\<rparr>)"

fun state_value :: "cb_state \<Rightarrow> string" where
  "state_value CLOSED = ''closed''"
| "state_value OPEN = ''open''"
| "state_value HALF_OPEN = ''half_open''"
| "state_value PINNED_TOKEN = ''pinned''"

definition should_allow_state_change :: "emergency_answer \<Rightarrow> string \<Rightarrow> cb_state \<Rightarrow> bool \<times> string" where
  "should_allow_state_change em sid new_state =
     (if \<not> is_lockdown em then (True, [])
      else (False, ''LOCKDOWN: Freeze Mode active - automatic state change to '' @ state_value new_state
                   @ '' blocked for '' @ sid @ ''. Use manual override.''))"

definition should_allow_cb_state_change :: "emergency_answer \<Rightarrow> string \<Rightarrow> cb_state \<Rightarrow> bool" where
  "should_allow_cb_state_change em sid new_state = fst (should_allow_state_change em sid new_state)"

lemma should_allow_iff [simp]: "should_allow_cb_state_change em sid st \<longleftrightarrow> \<not> is_lockdown em"
  by (simp add: should_allow_cb_state_change_def should_allow_state_change_def)

lemma lockdown_iff: "is_lockdown em \<longleftrightarrow> em = Level_Is LEVEL_3"
proof (cases em)
  case (Level_Is l)
  then show ?thesis by (cases l) (simp_all add: FREEZE_LEVEL_def less_eq_emergency_level_def)
qed simp_all

end
