(* ===== verification/CB_Service.thy ===== *)
theory CB_Service
  imports CB_Repo_Contract Outcome_Window CB_Freeze "HOL-Library.List_Lexorder" "HOL-Library.Char_ord"
begin

text \<open>
  The circuit breaker service (\<open>services/circuit_breaker/service.py\<close>): admission, recording, the
  trip, the recovery sweep and the aggregate evidence.  One definition per method, each over the
  service's state: its configuration, the in-memory repository, the outcome window, the downstream
  checkers and threshold overrides of the mesh coordinator, and what the methods send out (events,
  audit entries, counters) as lists in the order of sending.

  What a method reads from outside is an \<open>env\<close>: the clock, the emergency manager's answer and the
  kill switch (\<open>None\<close> when its manager raises).
  Log lines carry no state and are left out.
\<close>

section \<open>State\<close>

record env =
  at_time :: instant
  emergency :: emergency_answer
  system_enabled :: "bool option"

record threshold_override =
  adjusted_failure_threshold :: int
  adjusted_recovery_timeout :: int
  expires_at :: instant

datatype event_type = CIRCUIT_BREAKER_OPENED | CIRCUIT_BREAKER_HALF_OPENED | CIRCUIT_BREAKER_CLOSED

record cb_event =
  ev_type :: event_type
  ev_service :: string
  ev_previous_state :: cb_state
  ev_timestamp :: instant
  ev_trigger :: string
  ev_counts :: "(int \<times> int \<times> int) option"
  ev_trigger_replay :: "bool option"

text \<open>The audit reason as the data its text is formatted from; \<open>None\<close> is the text's \<open>N/A\<close>.\<close>

datatype audit_reason =
    Recovery_Timeout_Elapsed int
  | Half_Open_Test_Failure
  | Success_Threshold_Reached int
  | Auto_Trigger "int option" "int option"
  | Cascade_Trigger "int option" "int option" "rat option"
  | Operator_Action string string

record audit_entry =
  au_name :: string
  au_old :: cb_state
  au_new :: cb_state
  au_reason :: audit_reason

datatype blocked_reason = BLOCKED_OPEN | BLOCKED_FROZEN | BLOCKED_HALF_OPEN_FULL

record svc =
  pinned_config :: "cb_config option"
  shared_config :: cb_config
  repository :: mem_repo
  outcomes :: outcome_window
  downstream_checkers :: "(string \<Rightarrow> bool option) list"
  threshold_overrides :: "(string, threshold_override) dict"
  bus :: "cb_event list"
  audit_log :: "audit_entry list"
  blocked_requests :: "(string \<times> blocked_reason) list"
  state_metrics :: "(string \<times> cb_state \<times> cb_state) list"
  budget_charges :: "(string \<times> rat \<times> rat) list"
  kill_switch_overrides :: "(string \<times> string \<times> string) list"
  replay_dispatches :: "string list"

definition new_service :: "cb_config option \<Rightarrow> cb_config \<Rightarrow> svc" where
  "new_service pinned shared = \<lparr>pinned_config = pinned, shared_config = shared,
     repository = empty_repo, outcomes = empty_window, downstream_checkers = [],
     threshold_overrides = [], bus = [], audit_log = [], blocked_requests = [],
     state_metrics = [], budget_charges = [], kill_switch_overrides = [], replay_dispatches = []\<rparr>"

text \<open>Running a method of the repository or of the window.\<close>

definition on_repo :: "(mem_repo \<Rightarrow> 'a \<times> mem_repo) \<Rightarrow> svc \<Rightarrow> 'a \<times> svc" where
  "on_repo f s = (let (x, R) = f (repository s) in (x, s\<lparr>repository := R\<rparr>))"

definition on_window :: "(outcome_window \<Rightarrow> outcome_window) \<Rightarrow> svc \<Rightarrow> svc" where
  "on_window f s = s\<lparr>outcomes := f (outcomes s)\<rparr>"

definition observe :: "string \<Rightarrow> cb_state \<Rightarrow> int option \<Rightarrow> svc \<Rightarrow> svc" where
  "observe sn st as_of = on_window (\<lambda>w. snd (ow_observe_state sn st as_of w))"

definition emit_event :: "cb_event \<Rightarrow> svc \<Rightarrow> svc" where
  "emit_event e s = s\<lparr>bus := bus s @ [e]\<rparr>"

definition log_audit :: "string \<Rightarrow> cb_state \<Rightarrow> cb_state \<Rightarrow> audit_reason \<Rightarrow> svc \<Rightarrow> svc" where
  "log_audit sn old new why s =
     s\<lparr>audit_log := audit_log s @ [\<lparr>au_name = sn, au_old = old, au_new = new, au_reason = why\<rparr>]\<rparr>"

definition record_blocked :: "string \<Rightarrow> blocked_reason \<Rightarrow> svc \<Rightarrow> svc" where
  "record_blocked sn why s = s\<lparr>blocked_requests := blocked_requests s @ [(sn, why)]\<rparr>"

definition on_state_changed :: "string \<Rightarrow> cb_state \<Rightarrow> cb_state \<Rightarrow> svc \<Rightarrow> svc" where
  "on_state_changed sn old new s = s\<lparr>state_metrics := state_metrics s @ [(sn, old, new)]\<rparr>"

section \<open>Configuration\<close>

definition svc_config :: "svc \<Rightarrow> cb_config" where
  "svc_config s = (case pinned_config s of Some c \<Rightarrow> c | None \<Rightarrow> shared_config s)"

definition svc_set_config :: "cb_config \<Rightarrow> svc \<Rightarrow> svc" where
  "svc_set_config c s = s\<lparr>pinned_config := Some c\<rparr>"

definition svc_is_enabled :: "svc \<Rightarrow> bool" where
  "svc_is_enabled s = enabled (svc_config s)"

definition svc_register_downstream_checker :: "(string \<Rightarrow> bool option) \<Rightarrow> svc \<Rightarrow> svc" where
  "svc_register_downstream_checker c s = s\<lparr>downstream_checkers := downstream_checkers s @ [c]\<rparr>"

definition svc_apply_threshold_override :: "string \<Rightarrow> threshold_override \<Rightarrow> svc \<Rightarrow> svc" where
  "svc_apply_threshold_override sn ov s =
     s\<lparr>threshold_overrides := dict_set sn ov (threshold_overrides s)\<rparr>"

definition svc_remove_threshold_override :: "string \<Rightarrow> svc \<Rightarrow> svc" where
  "svc_remove_threshold_override sn s =
     s\<lparr>threshold_overrides := dict_del sn (threshold_overrides s)\<rparr>"

definition svc_get_effective_config :: "env \<Rightarrow> string \<Rightarrow> svc \<Rightarrow> cb_config \<times> svc" where
  "svc_get_effective_config E sn s =
     (case dict_get (threshold_overrides s) sn of
        None \<Rightarrow> (svc_config s, s)
      | Some ov \<Rightarrow>
          if at_time E > expires_at ov
          then (svc_config s, s\<lparr>threshold_overrides := dict_del sn (threshold_overrides s)\<rparr>)
          else ((svc_config s)\<lparr>failure_threshold := adjusted_failure_threshold ov,
                               recovery_timeout := adjusted_recovery_timeout ov\<rparr>, s))"

section \<open>State queries\<close>

definition svc_get_or_create_state :: "env \<Rightarrow> string \<Rightarrow> svc \<Rightarrow> cb_row \<times> svc" where
  "svc_get_or_create_state E sn = on_repo (repo_get_or_create (at_time E) sn)"

definition svc_get_state :: "env \<Rightarrow> string \<Rightarrow> svc \<Rightarrow> cb_state \<times> svc" where
  "svc_get_state E sn s = (let (r, s') = svc_get_or_create_state E sn s in (state r, s'))"

definition svc_get_total_calls :: "env \<Rightarrow> string \<Rightarrow> svc \<Rightarrow> int \<times> svc" where
  "svc_get_total_calls E sn s =
     (let (r, s') = svc_get_or_create_state E sn s in (failure_count r + success_count r, s'))"

definition svc_get_open_states :: "int option \<Rightarrow> svc \<Rightarrow> cb_row list" where
  "svc_get_open_states limit s = repo_get_open_states limit (repository s)"

definition svc_get_window_evidence :: "string \<Rightarrow> svc \<Rightarrow> int \<times> int" where
  "svc_get_window_evidence sn s = ow_read sn (outcomes s)"

section \<open>Admission\<close>

text \<open>\<open>_auto_transition_allowed\<close>: the gate's own failures already answer "allowed".\<close>

definition svc_auto_transition_allowed :: "env \<Rightarrow> string \<Rightarrow> cb_state \<Rightarrow> bool" where
  "svc_auto_transition_allowed E sn st = should_allow_cb_state_change (emergency E) sn st"

definition svc_admission_refusal_reason ::
    "env \<Rightarrow> string \<Rightarrow> cb_row \<Rightarrow> cb_config \<Rightarrow> blocked_reason option" where
  "svc_admission_refusal_reason E sn r cfg =
     (if state r = OPEN \<and> is_operator_block_in_force (at_time E) r then Some BLOCKED_OPEN
      else if state r = OPEN \<and> \<not> is_pin_lift_due (at_time E) r
              \<and> (case opened_at r of
                   None \<Rightarrow> True
                 | Some t \<Rightarrow> at_time E - t < seconds (recovery_timeout cfg))
      then Some BLOCKED_OPEN
      else if \<not> svc_auto_transition_allowed E sn HALF_OPEN then Some BLOCKED_FROZEN
      else None)"

definition svc_record_rejection :: "env \<Rightarrow> string \<Rightarrow> cb_row \<Rightarrow> svc \<Rightarrow> svc" where
  "svc_record_rejection E sn r s =
     (if is_manual_pin_active (at_time E) r then s
      else let (cfg, s') = svc_get_effective_config E sn s
           in on_window (ow_record_rejection sn (sliding_window_size cfg)) s')"

record decision =
  allowed :: bool
  dec_state :: cb_row
  window_epoch :: int

definition svc_half_opened_event :: "env \<Rightarrow> string \<Rightarrow> cb_event" where
  "svc_half_opened_event E sn = \<lparr>ev_type = CIRCUIT_BREAKER_HALF_OPENED, ev_service = sn,
     ev_previous_state = OPEN, ev_timestamp = at_time E, ev_trigger = ''auto'',
     ev_counts = None, ev_trigger_replay = None\<rparr>"

text \<open>The part of the admission that follows a passed refusal gate: the atomic trial acquire.\<close>

definition svc_trial_admission :: "env \<Rightarrow> string \<Rightarrow> cb_config \<Rightarrow> cb_row \<Rightarrow> svc \<Rightarrow> decision \<times> svc" where
  "svc_trial_admission E sn cfg r s =
     (let ((ok, prev, new), s1) =
            on_repo (repo_try_acquire_half_open_slot (at_time E) sn (half_open_max_calls cfg)
                       (half_open_stuck_timeout_seconds cfg)) s;
          s2 = (if prev = OPEN \<and> new = HALF_OPEN
                then emit_event (svc_half_opened_event E sn)
                       (log_audit sn OPEN HALF_OPEN (Recovery_Timeout_Elapsed (recovery_timeout cfg)) s1)
                else s1);
          s3 = (if \<not> ok
                then record_blocked sn (if new = HALF_OPEN then BLOCKED_HALF_OPEN_FULL else BLOCKED_OPEN) s2
                else s2);
          r' = (if state r \<noteq> new then r\<lparr>state := new\<rparr> else r);
          s4 = observe sn (state r') None s3;
          s5 = (if \<not> ok \<and> state r' \<noteq> CLOSED then svc_record_rejection E sn r' s4 else s4)
      in (\<lparr>allowed = ok, dec_state = r', window_epoch = 0\<rparr>, s5))"

definition svc_evaluate_admission :: "env \<Rightarrow> string \<Rightarrow> cb_config \<Rightarrow> svc \<Rightarrow> decision \<times> svc" where
  "svc_evaluate_admission E sn cfg s =
     (if list_ex (\<lambda>checker. checker sn = Some False) (downstream_checkers s)
      then let (r, s1) = svc_get_or_create_state E sn s
           in (\<lparr>allowed = False, dec_state = r, window_epoch = 0\<rparr>, s1)
      else
        let epoch = ow_epoch_of sn (outcomes s);
            (r, s1) = svc_get_or_create_state E sn s;
            s2 = observe sn (state r) (Some epoch) s1
        in if state r = CLOSED
           then (\<lparr>allowed = True, dec_state = r, window_epoch = epoch\<rparr>, s2)
           else case svc_admission_refusal_reason E sn r cfg of
                  Some why \<Rightarrow>
                    (\<lparr>allowed = False, dec_state = r, window_epoch = 0\<rparr>,
                     svc_record_rejection E sn r (record_blocked sn why s2))
                | None \<Rightarrow> svc_trial_admission E sn cfg r s2)"

definition svc_should_allow :: "env \<Rightarrow> string \<Rightarrow> svc \<Rightarrow> bool \<times> svc" where
  "svc_should_allow E sn s =
     (if \<not> svc_is_enabled s then (True, s)
      else let (cfg, s1) = svc_get_effective_config E sn s;
               (d, s2) = svc_evaluate_admission E sn cfg s1
           in (allowed d, s2))"

definition svc_should_allow_with_state :: "env \<Rightarrow> string \<Rightarrow> svc \<Rightarrow> decision \<times> svc" where
  "svc_should_allow_with_state E sn s =
     (if \<not> svc_is_enabled s
      then let (r, s1) = svc_get_or_create_state E sn s
           in (\<lparr>allowed = True, dec_state = r, window_epoch = 0\<rparr>, s1)
      else let (cfg, s1) = svc_get_effective_config E sn s
           in svc_evaluate_admission E sn cfg s1)"

definition svc_refuses_calls :: "env \<Rightarrow> cb_row \<Rightarrow> svc \<Rightarrow> bool \<times> svc" where
  "svc_refuses_calls E r s =
     (if state r = CLOSED then (False, s)
      else let (cfg, s1) = svc_get_effective_config E (service_name r) s
           in (svc_admission_refusal_reason E (service_name r) r cfg \<noteq> None, s1))"

section \<open>Fallback decisions\<close>

text \<open>The cache lookup and the DLQ hand-over are calls to other services: what they answer is given.\<close>

record 'd fallback_result =
  fr_allowed :: bool
  fallback_used :: bool
  fallback_type :: string
  fallback_data :: "'d option"

definition fr_allow :: "'d fallback_result" where
  "fr_allow = \<lparr>fr_allowed = True, fallback_used = False, fallback_type = [], fallback_data = None\<rparr>"

definition fr_block :: "'d fallback_result" where
  "fr_block = \<lparr>fr_allowed = False, fallback_used = False, fallback_type = [], fallback_data = None\<rparr>"

definition fr_from_cache :: "'d \<Rightarrow> 'd fallback_result" where
  "fr_from_cache d = \<lparr>fr_allowed = False, fallback_used = True, fallback_type = ''cache'', fallback_data = Some d\<rparr>"

definition fr_to_dlq :: "'d fallback_result" where
  "fr_to_dlq = \<lparr>fr_allowed = False, fallback_used = True, fallback_type = ''dlq'', fallback_data = None\<rparr>"

definition fr_default_response :: "'d \<Rightarrow> 'd fallback_result" where
  "fr_default_response d =
     \<lparr>fr_allowed = False, fallback_used = True, fallback_type = ''default'', fallback_data = Some d\<rparr>"

definition svc_should_allow_with_fallback ::
    "env \<Rightarrow> string \<Rightarrow> (string \<Rightarrow> 'd option) \<Rightarrow> ((string, string) dict \<Rightarrow> bool) \<Rightarrow> string option \<Rightarrow> 'd option
       \<Rightarrow> (string, string) dict option \<Rightarrow> svc \<Rightarrow> 'd fallback_result \<times> svc" where
  "svc_should_allow_with_fallback E sn get_cached enqueue cache_key default_response request_data s =
     (if \<not> svc_is_enabled s then (fr_allow, s)
      else let (r, s1) = svc_get_or_create_state E sn s; strategy = fallback_strategy (svc_config s1)
           in (if state r = CLOSED then fr_allow
               else if state r = HALF_OPEN then fr_allow
               else case (if strategy = ''cache'' then
                            (case cache_key of None \<Rightarrow> None | Some k \<Rightarrow> if k = [] then None else get_cached k)
                          else None) of
                      Some d \<Rightarrow> fr_from_cache d
                    | None \<Rightarrow>
                        if strategy = ''dlq'' \<and> (case request_data of None \<Rightarrow> False | Some q \<Rightarrow> q \<noteq> [] \<and> enqueue q)
                        then fr_to_dlq
                        else if strategy = ''default_response''
                        then (case default_response of Some d \<Rightarrow> fr_default_response d | None \<Rightarrow> fr_block)
                        else fr_block,
               s1))"

section \<open>Aggregate evidence\<close>

record aggregate_evidence =
  ag_failures :: int
  ag_total_calls :: int
  ag_open_circuits :: int
  ag_fleet_read :: bool
  ag_tripped_failures :: int
  ag_tripped_calls :: int
  ag_tripped_names :: "string list"

definition ag_rate :: "aggregate_evidence \<Rightarrow> rat" where
  "ag_rate a = (if ag_total_calls a = 0 then 0 else fdiv (ag_failures a) (ag_total_calls a))"

definition ag_measurable_calls :: "aggregate_evidence \<Rightarrow> int" where
  "ag_measurable_calls a = ag_total_calls a - ag_tripped_calls a"

definition ag_measurable_rate :: "aggregate_evidence \<Rightarrow> rat option" where
  "ag_measurable_rate a =
     (if ag_measurable_calls a = 0 then None
      else Some (fdiv (ag_failures a - ag_tripped_failures a) (ag_measurable_calls a)))"

definition svc_tripped_row :: "instant \<Rightarrow> cb_row option \<Rightarrow> cb_row option \<Rightarrow> cb_row option" where
  "svc_tripped_row now local_row cluster_row =
     (let rows = List.map_filter (\<lambda>r. r) [local_row, cluster_row]
      in if list_ex (is_manual_pin_active now) rows then None
         else find (\<lambda>r. state r \<in> set non_closed_states) rows)"

definition svc_held_on_own_row :: "instant \<Rightarrow> cb_row option \<Rightarrow> bool" where
  "svc_held_on_own_row now local_row =
     (case local_row of None \<Rightarrow> False
      | Some r \<Rightarrow> state r \<in> set non_closed_states \<and> \<not> is_manual_pin_active now r)"

text \<open>What one name adds: its window, lifted to the floor when the name is tripped.\<close>

definition svc_name_evidence ::
    "env \<Rightarrow> string \<Rightarrow> int \<times> int \<Rightarrow> cb_row option \<Rightarrow> cb_row option \<Rightarrow> svc
       \<Rightarrow> (int \<times> int \<times> bool \<times> bool) \<times> svc" where
  "svc_name_evidence E sn wins local_row cluster_row s =
     (let (wfail, wcalls) = wins
      in case svc_tripped_row (at_time E) local_row cluster_row of
           None \<Rightarrow> ((wfail, wcalls, False, svc_held_on_own_row (at_time E) local_row), s)
         | Some tr \<Rightarrow>
             let (cfg, s') = svc_get_effective_config E sn s;
                 floor = max (failure_count tr) (failure_threshold cfg);
                 lifted = max wfail floor
             in ((lifted, wcalls + (lifted - wfail), True, True), s'))"

fun svc_sum_names ::
    "env \<Rightarrow> (string, int \<times> int) dict \<Rightarrow> (string, cb_row) dict \<Rightarrow> (string, cb_row) dict \<Rightarrow> string list
       \<Rightarrow> aggregate_evidence \<times> svc \<Rightarrow> aggregate_evidence \<times> svc" where
  "svc_sum_names E per_name local_rows cluster_rows [] (a, s) = (a, s)"
| "svc_sum_names E per_name local_rows cluster_rows (sn # sns) (a, s) =
     (let ((wfail, wcalls, is_open, tripped), s') =
            svc_name_evidence E sn (dict_get_or per_name sn (0, 0)) (dict_get local_rows sn)
              (dict_get cluster_rows sn) s;
          a1 = (if is_open then a\<lparr>ag_open_circuits := ag_open_circuits a + 1\<rparr> else a);
          a2 = (if tripped
                then a1\<lparr>ag_tripped_failures := ag_tripped_failures a1 + wfail,
                        ag_tripped_calls := ag_tripped_calls a1 + wcalls,
                        ag_tripped_names := ag_tripped_names a1 @ [sn]\<rparr>
                else a1);
          a3 = a2\<lparr>ag_failures := ag_failures a2 + wfail, ag_total_calls := ag_total_calls a2 + wcalls\<rparr>
      in svc_sum_names E per_name local_rows cluster_rows sns (a3, s'))"

fun observe_rows :: "(string, int) dict \<Rightarrow> cb_row list \<Rightarrow> svc \<Rightarrow> svc" where
  "observe_rows epochs_before [] s = s"
| "observe_rows epochs_before (r # rs) s =
     observe_rows epochs_before rs
       (observe (service_name r) (state r) (Some (dict_get_or epochs_before (service_name r) 0)) s)"

definition rows_by_name :: "cb_row list \<Rightarrow> (string, cb_row) dict" where
  "rows_by_name rs = fold (\<lambda>r d. dict_set (service_name r) r d) rs []"

definition UNREACHED_DEFAULT_STORE_REASON :: string where
  "UNREACHED_DEFAULT_STORE_REASON = ''unreached_default_store''"

text \<open>\<open>get_cluster_states\<close> answers with the shared rows or raises with a reason (\<open>Inl\<close>); the in-memory
  repository answers with its own rows.  The iteration order over the set of names does not matter:
  every sum is commutative and the tripped names are sorted.\<close>

definition svc_finish_aggregate ::
    "env \<Rightarrow> (string, cb_row) dict \<Rightarrow> (string, cb_row) dict \<Rightarrow> bool \<Rightarrow> svc
       \<Rightarrow> (string + aggregate_evidence) \<times> svc" where
  "svc_finish_aggregate E local_rows cluster_rows fleet_read s =
     (let per_name = ow_read_each (outcomes s);
          names = remdups (map fst per_name @ map fst local_rows @ map fst cluster_rows);
          (a, s') = svc_sum_names E per_name local_rows cluster_rows names
             (\<lparr>ag_failures = 0, ag_total_calls = 0, ag_open_circuits = 0, ag_fleet_read = fleet_read,
               ag_tripped_failures = 0, ag_tripped_calls = 0, ag_tripped_names = []\<rparr>, s)
      in (Inr (a\<lparr>ag_tripped_names := sort (ag_tripped_names a)\<rparr>), s'))"

definition svc_get_aggregate_failure_evidence ::
    "env \<Rightarrow> bool \<Rightarrow> (mem_repo \<Rightarrow> string + cb_row list) \<Rightarrow> svc \<Rightarrow> (string + aggregate_evidence) \<times> svc" where
  "svc_get_aggregate_failure_evidence E fleet cluster_states s =
     (let epochs_before = ow_epochs_snapshot (outcomes s);
          local_rows = rows_by_name (repo_get_all_states (repository s));
          s1 = observe_rows epochs_before (map snd local_rows) s;
          answer = (if fleet then cluster_states (repository s1) else Inl UNREACHED_DEFAULT_STORE_REASON)
      in case answer of
           Inl why \<Rightarrow>
             if why \<noteq> UNREACHED_DEFAULT_STORE_REASON then (Inl why, s1)
             else svc_finish_aggregate E local_rows [] False s1
         | Inr rows \<Rightarrow> svc_finish_aggregate E local_rows (rows_by_name rows) True s1)"

definition svc_get_aggregate_failure_rate ::
    "env \<Rightarrow> bool \<Rightarrow> (mem_repo \<Rightarrow> string + cb_row list) \<Rightarrow> svc \<Rightarrow> (string + rat) \<times> svc" where
  "svc_get_aggregate_failure_rate E fleet cluster_states s =
     (let (res, s') = svc_get_aggregate_failure_evidence E fleet cluster_states s
      in (map_sum (\<lambda>e. e) ag_rate res, s'))"

section \<open>Recording a failure\<close>

text \<open>The evidence a caller may attach; only the cascade detector's fields reach the audit reason.\<close>

record error_context =
  ctx_rate_limit_count :: "int option"
  ctx_total_requests :: "int option"
  ctx_rate_percent :: "rat option"

record failure_snapshot =
  fs_failure_count :: int
  fs_success_count :: int
  fs_window_failures :: int
  fs_window_total :: int
  fs_failure_rate_percent :: rat
  fs_failure_threshold :: int
  fs_minimum_calls :: int
  fs_failure_rate_threshold :: rat
  fs_error_context :: "error_context option"

definition svc_collect_failure_snapshot ::
    "cb_row \<Rightarrow> error_context option \<Rightarrow> int \<Rightarrow> int \<Rightarrow> cb_config \<Rightarrow> failure_snapshot" where
  "svc_collect_failure_snapshot r ctx wfail wcalls cfg =
     \<lparr>fs_failure_count = failure_count r, fs_success_count = success_count r,
      fs_window_failures = wfail, fs_window_total = wcalls,
      fs_failure_rate_percent = (if wcalls > 0 then failure_rate wfail wcalls else 0),
      fs_failure_threshold = failure_threshold cfg, fs_minimum_calls = minimum_calls cfg,
      fs_failure_rate_threshold = failure_rate_threshold cfg, fs_error_context = ctx\<rparr>"

definition RATE_LIMIT_CASCADE_TRIGGER :: string where
  "RATE_LIMIT_CASCADE_TRIGGER = ''rate_limit_cascade''"

text \<open>\<open>x or 'N/A'\<close>: a zero is falsy.\<close>

definition int_or_na :: "int \<Rightarrow> int option" where
  "int_or_na n = (if n = 0 then None else Some n)"

definition svc_compose_open_audit_reason :: "failure_snapshot \<Rightarrow> string \<Rightarrow> audit_reason" where
  "svc_compose_open_audit_reason snap trigger =
     (if trigger = RATE_LIMIT_CASCADE_TRIGGER
      then (case fs_error_context snap of
              None \<Rightarrow> Cascade_Trigger None None None
            | Some c \<Rightarrow> Cascade_Trigger (ctx_rate_limit_count c) (ctx_total_requests c) (ctx_rate_percent c))
      else Auto_Trigger (int_or_na (fs_failure_count snap)) (int_or_na (fs_failure_threshold snap)))"

definition svc_log_circuit_open_audit :: "string \<Rightarrow> failure_snapshot \<Rightarrow> string \<Rightarrow> svc \<Rightarrow> svc" where
  "svc_log_circuit_open_audit sn snap trigger =
     log_audit sn CLOSED OPEN (svc_compose_open_audit_reason snap trigger)"

definition svc_apply_burn_rate_multiplier :: "string \<Rightarrow> cb_config \<Rightarrow> svc \<Rightarrow> svc" where
  "svc_apply_burn_rate_multiplier sn cfg s =
     s\<lparr>budget_charges := budget_charges s @
         [(sn, cb_open_base_consumption_minutes cfg, cb_open_burn_rate_multiplier cfg)]\<rparr>"

definition svc_should_open_circuit :: "cb_row \<Rightarrow> cb_config \<Rightarrow> int \<times> int \<Rightarrow> bool" where
  "svc_should_open_circuit r cfg evidence \<longleftrightarrow>
     evaluate_trip (failure_count r) (fst evidence) (snd evidence) cfg \<noteq> None"

definition svc_trip_circuit_open ::
    "env \<Rightarrow> string \<Rightarrow> cb_row \<Rightarrow> error_context option \<Rightarrow> cb_config \<Rightarrow> int \<Rightarrow> int \<Rightarrow> string \<Rightarrow> svc
       \<Rightarrow> open_attempt \<times> svc" where
  "svc_trip_circuit_open E sn updated ctx cfg wfail wcalls trigger s =
     (let snap = svc_collect_failure_snapshot updated ctx wfail wcalls cfg;
          (attempt, s1) = on_repo (repo_trip_to_open (at_time E) sn (failure_count updated)) s
      in if state (oa_state attempt) = PINNED_TOKEN then (attempt, on_window (ow_clear sn) s1)
         else
           let s2 = observe sn (state (oa_state attempt)) None s1
           in if \<not> did_open attempt then (attempt, s2)
              else (attempt,
                    emit_event \<lparr>ev_type = CIRCUIT_BREAKER_OPENED, ev_service = sn,
                        ev_previous_state = CLOSED, ev_timestamp = at_time E, ev_trigger = trigger,
                        ev_counts = Some (wfail, wcalls, failure_count updated), ev_trigger_replay = None\<rparr>
                      (on_state_changed sn CLOSED OPEN
                        (svc_apply_burn_rate_multiplier sn cfg
                          (svc_log_circuit_open_audit sn snap trigger s2)))))"

text \<open>The HALF_OPEN branch of \<open>record_failure\<close>.\<close>

definition svc_reopen :: "env \<Rightarrow> string \<Rightarrow> svc \<Rightarrow> svc" where
  "svc_reopen E sn s =
     (if \<not> svc_auto_transition_allowed E sn OPEN then s
      else
        let (attempt, s1) = on_repo (repo_record_failure_with_open_check (at_time E) sn) s;
            s2 = observe sn (state (oa_state attempt)) None s1
        in if did_open attempt
           then emit_event \<lparr>ev_type = CIRCUIT_BREAKER_OPENED, ev_service = sn,
                    ev_previous_state = HALF_OPEN, ev_timestamp = at_time E,
                    ev_trigger = ''half_open_failure'', ev_counts = None, ev_trigger_replay = None\<rparr>
                  (on_state_changed sn HALF_OPEN OPEN
                    (log_audit sn HALF_OPEN OPEN Half_Open_Test_Failure s2))
           else s2)"

text \<open>The branch for every other state: write the failure, then decide on the trip.\<close>

definition svc_count_failure :: "env \<Rightarrow> string \<Rightarrow> error_context option \<Rightarrow> svc \<Rightarrow> svc" where
  "svc_count_failure E sn ctx s =
     (let s1 = on_window (ow_begin_write sn) s;
          (updated, s2) = on_repo (repo_record_failure (at_time E) sn) s1;
          s3 = on_window (ow_end_write sn) s2;
          s4 = observe sn (state updated) None s3;
          (cfg, s5) = svc_get_effective_config E sn s4;
          s6 = (if state updated = CLOSED
                then on_window (ow_record_failure sn (sliding_window_size cfg)) s5 else s5);
          (wfail, wcalls) = svc_get_window_evidence sn s6
      in if svc_should_open_circuit updated cfg (wfail, wcalls) \<and> state updated = CLOSED
         then if \<not> svc_auto_transition_allowed E sn OPEN then s6
              else snd (svc_trip_circuit_open E sn updated ctx cfg wfail wcalls ''auto'' s6)
         else s6)"

definition svc_record_failure :: "env \<Rightarrow> string \<Rightarrow> error_context option \<Rightarrow> svc \<Rightarrow> svc" where
  "svc_record_failure E sn ctx s =
     (if \<not> svc_is_enabled s then s
      else
        let read_epoch = ow_epoch_of sn (outcomes s);
            (r, s1) = svc_get_or_create_state E sn s;
            s2 = observe sn (state r) (Some read_epoch) s1
        in if is_manual_pin_active (at_time E) r then s2
           else if state r = HALF_OPEN then svc_reopen E sn s2
           else svc_count_failure E sn ctx s2)"

section \<open>Recording a success\<close>

text \<open>The HALF_OPEN branch.\<close>

definition svc_trial_success :: "env \<Rightarrow> string \<Rightarrow> cb_config \<Rightarrow> svc \<Rightarrow> svc" where
  "svc_trial_success E sn cfg s =
     (if \<not> svc_auto_transition_allowed E sn CLOSED then s
      else
        let (attempt, s1) =
              on_repo (repo_record_success_with_close_check (at_time E) sn (success_threshold cfg)) s;
            s2 = observe sn (state (ca_state attempt)) None s1
        in if did_close attempt
           then emit_event \<lparr>ev_type = CIRCUIT_BREAKER_CLOSED, ev_service = sn,
                    ev_previous_state = HALF_OPEN, ev_timestamp = at_time E, ev_trigger = ''auto'',
                    ev_counts = None, ev_trigger_replay = Some True\<rparr>
                  (on_state_changed sn HALF_OPEN CLOSED
                    (log_audit sn HALF_OPEN CLOSED
                      (Success_Threshold_Reached (success_threshold cfg)) s2))
           else s2)"

definition consecutive_reset :: state_update where
  "consecutive_reset = (update_to CLOSED)\<lparr>u_failure_count := Some 0, u_keep_open := True\<rparr>"

text \<open>The CLOSED branch.\<close>

definition svc_count_success :: "env \<Rightarrow> string \<Rightarrow> cb_config \<Rightarrow> int \<Rightarrow> cb_row \<Rightarrow> svc \<Rightarrow> svc" where
  "svc_count_success E sn cfg read_epoch r s =
     (let s1 = on_window (\<lambda>w. snd (ow_record_success_if_epoch sn (sliding_window_size cfg)
                                     read_epoch False w)) s
      in if failure_count r \<noteq> 0
         then snd (on_repo (repo_update_state (at_time E) sn consecutive_reset) s1)
         else s1)"

definition svc_slow_success :: "env \<Rightarrow> string \<Rightarrow> cb_config \<Rightarrow> svc \<Rightarrow> svc" where
  "svc_slow_success E sn cfg s =
     (let read_epoch = ow_epoch_of sn (outcomes s);
          (r, s1) = svc_get_or_create_state E sn s;
          s2 = observe sn (state r) (Some read_epoch) s1
      in if is_manual_pin_active (at_time E) r then s2
         else if state r = HALF_OPEN then svc_trial_success E sn cfg s2
         else if state r = CLOSED then svc_count_success E sn cfg read_epoch r s2
         else s2)"

definition svc_record_success ::
    "env \<Rightarrow> string \<Rightarrow> cb_row option \<Rightarrow> int option \<Rightarrow> svc \<Rightarrow> svc" where
  "svc_record_success E sn hint_state hint_epoch s =
     (if \<not> svc_is_enabled s then s
      else
        let (cfg, s1) = svc_get_effective_config E sn s
        in case (hint_state, hint_epoch) of
             (Some h, Some e) \<Rightarrow>
               if service_name h = sn \<and> state h = CLOSED \<and> \<not> is_manual_pin_active (at_time E) h
                  \<and> failure_count h = 0
               then let (appended, w) =
                          ow_record_success_if_epoch sn (sliding_window_size cfg) e True (outcomes s1);
                        s2 = s1\<lparr>outcomes := w\<rparr>
                    in if appended then s2 else svc_slow_success E sn cfg s2
               else svc_slow_success E sn cfg s1
           | _ \<Rightarrow> svc_slow_success E sn cfg s1)"

section \<open>The recovery sweep\<close>

text \<open>The sweep selects its rows first and writes them afterwards; the two halves are separate calls
  into the repository, so another thread can run in between.\<close>

fun svc_select_due :: "env \<Rightarrow> cb_row list \<Rightarrow> svc \<Rightarrow> cb_row list \<times> svc" where
  "svc_select_due E [] s = ([], s)"
| "svc_select_due E (r # rs) s =
     (case opened_at r of
        None \<Rightarrow> svc_select_due E rs s
      | Some t \<Rightarrow>
          let (cfg, s1) = svc_get_effective_config E (service_name r) s;
              (due, s2) = svc_select_due E rs s1
          in (if at_time E - t \<ge> seconds (recovery_timeout cfg) then r # due else due, s2))"

definition svc_sweep_due :: "env \<Rightarrow> svc \<Rightarrow> cb_row list \<times> svc" where
  "svc_sweep_due E s =
     svc_select_due E
       (filter (\<lambda>r. state r = OPEN \<and> \<not> manually_controlled r) (repo_get_all_states (repository s))) s"

fun svc_sweep_write :: "env \<Rightarrow> cb_row list \<Rightarrow> svc \<Rightarrow> svc" where
  "svc_sweep_write E [] s = s"
| "svc_sweep_write E (r # rs) s =
     svc_sweep_write E rs
       (snd (on_repo (repo_update_state (at_time E) (service_name r)
                        ((update_to HALF_OPEN)\<lparr>u_success_count := Some 0\<rparr>)) s))"

datatype sweep_result = Sweep_Disabled | Sweep_Frozen | Sweep_Done "string list"

definition svc_check_recovery_transitions :: "env \<Rightarrow> svc \<Rightarrow> sweep_result \<times> svc" where
  "svc_check_recovery_transitions E s =
     (if \<not> svc_is_enabled s then (Sweep_Disabled, s)
      else
        let (due, s1) = svc_sweep_due E s
        in if \<not> svc_auto_transition_allowed E ''*'' HALF_OPEN then (Sweep_Frozen, s1)
           else (Sweep_Done (map service_name due), svc_sweep_write E due s1))"

end
