(* ===== verification/CB_Manual.thy ===== *)
theory CB_Manual
  imports CB_Service
begin

text \<open>
  Operator control (\<open>services/circuit_breaker/manual_control.py\<close> and \<open>manual_control\<close> of the service):
  forcing a breaker open or closed for a limited time, resetting it, extending an override, and the
  sweep that clears lapsed flags.  A result carries the error as a value of \<open>manual_error\<close>; the
  message texts and the actor of an audit entry are left out.
\<close>

section \<open>Arguments and results\<close>

text \<open>What a caller may pass as \<open>ttl_minutes\<close>: nothing, an integer, or anything else (a boolean
  included).\<close>

datatype ttl_arg = TTL_None | TTL_Int int | TTL_Other

datatype manual_error =
    Ttl_Not_An_Integer
  | Ttl_Out_Of_Range int
  | Kill_Switch_Active
  | Force_Failed
  | Does_Not_Exist
  | Not_Under_Manual_Control
  | Unexpected_Exception

record cb_result =
  res_success :: bool
  res_service :: string
  res_previous_state :: "cb_state option"
  res_new_state :: "cb_state option"
  res_error :: "manual_error option"
  res_expires_at :: "instant option"

definition cb_succeeded :: "string \<Rightarrow> cb_state \<Rightarrow> cb_state \<Rightarrow> instant option \<Rightarrow> cb_result" where
  "cb_succeeded sn prev new expires = \<lparr>res_success = True, res_service = sn,
     res_previous_state = Some prev, res_new_state = Some new, res_error = None, res_expires_at = expires\<rparr>"

definition cb_failed :: "string \<Rightarrow> manual_error \<Rightarrow> cb_result" where
  "cb_failed sn err = \<lparr>res_success = False, res_service = sn, res_previous_state = None,
     res_new_state = None, res_error = Some err, res_expires_at = None\<rparr>"

definition MAX_MANUAL_OVERRIDE_TTL_MINUTES :: int where
  "MAX_MANUAL_OVERRIDE_TTL_MINUTES = 1440"

fun reject_out_of_range_ttl :: "string \<Rightarrow> ttl_arg \<Rightarrow> cb_result option" where
  "reject_out_of_range_ttl sn TTL_None = None"
| "reject_out_of_range_ttl sn TTL_Other = Some (cb_failed sn Ttl_Not_An_Integer)"
| "reject_out_of_range_ttl sn (TTL_Int n) =
     (if n < 1 \<or> n > MAX_MANUAL_OVERRIDE_TTL_MINUTES then Some (cb_failed sn (Ttl_Out_Of_Range n)) else None)"

definition is_system_enabled :: "env \<Rightarrow> bool" where
  "is_system_enabled E = (case system_enabled E of None \<Rightarrow> True | Some b \<Rightarrow> b)"

definition check_kill_switch ::
    "env \<Rightarrow> string \<Rightarrow> string \<Rightarrow> string \<Rightarrow> bool \<Rightarrow> svc \<Rightarrow> cb_result option \<times> svc" where
  "check_kill_switch E sn action reason override s =
     (if is_system_enabled E then (None, s)
      else if \<not> override then (Some (cb_failed sn Kill_Switch_Active), s)
      else (None, s\<lparr>kill_switch_overrides := kill_switch_overrides s @ [(sn, action, reason)]\<rparr>))"

definition read_back_override_expiry :: "string \<Rightarrow> svc \<Rightarrow> instant option" where
  "read_back_override_expiry sn s =
     (case repo_get_by_service_name sn (repository s) of
        None \<Rightarrow> None | Some r \<Rightarrow> manual_override_expires_at r)"

text \<open>The lifetime of an override: the one typed, or the configured default.\<close>

fun ttl_or_default :: "ttl_arg \<Rightarrow> svc \<Rightarrow> int" where
  "ttl_or_default (TTL_Int n) s = n"
| "ttl_or_default _ s = manual_override_ttl_minutes (svc_config s)"

definition operator_reason :: "string \<Rightarrow> string \<Rightarrow> audit_reason" where
  "operator_reason action reason = Operator_Action action (if reason \<noteq> [] then reason else ''manual'')"

definition manual_event :: "event_type \<Rightarrow> env \<Rightarrow> string \<Rightarrow> cb_state \<Rightarrow> string \<Rightarrow> bool option \<Rightarrow> cb_event" where
  "manual_event ty E sn prev trigger replay = \<lparr>ev_type = ty, ev_service = sn, ev_previous_state = prev,
     ev_timestamp = at_time E, ev_trigger = trigger, ev_counts = None, ev_trigger_replay = replay\<rparr>"

section \<open>Force open and force close\<close>

definition svc_force_open :: "env \<Rightarrow> string \<Rightarrow> string \<Rightarrow> bool \<Rightarrow> ttl_arg \<Rightarrow> svc \<Rightarrow> cb_result \<times> svc" where
  "svc_force_open E sn reason override ttl s =
     (case reject_out_of_range_ttl sn ttl of
        Some err \<Rightarrow> (err, s)
      | None \<Rightarrow>
          case check_kill_switch E sn ''force_open'' reason override s of
            (Some err, s1) \<Rightarrow> (err, s1)
          | (None, s1) \<Rightarrow>
              let ((ok, prev, new), s2) =
                    on_repo (repo_atomic_force_open (at_time E) sn reason None (Some (ttl_or_default ttl s1))) s1
              in if \<not> ok then (cb_failed sn Force_Failed, s2)
                 else
                   let expires = read_back_override_expiry sn s2;
                       s3 = on_window (ow_clear sn) s2;
                       s4 = s3\<lparr>repository := repo_reset_half_open_count (at_time E) sn (repository s3)\<rparr>
                   in (cb_succeeded sn prev new expires,
                       if prev = new then s4
                       else emit_event (manual_event CIRCUIT_BREAKER_OPENED E sn prev ''manual'' None)
                              (on_state_changed sn prev new
                                (log_audit sn prev new (operator_reason ''force_open'' reason) s4))))"

definition handle_force_close_success ::
    "env \<Rightarrow> string \<Rightarrow> cb_state \<Rightarrow> cb_state \<Rightarrow> string \<Rightarrow> bool \<Rightarrow> instant option \<Rightarrow> svc \<Rightarrow> cb_result \<times> svc" where
  "handle_force_close_success E sn prev new reason trigger_replay expires s =
     (cb_succeeded sn prev new expires,
      if prev = new
      then (if trigger_replay then s\<lparr>replay_dispatches := replay_dispatches s @ [sn]\<rparr> else s)
      else emit_event (manual_event CIRCUIT_BREAKER_CLOSED E sn prev ''manual'' (Some trigger_replay))
             (on_state_changed sn prev new
               (log_audit sn prev new (operator_reason ''force_close'' reason) s)))"

definition svc_force_close ::
    "env \<Rightarrow> string \<Rightarrow> string \<Rightarrow> bool \<Rightarrow> bool \<Rightarrow> ttl_arg \<Rightarrow> svc \<Rightarrow> cb_result \<times> svc" where
  "svc_force_close E sn reason trigger_replay override ttl s =
     (case reject_out_of_range_ttl sn ttl of
        Some err \<Rightarrow> (err, s)
      | None \<Rightarrow>
          case check_kill_switch E sn ''force_close'' reason override s of
            (Some err, s1) \<Rightarrow> (err, s1)
          | (None, s1) \<Rightarrow>
              let ((ok, prev, new), s2) =
                    on_repo (repo_atomic_force_close (at_time E) sn reason None (Some (ttl_or_default ttl s1))) s1
              in if \<not> ok then (cb_failed sn Force_Failed, s2)
                 else
                   let expires = read_back_override_expiry sn s2;
                       s3 = on_window (ow_clear sn) s2;
                       s4 = s3\<lparr>repository := repo_reset_half_open_count (at_time E) sn (repository s3)\<rparr>
                   in handle_force_close_success E sn prev new reason trigger_replay expires s4)"

section \<open>Reset\<close>

definition svc_reset :: "env \<Rightarrow> string \<Rightarrow> int option \<Rightarrow> string \<Rightarrow> svc \<Rightarrow> cb_result \<times> svc" where
  "svc_reset E sn by_id reason s =
     (case on_repo (repo_atomic_reset (at_time E) sn reason by_id) s of
        ((True, Some prev, Some new), s1) \<Rightarrow>
          let s2 = on_window (ow_clear sn) s1
          in (cb_succeeded sn prev new None,
              if prev = new then s2
              else emit_event (manual_event CIRCUIT_BREAKER_CLOSED E sn prev ''manual_reset'' (Some True))
                     (on_state_changed sn prev new
                       (log_audit sn prev new (operator_reason ''reset'' reason) s2)))
      | (_, s1) \<Rightarrow> (cb_failed sn Does_Not_Exist, s1))"

section \<open>Lifetimes\<close>

text \<open>One row of the expiry sweep: revalidated against the store before its flag is cleared.\<close>

definition expire_one :: "env \<Rightarrow> cb_row \<Rightarrow> svc \<Rightarrow> string list \<times> svc" where
  "expire_one E r s =
     (if \<not> (manually_controlled r
            \<and> (case manual_override_expires_at r of None \<Rightarrow> False | Some e \<Rightarrow> e \<le> at_time E)) then ([], s)
      else case repo_get_by_service_name (service_name r) (repository s) of
             None \<Rightarrow> ([], s)
           | Some fresh \<Rightarrow>
               if \<not> manually_controlled fresh then ([], s)
               else if is_manual_pin_active (at_time E) fresh then ([], s)
               else if is_pin_lift_due (at_time E) fresh then ([], s)
               else ([service_name fresh],
                     snd (on_repo (repo_clear_manual_control (at_time E) (service_name fresh) True) s)))"

fun expire_rows :: "env \<Rightarrow> cb_row list \<Rightarrow> svc \<Rightarrow> string list \<times> svc" where
  "expire_rows E [] s = ([], s)"
| "expire_rows E (r # rs) s =
     (let (xs, s1) = expire_one E r s; (ys, s2) = expire_rows E rs s1 in (xs @ ys, s2))"

definition svc_check_and_expire_manual_overrides :: "env \<Rightarrow> svc \<Rightarrow> string list \<times> svc" where
  "svc_check_and_expire_manual_overrides E s = expire_rows E (repo_get_all_states (repository s)) s"

definition extended_reason :: "string \<Rightarrow> string \<Rightarrow> string" where
  "extended_reason old reason = (if reason \<noteq> [] then old @ '' | Extended: '' @ reason else old)"

text \<open>The validator accepts a missing value, but the addition that follows needs a number: with
  \<open>TTL_None\<close> the arithmetic raises and the method reports a failure.\<close>

definition svc_extend_manual_override ::
    "env \<Rightarrow> string \<Rightarrow> ttl_arg \<Rightarrow> int option \<Rightarrow> string \<Rightarrow> svc \<Rightarrow> cb_result \<times> svc" where
  "svc_extend_manual_override E sn additional by_id reason s =
     (case reject_out_of_range_ttl sn additional of
        Some err \<Rightarrow> (err, s)
      | None \<Rightarrow>
          case repo_get_by_service_name sn (repository s) of
            None \<Rightarrow> (cb_failed sn Does_Not_Exist, s)
          | Some r \<Rightarrow>
              if \<not> manually_controlled r then (cb_failed sn Not_Under_Manual_Control, s)
              else case additional of
                     TTL_Int n \<Rightarrow>
                       let base = given (manual_override_expires_at r) (at_time E);
                           new_expires = max base (at_time E) + minutes n;
                           s1 = snd (on_repo (repo_set_manual_control (at_time E) sn (state r) by_id
                                  (extended_reason (control_reason r) reason) (Some new_expires)) s)
                       in (cb_succeeded sn (state r) (state r) None, on_window (ow_bump sn) s1)
                   | _ \<Rightarrow> (cb_failed sn Unexpected_Exception, s))"

section \<open>The control entry point\<close>

definition controlled_reason :: "string \<Rightarrow> string option \<Rightarrow> string" where
  "controlled_reason reason controlled_by =
     (case controlled_by of
        None \<Rightarrow> reason
      | Some who \<Rightarrow>
          if who = [] then reason
          else if reason \<noteq> [] then reason @ '' (controlled_by='' @ who @ '')''
          else ''controlled_by='' @ who)"

definition svc_manual_control ::
    "env \<Rightarrow> string \<Rightarrow> string \<Rightarrow> string \<Rightarrow> string option \<Rightarrow> svc \<Rightarrow> cb_result \<times> svc" where
  "svc_manual_control E sn action reason controlled_by s =
     (let (r, s1) = svc_get_or_create_state E sn s; why = controlled_reason reason controlled_by
      in if action = ''open'' then svc_force_open E sn why False TTL_None s1
         else if action = ''close'' then svc_force_close E sn why False False TTL_None s1
         else (cb_succeeded sn (state r) (state r) None,
               snd (on_repo (repo_clear_manual_control (at_time E) sn True) s1)))"

end
