(* ===== verification/CB_Run.thy ===== *)
theory CB_Run
  imports CB_Manual
begin

text \<open>
  Sequences of service calls.  \<open>svc_op\<close> is one call of a public method of the service, with the
  environment it reads; a list of them is an order in which any number of threads complete their
  calls.  The lemmas give, for each method, what it does to the stored rows, to the window and to
  the event bus; the invariant and the event trace of whole runs follow by induction.
\<close>

section \<open>What the helpers leave alone\<close>

named_theorems svc_frame "which part of the service a helper touches"

text \<open>Helpers that only write one field: the record simplifier reads the others through them.\<close>

lemmas svc_helpers = on_window_def observe_def emit_event_def log_audit_def record_blocked_def
  on_state_changed_def svc_apply_burn_rate_multiplier_def svc_log_circuit_open_audit_def

lemma on_repo_frame [svc_frame]:
  "fst (on_repo f s) = fst (f (repository s))" "repository (snd (on_repo f s)) = snd (f (repository s))"
  "outcomes (snd (on_repo f s)) = outcomes s" "bus (snd (on_repo f s)) = bus s"
  "pinned_config (snd (on_repo f s)) = pinned_config s"
  "shared_config (snd (on_repo f s)) = shared_config s"
  "threshold_overrides (snd (on_repo f s)) = threshold_overrides s"
  "downstream_checkers (snd (on_repo f s)) = downstream_checkers s"
  "blocked_requests (snd (on_repo f s)) = blocked_requests s"
  by (simp_all add: on_repo_def split_beta Let_def)

lemma config_frame [svc_frame]:
  "repository (snd (svc_get_effective_config E sn s)) = repository s"
  "outcomes (snd (svc_get_effective_config E sn s)) = outcomes s"
  "bus (snd (svc_get_effective_config E sn s)) = bus s"
  "pinned_config (snd (svc_get_effective_config E sn s)) = pinned_config s"
  "shared_config (snd (svc_get_effective_config E sn s)) = shared_config s"
  "downstream_checkers (snd (svc_get_effective_config E sn s)) = downstream_checkers s"
  "blocked_requests (snd (svc_get_effective_config E sn s)) = blocked_requests s"
  by (simp_all add: svc_get_effective_config_def split: option.splits)

text \<open>The configuration in force for a name that carries no override.\<close>

lemma effective_config_plain:
  assumes "dict_get (threshold_overrides s) sn = None"
  shows "svc_get_effective_config E sn s = (svc_config s, s)"
  using assms by (simp add: svc_get_effective_config_def)

lemma overrides_after_config [svc_frame]:
  "dict_get (threshold_overrides (snd (svc_get_effective_config E sn s))) sn' =
     (if sn' = sn \<and> (\<exists>ov. dict_get (threshold_overrides s) sn = Some ov \<and> at_time E > expires_at ov)
      then None else dict_get (threshold_overrides s) sn')"
  by (auto simp: svc_get_effective_config_def dict_simps split: option.splits)

lemma rejection_frame [svc_frame]:
  "repository (svc_record_rejection E sn r s) = repository s"
  "bus (svc_record_rejection E sn r s) = bus s"
  "pinned_config (svc_record_rejection E sn r s) = pinned_config s"
  "shared_config (svc_record_rejection E sn r s) = shared_config s"
  "downstream_checkers (svc_record_rejection E sn r s) = downstream_checkers s"
  "blocked_requests (svc_record_rejection E sn r s) = blocked_requests s"
  by (simp_all add: svc_record_rejection_def svc_helpers svc_frame split_beta Let_def)

section \<open>Calls\<close>

datatype svc_op =
    Should_Allow string
  | Should_Allow_With_State string
  | Note_Failure string "error_context option"
  | Note_Success string "cb_row option" "int option"
  | Recovery_Sweep
  | Expiry_Sweep
  | Aggregate_Evidence bool
  | Operator_Open string string bool ttl_arg
  | Operator_Close string string bool bool ttl_arg
  | Operator_Reset string "int option" string
  | Operator_Extend string ttl_arg "int option" string
  | Operator_Control string string string "string option"

fun svc_step :: "env \<Rightarrow> svc_op \<Rightarrow> svc \<Rightarrow> svc" where
  "svc_step E (Should_Allow sn) s = snd (svc_should_allow E sn s)"
| "svc_step E (Should_Allow_With_State sn) s = snd (svc_should_allow_with_state E sn s)"
| "svc_step E (Note_Failure sn ctx) s = svc_record_failure E sn ctx s"
| "svc_step E (Note_Success sn h e) s = svc_record_success E sn h e s"
| "svc_step E Recovery_Sweep s = snd (svc_check_recovery_transitions E s)"
| "svc_step E Expiry_Sweep s = snd (svc_check_and_expire_manual_overrides E s)"
| "svc_step E (Aggregate_Evidence fleet) s =
     snd (svc_get_aggregate_failure_evidence E fleet (\<lambda>R. Inr (dflt_get_cluster_states R)) s)"
| "svc_step E (Operator_Open sn why ov ttl) s = snd (svc_force_open E sn why ov ttl s)"
| "svc_step E (Operator_Close sn why rp ov ttl) s = snd (svc_force_close E sn why rp ov ttl s)"
| "svc_step E (Operator_Reset sn i why) s = snd (svc_reset E sn i why s)"
| "svc_step E (Operator_Extend sn ttl i why) s = snd (svc_extend_manual_override E sn ttl i why s)"
| "svc_step E (Operator_Control sn act why who) s = snd (svc_manual_control E sn act why who s)"

fun svc_run :: "(env \<times> svc_op) list \<Rightarrow> svc \<Rightarrow> svc" where
  "svc_run [] s = s"
| "svc_run ((E, x) # xs) s = svc_run xs (svc_step E x s)"

text \<open>The calls that are not an operator's.\<close>

fun automatic_call :: "svc_op \<Rightarrow> bool" where
  "automatic_call (Should_Allow _) = True"
| "automatic_call (Should_Allow_With_State _) = True"
| "automatic_call (Note_Failure _ _) = True"
| "automatic_call (Note_Success _ _ _) = True"
| "automatic_call Recovery_Sweep = True"
| "automatic_call Expiry_Sweep = True"
| "automatic_call (Aggregate_Evidence _) = True"
| "automatic_call _ = False"

lemmas admission_defs = svc_should_allow_def svc_should_allow_with_state_def
  svc_evaluate_admission_def svc_trial_admission_def svc_get_or_create_state_def

lemmas recording_defs = svc_record_failure_def svc_reopen_def svc_count_failure_def
  svc_trip_circuit_open_def svc_record_success_def svc_slow_success_def svc_trial_success_def
  svc_count_success_def svc_get_or_create_state_def

lemmas operator_defs = svc_force_open_def svc_force_close_def handle_force_close_success_def
  svc_reset_def svc_extend_manual_override_def svc_manual_control_def check_kill_switch_def
  svc_get_or_create_state_def

section \<open>Effects on the stored rows\<close>

text \<open>Every call acts on the repository by a sequence of repository operations its contract allows.\<close>

definition acts_by :: "(repo_op \<Rightarrow> bool) \<Rightarrow> mem_repo \<Rightarrow> mem_repo \<Rightarrow> bool" where
  "acts_by P R R' \<longleftrightarrow> (\<exists>xs. (\<forall>(t, x) \<in> set xs. P x) \<and> R' = repo_run xs R)"

lemma repo_run_append: "repo_run (xs @ ys) R = repo_run ys (repo_run xs R)"
  by (induction xs arbitrary: R) auto

lemma acts_by_refl [simp]: "acts_by P R R"
  unfolding acts_by_def by (rule exI [of _ "[]"]) simp

lemma acts_by_trans: "acts_by P R R1 \<Longrightarrow> acts_by P R1 R2 \<Longrightarrow> acts_by P R R2"
  unfolding acts_by_def by (metis (no_types, lifting) Un_iff repo_run_append set_append)

lemma acts_by_step: "P x \<Longrightarrow> acts_by P R (repo_step now x R)"
  unfolding acts_by_def by (rule exI [of _ "[(now, x)]"]) simp

lemma acts_by_then: "acts_by P R R' \<Longrightarrow> P x \<Longrightarrow> acts_by P R (repo_step now x R')"
  by (rule acts_by_trans [OF _ acts_by_step])

lemmas acts_intros =
  acts_by_then [where x = "Get_Or_Create sn" for sn, simplified repo_step.simps]
  acts_by_then [where x = "Update_State sn u" for sn u, simplified repo_step.simps]
  acts_by_then [where x = "Record_Failure sn" for sn, simplified repo_step.simps]
  acts_by_then [where x = "Success_With_Close_Check sn n" for sn n, simplified repo_step.simps]
  acts_by_then [where x = "Failure_With_Open_Check sn" for sn, simplified repo_step.simps]
  acts_by_then [where x = "Trip_To_Open sn n" for sn n, simplified repo_step.simps]
  acts_by_then [where x = "Try_Acquire sn k t" for sn k t, simplified repo_step.simps]
  acts_by_then [where x = "Force_Open sn y i t" for sn y i t, simplified repo_step.simps]
  acts_by_then [where x = "Force_Close sn y i t" for sn y i t, simplified repo_step.simps]
  acts_by_then [where x = "Atomic_Reset sn y i" for sn y i, simplified repo_step.simps]
  acts_by_then [where x = "Reset_Half_Open_Count sn" for sn, simplified repo_step.simps]
  acts_by_then [where x = "Set_Manual_Control sn st i y t" for sn st i y t, simplified repo_step.simps]
  acts_by_then [where x = "Clear_Manual_Control sn b" for sn b, simplified repo_step.simps]

abbreviation auto_on :: "string \<Rightarrow> repo_op \<Rightarrow> bool" where
  "auto_on sn x \<equiv> automatic x \<and> op_name x = Some sn"

lemma admission_acts:
  "acts_by (auto_on sn) (repository s) (repository (snd (svc_evaluate_admission E sn cfg s)))"
  unfolding svc_evaluate_admission_def svc_trial_admission_def svc_get_or_create_state_def
  by (auto simp: svc_frame svc_helpers split_beta Let_def intro!: acts_intros split: option.splits)

lemma should_allow_acts:
  "acts_by (auto_on sn) (repository s) (repository (snd (svc_should_allow E sn s)))"
  using admission_acts [of sn "snd (svc_get_effective_config E sn s)" E "fst (svc_get_effective_config E sn s)"]
  by (simp add: svc_should_allow_def svc_frame split_beta Let_def)

lemma should_allow_with_state_acts:
  "acts_by (auto_on sn) (repository s) (repository (snd (svc_should_allow_with_state E sn s)))"
  using admission_acts [of sn "snd (svc_get_effective_config E sn s)" E "fst (svc_get_effective_config E sn s)"]
  by (auto simp add: svc_should_allow_with_state_def svc_get_or_create_state_def svc_frame split_beta Let_def intro!: acts_intros)

lemma record_failure_count_nonneg:
  assumes "repo_inv R"
  shows "0 \<le> failure_count (fst (repo_record_failure now sn R))"
  using row_ok_entry [OF assms, of now sn] by (simp add: repo_record_failure_def repo_rows Let_def row_ok_def)

lemma repo_inv_acts:
  assumes "acts_by P R R'" and "repo_inv R" and "\<And>x. P x \<Longrightarrow> op_ok x"
  shows "repo_inv R'"
proof -
  obtain xs where xs: "\<forall>(t, x) \<in> set xs. P x" "R' = repo_run xs R" using assms(1) by (auto simp: acts_by_def)
  then have "\<forall>(t, x) \<in> set xs. op_ok x" using assms(3) by auto
  then show ?thesis using repo_inv_run [OF assms(2)] xs(2) by simp
qed

lemma trip_acts:
  assumes "0 \<le> failure_count r"
  shows "acts_by (auto_on sn) (repository s) (repository (snd (svc_trip_circuit_open E sn r ctx cfg a b tr s)))"
  using assms unfolding svc_trip_circuit_open_def
  by (auto simp: svc_frame svc_helpers split_beta Let_def intro!: acts_intros)

lemma count_failure_acts:
  assumes "repo_inv (repository s)"
  shows "acts_by (auto_on sn) (repository s) (repository (svc_count_failure E sn ctx s))"
proof -
  let ?R = "repository s"
  have r: "acts_by (auto_on sn) ?R (snd (repo_record_failure (at_time E) sn ?R))"
    by (intro acts_intros) simp_all
  then show ?thesis using record_failure_count_nonneg [OF assms]
    unfolding svc_count_failure_def
    by (auto simp: svc_frame svc_helpers split_beta Let_def intro!: acts_by_trans [OF r] acts_by_trans [OF _ trip_acts])
qed

lemma record_failure_acts:
  assumes "repo_inv (repository s)"
  shows "acts_by (auto_on sn) (repository s) (repository (svc_record_failure E sn ctx s))"
proof -
  let ?R1 = "snd (repo_get_or_create (at_time E) sn (repository s))"
  have g: "acts_by (auto_on sn) (repository s) ?R1" by (intro acts_intros) simp_all
  have inv: "repo_inv ?R1" by (rule repo_inv_acts [OF g assms]) (simp add: automatic_op_ok)
  have "acts_by (auto_on sn) (repository s) (repository (svc_count_failure E sn ctx s'))"
    if "repository s' = ?R1" for s'
    using count_failure_acts [of s' sn E ctx] inv that acts_by_trans [OF g] by simp
  then show ?thesis using g
    unfolding svc_record_failure_def svc_reopen_def svc_get_or_create_state_def
    by (auto simp: svc_frame svc_helpers split_beta Let_def intro!: acts_intros)
qed

lemma slow_success_acts:
  "acts_by (auto_on sn) (repository s) (repository (svc_slow_success E sn cfg s))"
  unfolding svc_slow_success_def svc_trial_success_def svc_count_success_def svc_get_or_create_state_def
  by (auto simp: svc_frame svc_helpers split_beta Let_def consecutive_reset_def update_to_def given_def intro!: acts_intros)

lemma record_success_acts:
  "acts_by (auto_on sn) (repository s) (repository (svc_record_success E sn h e s))"
  unfolding svc_record_success_def
  by (auto simp: svc_frame split_beta Let_def split: option.splits
      intro!: acts_by_trans [OF _ slow_success_acts])

abbreviation ok_on :: "string \<Rightarrow> repo_op \<Rightarrow> bool" where
  "ok_on sn x \<equiv> op_ok x \<and> op_name x = Some sn"

lemma force_open_acts:
  "acts_by (ok_on sn) (repository s) (repository (snd (svc_force_open E sn why ov ttl s)))"
  unfolding svc_force_open_def check_kill_switch_def
  by (auto simp: svc_frame svc_helpers split_beta Let_def split: option.splits intro!: acts_intros)

lemma force_close_acts:
  "acts_by (ok_on sn) (repository s) (repository (snd (svc_force_close E sn why rp ov ttl s)))"
  unfolding svc_force_close_def check_kill_switch_def handle_force_close_success_def
  by (auto simp: svc_frame svc_helpers split_beta Let_def split: option.splits intro!: acts_intros)

text \<open>The reset, by whether the row exists.\<close>

lemma svc_reset_None:
  "row_of (repository s) sn = None \<Longrightarrow> svc_reset E sn i why s = (cb_failed sn Does_Not_Exist, s)"
  by (simp add: svc_reset_def on_repo_def repo_atomic_reset_def)

lemma svc_reset_Some:
  assumes "row_of (repository s) sn = Some e"
  shows "repository (snd (svc_reset E sn i why s)) = put_row sn (initial_row (at_time E) sn why e) (repository s)"
    and "outcomes (snd (svc_reset E sn i why s)) = ow_clear sn (outcomes s)"
    and "bus (snd (svc_reset E sn i why s)) = bus s @
           (if state e = CLOSED then [] else
              [manual_event CIRCUIT_BREAKER_CLOSED E sn (state e) ''manual_reset'' (Some True)])"
  using assms by (simp_all add: svc_reset_def on_repo_def repo_atomic_reset_def svc_helpers Let_def)

lemma reset_acts:
  "acts_by (ok_on sn) (repository s) (repository (snd (svc_reset E sn i why s)))"
proof (cases "row_of (repository s) sn")
  case (Some e)
  have "acts_by (ok_on sn) (repository s) (snd (repo_atomic_reset (at_time E) sn why i (repository s)))"
    by (intro acts_intros) simp_all
  then show ?thesis by (simp add: svc_reset_Some [OF Some] repo_atomic_reset_def Some)
qed (simp add: svc_reset_None)

lemma extend_acts:
  assumes "repo_inv (repository s)"
  shows "acts_by (ok_on sn) (repository s) (repository (snd (svc_extend_manual_override E sn ttl i why s)))"
proof -
  have "state r \<noteq> PINNED_TOKEN" if "row_of (repository s) sn = Some r" for r
    using repo_inv_row [OF assms that] by (simp add: row_ok_def)
  then show ?thesis unfolding svc_extend_manual_override_def repo_get_by_service_name_def
    by (auto simp: svc_frame svc_helpers split_beta Let_def split: option.splits ttl_arg.splits intro!: acts_intros)
qed

lemma manual_control_acts:
  "acts_by (ok_on sn) (repository s) (repository (snd (svc_manual_control E sn act why who s)))"
proof -
  have g: "acts_by (ok_on sn) (repository s) (snd (repo_get_or_create (at_time E) sn (repository s)))"
    by (intro acts_intros) simp_all
  show ?thesis unfolding svc_manual_control_def svc_get_or_create_state_def
    using acts_by_trans [OF g, of "repository (snd (svc_force_open E sn w o' t (snd (on_repo (repo_get_or_create (at_time E) sn) s))))" for w o' t]
      acts_by_trans [OF g, of "repository (snd (svc_force_close E sn w rp o' t (snd (on_repo (repo_get_or_create (at_time E) sn) s))))" for w rp o' t]
      force_open_acts [of sn "snd (on_repo (repo_get_or_create (at_time E) sn) s)"]
      force_close_acts [of sn "snd (on_repo (repo_get_or_create (at_time E) sn) s)"]
    by (auto simp: svc_frame split_beta Let_def intro!: acts_intros)
qed

lemma sweep_write_acts: "acts_by op_ok (repository s) (repository (svc_sweep_write E rs s))"
proof (induction rs arbitrary: s)
  case (Cons r rs)
  have "acts_by op_ok (repository s) (snd (repo_update_state (at_time E) (service_name r)
          ((update_to HALF_OPEN)\<lparr>u_success_count := Some 0\<rparr>) (repository s)))"
    by (intro acts_intros) (simp_all add: update_to_def given_def)
  from acts_by_trans [OF this Cons.IH [of "snd (on_repo (repo_update_state (at_time E) (service_name r)
          ((update_to HALF_OPEN)\<lparr>u_success_count := Some 0\<rparr>)) s)", unfolded on_repo_frame]] show ?case by simp
qed simp

lemma select_due_frame [svc_frame]:
  "repository (snd (svc_select_due E rs s)) = repository s" "outcomes (snd (svc_select_due E rs s)) = outcomes s"
  "bus (snd (svc_select_due E rs s)) = bus s" "pinned_config (snd (svc_select_due E rs s)) = pinned_config s"
  "shared_config (snd (svc_select_due E rs s)) = shared_config s"
  by (induction rs arbitrary: s) (auto simp: svc_frame split_beta Let_def split: option.splits)

lemma recovery_sweep_acts: "acts_by op_ok (repository s) (repository (snd (svc_check_recovery_transitions E s)))"
  using sweep_write_acts [of "snd (svc_sweep_due E s)" E "fst (svc_sweep_due E s)"]
  by (auto simp: svc_check_recovery_transitions_def svc_sweep_due_def svc_frame split_beta Let_def)

lemma expire_one_acts: "acts_by op_ok (repository s) (repository (snd (expire_one E r s)))"
  unfolding expire_one_def by (auto simp: svc_frame split: option.splits intro!: acts_intros)

lemma expire_rows_acts: "acts_by op_ok (repository s) (repository (snd (expire_rows E rs s)))"
  by (induction rs arbitrary: s) (auto simp: split_beta Let_def intro: acts_by_trans [OF expire_one_acts])

lemma observe_rows_frame [svc_frame]:
  "repository (observe_rows ep rs s) = repository s" "bus (observe_rows ep rs s) = bus s"
  "pinned_config (observe_rows ep rs s) = pinned_config s" "shared_config (observe_rows ep rs s) = shared_config s"
  by (induction rs arbitrary: s) (simp_all add: svc_helpers)

lemma name_evidence_frame [svc_frame]:
  "repository (snd (svc_name_evidence E sn x l c s)) = repository s"
  "bus (snd (svc_name_evidence E sn x l c s)) = bus s"
  "outcomes (snd (svc_name_evidence E sn x l c s)) = outcomes s"
  "pinned_config (snd (svc_name_evidence E sn x l c s)) = pinned_config s"
  "shared_config (snd (svc_name_evidence E sn x l c s)) = shared_config s"
  by (simp_all add: svc_name_evidence_def svc_frame split_beta Let_def split: option.splits)

lemma sum_names_frame [svc_frame]:
  "repository (snd (svc_sum_names E p l c sns (a, s))) = repository s"
  "bus (snd (svc_sum_names E p l c sns (a, s))) = bus s"
  "outcomes (snd (svc_sum_names E p l c sns (a, s))) = outcomes s"
  "pinned_config (snd (svc_sum_names E p l c sns (a, s))) = pinned_config s"
  "shared_config (snd (svc_sum_names E p l c sns (a, s))) = shared_config s"
  by (induction sns arbitrary: a s) (simp_all add: svc_frame split_beta Let_def)

lemma aggregate_frame [svc_frame]:
  "repository (snd (svc_get_aggregate_failure_evidence E b f s)) = repository s"
  "bus (snd (svc_get_aggregate_failure_evidence E b f s)) = bus s"
  "pinned_config (snd (svc_get_aggregate_failure_evidence E b f s)) = pinned_config s"
  "shared_config (snd (svc_get_aggregate_failure_evidence E b f s)) = shared_config s"
  by (simp_all add: svc_get_aggregate_failure_evidence_def svc_finish_aggregate_def svc_frame split_beta Let_def
      split: sum.splits)

definition svc_inv :: "svc \<Rightarrow> bool" where
  "svc_inv s \<longleftrightarrow> repo_inv (repository s) \<and> ow_inv (outcomes s)"

lemma repo_inv_svc_step:
  assumes "repo_inv (repository s)"
  shows "repo_inv (repository (svc_step E x s))"
proof (cases x)
  case (Aggregate_Evidence b)
  then show ?thesis using assms by (simp add: svc_frame)
next
  case Expiry_Sweep
  then show ?thesis using repo_inv_acts [OF expire_rows_acts assms] by (simp add: svc_check_and_expire_manual_overrides_def)
qed (use assms in \<open>auto intro: repo_inv_acts [OF should_allow_acts] repo_inv_acts [OF should_allow_with_state_acts]
    repo_inv_acts [OF record_failure_acts] repo_inv_acts [OF record_success_acts] repo_inv_acts [OF recovery_sweep_acts]
    repo_inv_acts [OF force_open_acts] repo_inv_acts [OF force_close_acts] repo_inv_acts [OF reset_acts]
    repo_inv_acts [OF extend_acts] repo_inv_acts [OF manual_control_acts] simp: automatic_op_ok\<close>)

section \<open>Effects on the window\<close>

definition window_by :: "(ow_op \<Rightarrow> bool) \<Rightarrow> outcome_window \<Rightarrow> outcome_window \<Rightarrow> bool" where
  "window_by P w w' \<longleftrightarrow> (\<exists>ops. (\<forall>op \<in> set ops. P op) \<and> w' = ow_run ops w)"

lemma ow_run_append: "ow_run (xs @ ys) w = ow_run ys (ow_run xs w)"
  by (induction xs arbitrary: w) auto

lemma window_by_refl [simp]: "window_by P w w"
  unfolding window_by_def by (rule exI [of _ "[]"]) simp

lemma window_by_trans: "window_by P w w1 \<Longrightarrow> window_by P w1 w2 \<Longrightarrow> window_by P w w2"
  unfolding window_by_def by (metis Un_iff ow_run_append set_append)

lemma window_by_then: "window_by P w w' \<Longrightarrow> P op \<Longrightarrow> window_by P w (ow_step op w')"
  by (rule window_by_trans) (auto simp: window_by_def intro!: exI [of _ "[op]"])

lemma window_by_mono: "window_by P w w' \<Longrightarrow> (\<And>op. P op \<Longrightarrow> Q op) \<Longrightarrow> window_by Q w w'"
  unfolding window_by_def by blast

lemmas window_intros =
  window_by_then [where op = "Ow_Success sn n" for sn n, simplified ow_step.simps]
  window_by_then [where op = "Ow_Success_If_Epoch sn n e b" for sn n e b, simplified ow_step.simps]
  window_by_then [where op = "Ow_Failure sn n" for sn n, simplified ow_step.simps]
  window_by_then [where op = "Ow_Rejection sn n" for sn n, simplified ow_step.simps]
  window_by_then [where op = "Ow_Begin_Write sn" for sn, simplified ow_step.simps]
  window_by_then [where op = "Ow_End_Write sn" for sn, simplified ow_step.simps]
  window_by_then [where op = "Ow_Bump sn" for sn, simplified ow_step.simps]
  window_by_then [where op = "Ow_Observe sn st e" for sn st e, simplified ow_step.simps]
  window_by_then [where op = "Ow_Clear sn" for sn, simplified ow_step.simps]

abbreviation on_name :: "string \<Rightarrow> ow_op \<Rightarrow> bool" where
  "on_name sn op \<equiv> ow_name op = sn"

lemma admission_window:
  "window_by (on_name sn) (outcomes s) (outcomes (snd (svc_evaluate_admission E sn cfg s)))"
  unfolding svc_evaluate_admission_def svc_trial_admission_def svc_get_or_create_state_def svc_record_rejection_def
  by (auto simp: svc_frame svc_helpers split_beta Let_def intro!: window_intros split: option.splits)

lemma should_allow_window:
  "window_by (on_name sn) (outcomes s) (outcomes (snd (svc_should_allow E sn s)))"
  using admission_window [of sn "snd (svc_get_effective_config E sn s)" E "fst (svc_get_effective_config E sn s)"]
  by (simp add: svc_should_allow_def svc_frame split_beta Let_def)

lemma should_allow_with_state_window:
  "window_by (on_name sn) (outcomes s) (outcomes (snd (svc_should_allow_with_state E sn s)))"
  using admission_window [of sn "snd (svc_get_effective_config E sn s)" E "fst (svc_get_effective_config E sn s)"]
  by (simp add: svc_should_allow_with_state_def svc_get_or_create_state_def svc_frame split_beta Let_def)

lemma trip_window:
  "window_by (on_name sn) (outcomes s) (outcomes (snd (svc_trip_circuit_open E sn r ctx cfg a b tr s)))"
  unfolding svc_trip_circuit_open_def
  by (auto simp: svc_frame svc_helpers split_beta Let_def intro!: window_intros)

lemma count_failure_window:
  "window_by (on_name sn) (outcomes s) (outcomes (svc_count_failure E sn ctx s))"
  unfolding svc_count_failure_def
  by (auto simp: svc_frame svc_helpers split_beta Let_def
      intro!: window_intros window_by_trans [OF _ trip_window])

lemma record_failure_window:
  "window_by (on_name sn) (outcomes s) (outcomes (svc_record_failure E sn ctx s))"
  unfolding svc_record_failure_def svc_reopen_def svc_get_or_create_state_def
  by (auto simp: svc_frame svc_helpers split_beta Let_def
      intro!: window_intros window_by_trans [OF _ count_failure_window])

lemma slow_success_window:
  "window_by (on_name sn) (outcomes s) (outcomes (svc_slow_success E sn cfg s))"
  unfolding svc_slow_success_def svc_trial_success_def svc_count_success_def svc_get_or_create_state_def
  by (auto simp: svc_frame svc_helpers split_beta Let_def intro!: window_intros)

lemma record_success_window:
  "window_by (on_name sn) (outcomes s) (outcomes (svc_record_success E sn h e s))"
  unfolding svc_record_success_def
  by (auto simp: svc_frame split_beta Let_def split: option.splits
      intro!: window_intros window_by_trans [OF _ slow_success_window])

lemma operator_window:
  "window_by (on_name sn) (outcomes s) (outcomes (snd (svc_force_open E sn why ov ttl s)))"
  "window_by (on_name sn) (outcomes s) (outcomes (snd (svc_force_close E sn why rp ov ttl s)))"
  "window_by (on_name sn) (outcomes s) (outcomes (snd (svc_extend_manual_override E sn ttl i why s)))"
  "window_by (on_name sn) (outcomes s) (outcomes (snd (svc_manual_control E sn act why who s)))"
  unfolding svc_force_open_def svc_force_close_def check_kill_switch_def handle_force_close_success_def
    svc_extend_manual_override_def svc_manual_control_def svc_get_or_create_state_def
  by (auto simp: svc_frame svc_helpers split_beta Let_def split: option.splits ttl_arg.splits intro!: window_intros)

lemma reset_window: "window_by (on_name sn) (outcomes s) (outcomes (snd (svc_reset E sn i why s)))"
  by (cases "row_of (repository s) sn") (auto simp: svc_reset_None svc_reset_Some intro!: window_intros)

lemma sweep_outcomes [svc_frame]:
  "outcomes (svc_sweep_write E rs s) = outcomes s" "bus (svc_sweep_write E rs s) = bus s"
  "outcomes (snd (expire_one E r s)) = outcomes s" "bus (snd (expire_one E r s)) = bus s"
  by (induction rs arbitrary: s) (simp_all add: svc_frame expire_one_def split: option.splits)

lemma expire_outcomes [svc_frame]:
  "outcomes (snd (expire_rows E rs s)) = outcomes s" "bus (snd (expire_rows E rs s)) = bus s"
  by (induction rs arbitrary: s) (simp_all add: svc_frame split_beta Let_def)

lemma sweeps_outcomes [svc_frame]:
  "outcomes (snd (svc_check_recovery_transitions E s)) = outcomes s"
  "bus (snd (svc_check_recovery_transitions E s)) = bus s"
  "outcomes (snd (svc_check_and_expire_manual_overrides E s)) = outcomes s"
  "bus (snd (svc_check_and_expire_manual_overrides E s)) = bus s"
  by (simp_all add: svc_check_recovery_transitions_def svc_sweep_due_def svc_check_and_expire_manual_overrides_def
      svc_frame split_beta Let_def)

lemma observe_rows_window: "window_by (\<lambda>_. True) (outcomes s) (outcomes (observe_rows ep rs s))"
proof (induction rs arbitrary: s)
  case (Cons r rs)
  show ?case
    unfolding observe_rows.simps
    by (rule window_by_trans [OF _ Cons.IH]) (auto simp: svc_helpers intro!: window_intros)
qed simp

lemma aggregate_window:
  "window_by (\<lambda>_. True) (outcomes s) (outcomes (snd (svc_get_aggregate_failure_evidence E b f s)))"
  by (simp add: svc_get_aggregate_failure_evidence_def svc_finish_aggregate_def svc_frame split_beta Let_def
      observe_rows_window split: sum.splits)

lemma svc_step_window: "window_by (\<lambda>_. True) (outcomes s) (outcomes (svc_step E x s))"
  by (cases x) (auto simp: svc_frame aggregate_window intro: window_by_mono [OF should_allow_window]
     window_by_mono [OF should_allow_with_state_window] window_by_mono [OF record_failure_window]
     window_by_mono [OF record_success_window] window_by_mono [OF operator_window(1)]
     window_by_mono [OF operator_window(2)] window_by_mono [OF operator_window(3)]
     window_by_mono [OF operator_window(4)] window_by_mono [OF reset_window])

lemma svc_inv_step: "svc_inv s \<Longrightarrow> svc_inv (svc_step E x s)"
  using svc_step_window [of s E x] repo_inv_svc_step [of s E x] ow_inv_run
  by (auto simp: svc_inv_def window_by_def)

lemma svc_inv_run: "svc_inv s \<Longrightarrow> svc_inv (svc_run xs s)"
  by (induction xs arbitrary: s) (auto simp: svc_inv_step)

lemma svc_inv_new: "svc_inv (new_service p c)"
  by (simp add: svc_inv_def new_service_def repo_inv_empty)

section \<open>The event trace\<close>

fun event_target :: "event_type \<Rightarrow> cb_state" where
  "event_target CIRCUIT_BREAKER_OPENED = OPEN"
| "event_target CIRCUIT_BREAKER_HALF_OPENED = HALF_OPEN"
| "event_target CIRCUIT_BREAKER_CLOSED = CLOSED"

text \<open>The transitions a list of events reports for a name.\<close>

definition edges :: "string \<Rightarrow> cb_event list \<Rightarrow> (cb_state \<times> cb_state) list" where
  "edges sn evs = map (\<lambda>e. (ev_previous_state e, event_target (ev_type e)))
                      (filter (\<lambda>e. ev_service e = sn) evs)"

text \<open>The events sent between two states of the service lead a name from its state in the one to its
  state in the other.\<close>

definition traced :: "string \<Rightarrow> svc \<Rightarrow> svc \<Rightarrow> bool" where
  "traced sn s s' \<longleftrightarrow> (\<exists>evs. bus s' = bus s @ evs
     \<and> path_from (state_of (repository s) sn) (edges sn evs) (state_of (repository s') sn))"

lemma edges_append [simp]: "edges sn (xs @ ys) = edges sn xs @ edges sn ys"
  by (simp add: edges_def)

lemma edges_Nil [simp]: "edges sn [] = []"
  by (simp add: edges_def)

lemma edges_Cons [simp]:
  "edges sn (e # es) = (if ev_service e = sn then [(ev_previous_state e, event_target (ev_type e))] else []) @ edges sn es"
  by (simp add: edges_def)

lemma traced_refl [simp]: "traced sn s s"
  by (simp add: traced_def)

lemma traced_trans: "traced sn s s1 \<Longrightarrow> traced sn s1 s2 \<Longrightarrow> traced sn s s2"
  unfolding traced_def by (metis append.assoc edges_append path_from_append)

lemma state_of_get_or_create [simp]: "state_of (snd (repo_get_or_create now sn R)) n = state_of R n"
  by (simp add: repo_rows)

lemma state_get_or_create [simp]: "state (fst (repo_get_or_create now sn R)) = state_of R sn"
  by (simp add: repo_rows entry_views)

lemma state_of_acquire:
  "let ((ok, prev, new), R') = repo_try_acquire_half_open_slot now sn k stuck R
   in prev = state_of R sn \<and> new = state_of R' sn \<and> (prev = new \<or> prev = OPEN \<and> new = HALF_OPEN)
      \<and> (n \<noteq> sn \<longrightarrow> state_of R' n = state_of R n)"
  by (auto simp: repo_try_acquire_half_open_slot_def repo_rows entry_views Let_def)

lemma admission_traced: "traced n s (snd (svc_evaluate_admission E sn cfg s))"
  using state_of_acquire [of "at_time E" sn "half_open_max_calls cfg" "half_open_stuck_timeout_seconds cfg"
    "snd (repo_get_or_create (at_time E) sn (repository s))" n]
  unfolding svc_evaluate_admission_def svc_trial_admission_def svc_get_or_create_state_def traced_def
  by (auto simp: svc_frame svc_helpers split_beta Let_def svc_half_opened_event_def split: option.splits)


lemma should_allow_traced:
  "traced n s (snd (svc_should_allow E sn s))" "traced n s (snd (svc_should_allow_with_state E sn s))"
  using admission_traced [of n "snd (svc_get_effective_config E sn s)" E sn "fst (svc_get_effective_config E sn s)"]
  by (simp_all add: svc_should_allow_def svc_should_allow_with_state_def svc_get_or_create_state_def traced_def
      svc_frame split_beta Let_def)

lemma state_of_trip:
  "let (a, R') = repo_trip_to_open now sn k R
   in (did_open a \<longrightarrow> state_of R sn = CLOSED \<and> state_of R' sn = OPEN)
      \<and> (\<not> did_open a \<longrightarrow> state_of R' sn = state_of R sn) \<and> (n \<noteq> sn \<longrightarrow> state_of R' n = state_of R n)
      \<and> (state (oa_state a) = PINNED_TOKEN \<longrightarrow> \<not> did_open a)"
  by (auto simp: repo_trip_to_open_def repo_rows entry_views Let_def pinned_trip_attempt_def)

lemma trip_traced: "traced n s (snd (svc_trip_circuit_open E sn r ctx cfg a b tr s))"
  using state_of_trip [of "at_time E" sn "failure_count r" "repository s" n]
  unfolding svc_trip_circuit_open_def traced_def
  by (auto simp: svc_frame svc_helpers split_beta Let_def)

lemma state_of_record_failure [simp]:
  "state_of (snd (repo_record_failure now sn R)) n = state_of R n"
  "state (fst (repo_record_failure now sn R)) = state_of R sn"
  by (simp_all add: repo_record_failure_def repo_rows entry_views Let_def)

lemma traced_quiet: "bus s1 = bus s \<Longrightarrow> (\<And>n. state_of (repository s1) n = state_of (repository s) n) \<Longrightarrow> traced n s1 s2 \<Longrightarrow> traced n s s2"
  by (simp add: traced_def)

lemma count_failure_traced: "traced n s (svc_count_failure E sn ctx s)"
  unfolding svc_count_failure_def
  by (auto simp: split_beta Let_def intro!: traced_quiet [OF _ _ trip_traced])
    (simp_all add: traced_def svc_frame svc_helpers)

lemma state_of_reopen:
  "let (a, R') = repo_record_failure_with_open_check now sn R
   in (did_open a \<longrightarrow> state_of R sn = HALF_OPEN \<and> state_of R' sn = OPEN)
      \<and> (\<not> did_open a \<longrightarrow> state_of R' sn = state_of R sn) \<and> (n \<noteq> sn \<longrightarrow> state_of R' n = state_of R n)"
  by (auto simp: repo_record_failure_with_open_check_def repo_rows entry_views Let_def)

lemma reopen_traced: "traced n s (svc_reopen E sn s)"
  using state_of_reopen [of "at_time E" sn "repository s" n]
  unfolding svc_reopen_def traced_def by (auto simp: svc_frame svc_helpers split_beta Let_def)

lemma record_failure_traced: "traced n s (svc_record_failure E sn ctx s)"
  unfolding svc_record_failure_def svc_get_or_create_state_def
  by (auto simp: split_beta Let_def intro!: traced_quiet [OF _ _ reopen_traced] traced_quiet [OF _ _ count_failure_traced])
    (simp_all add: traced_def svc_frame svc_helpers)

lemma state_of_close:
  "let (a, R') = repo_record_success_with_close_check now sn k R
   in (did_close a \<longrightarrow> state_of R sn = HALF_OPEN \<and> state_of R' sn = CLOSED)
      \<and> (\<not> did_close a \<longrightarrow> state_of R' sn = state_of R sn) \<and> (n \<noteq> sn \<longrightarrow> state_of R' n = state_of R n)"
  by (auto simp: repo_record_success_with_close_check_def repo_rows entry_views Let_def)

lemma trial_success_traced: "traced n s (svc_trial_success E sn cfg s)"
  using state_of_close [of "at_time E" sn "success_threshold cfg" "repository s" n]
  unfolding svc_trial_success_def traced_def by (auto simp: svc_frame svc_helpers split_beta Let_def)

lemma state_of_consecutive_reset:
  assumes "repo_inv R"
  shows "state_of (snd (repo_update_state now sn consecutive_reset R)) n = state_of R n"
proof (cases "n = sn")
  case True
  then show ?thesis using automatic_update_state [OF assms, of consecutive_reset now sn]
    by (simp add: consecutive_reset_def update_to_def)
qed (use state_of_frame [of "Update_State sn consecutive_reset" sn n now R] in simp)

lemma count_success_traced:
  assumes "repo_inv (repository s)"
  shows "traced n s (svc_count_success E sn cfg ep r s)"
  using state_of_consecutive_reset [OF assms]
  by (simp add: svc_count_success_def traced_def svc_frame svc_helpers Let_def)

lemma repo_inv_get_or_create: "repo_inv R \<Longrightarrow> repo_inv (snd (repo_get_or_create now sn R))"
  by (simp add: repo_rows repo_inv_with_entry)

lemma slow_success_traced:
  assumes "repo_inv (repository s)"
  shows "traced n s (svc_slow_success E sn cfg s)"
  using repo_inv_get_or_create [OF assms]
  unfolding svc_slow_success_def svc_get_or_create_state_def
  by (auto simp: split_beta Let_def svc_frame svc_helpers
      intro!: traced_quiet [OF _ _ trial_success_traced] traced_quiet [OF _ _ count_success_traced])
    (simp_all add: traced_def svc_frame svc_helpers)

lemma record_success_traced:
  assumes "repo_inv (repository s)"
  shows "traced n s (svc_record_success E sn h e s)"
  using assms unfolding svc_record_success_def
  by (auto simp: split_beta Let_def svc_frame split: option.splits intro!: traced_quiet [OF _ _ slow_success_traced])
    (simp_all add: traced_def svc_frame)

lemma state_of_reset_half_open [simp]: "state_of (repo_reset_half_open_count now sn R) n = state_of R n"
  by (auto simp: repo_reset_half_open_count_def repo_rows state_of_def split: option.splits)

lemma state_of_clear_manual [simp]: "state_of (snd (repo_clear_manual_control now sn b R)) n = state_of R n"
  by (auto simp: repo_clear_manual_control_def repo_rows state_of_def split: option.splits)

lemma force_results:
  "fst (repo_atomic_force_open now sn why i ttl R) = (True, state_of R sn, OPEN)"
  "fst (repo_atomic_force_close now sn why i ttl R) = (True, state_of R sn, CLOSED)"
  "state_of (snd (repo_atomic_force_open now sn why i ttl R)) n = (if n = sn then OPEN else state_of R n)"
  "state_of (snd (repo_atomic_force_close now sn why i ttl R)) n = (if n = sn then CLOSED else state_of R n)"
  by (simp_all add: repo_atomic_force_open_def repo_atomic_force_close_def repo_rows entry_views Let_def)

lemma force_open_traced: "traced n s (snd (svc_force_open E sn why ov ttl s))"
  unfolding svc_force_open_def check_kill_switch_def traced_def
  by (auto simp: svc_frame svc_helpers split_beta Let_def force_results manual_event_def split: option.splits)

lemma force_close_traced: "traced n s (snd (svc_force_close E sn why rp ov ttl s))"
  unfolding svc_force_close_def handle_force_close_success_def check_kill_switch_def traced_def
  by (auto simp: svc_frame svc_helpers split_beta Let_def force_results manual_event_def split: option.splits)

lemma reset_traced: "traced n s (snd (svc_reset E sn i why s))"
proof (cases "row_of (repository s) sn")
  case (Some e)
  then show ?thesis unfolding traced_def
    by (auto simp: svc_reset_Some [OF Some] manual_event_def repo_rows initial_row_def state_of_def)
qed (simp add: svc_reset_None)

lemma state_of_set_manual:
  "row_of R sn = Some r \<Longrightarrow> state_of (snd (repo_set_manual_control now sn (state r) i why t R)) n = state_of R n"
  by (auto simp: repo_set_manual_control_def repo_rows Let_def state_of_def)

lemma extend_traced: "traced n s (snd (svc_extend_manual_override E sn ttl i why s))"
  unfolding svc_extend_manual_override_def repo_get_by_service_name_def traced_def
  by (auto simp: svc_frame svc_helpers Let_def state_of_set_manual split: option.splits ttl_arg.splits)

lemma manual_control_traced: "traced n s (snd (svc_manual_control E sn act why who s))"
  unfolding svc_manual_control_def svc_get_or_create_state_def
  by (auto simp: split_beta Let_def svc_frame
      intro!: traced_quiet [OF _ _ force_open_traced] traced_quiet [OF _ _ force_close_traced])
    (simp_all add: traced_def svc_frame)

lemma expire_rows_state [simp]: "state_of (repository (snd (expire_rows E rs s))) n = state_of (repository s) n"
  by (induction rs arbitrary: s) (simp_all add: split_beta Let_def expire_one_def svc_frame split: option.splits)

lemma svc_step_traced:
  assumes "repo_inv (repository s)" and "x \<noteq> Recovery_Sweep"
  shows "traced n s (svc_step E x s)"
  using assms
  by (cases x) (simp_all add: should_allow_traced record_failure_traced record_success_traced
      force_open_traced force_close_traced reset_traced extend_traced manual_control_traced,
      simp_all add: traced_def svc_frame svc_check_and_expire_manual_overrides_def)

lemma svc_run_traced:
  assumes "svc_inv s" and "\<forall>(E, x) \<in> set xs. x \<noteq> Recovery_Sweep"
  shows "traced n s (svc_run xs s)"
  using assms
proof (induction xs arbitrary: s)
  case (Cons y xs)
  obtain E x where y: "y = (E, x)" by fastforce
  have "traced n s (svc_step E x s)"
    using Cons.prems by (auto simp: y svc_inv_def intro: svc_step_traced)
  from traced_trans [OF this Cons.IH [OF svc_inv_step [OF Cons.prems(1)]]] Cons.prems(2) show ?case
    by (simp add: y)
qed simp

text \<open>No call changes the configuration.\<close>

lemma config_frames [svc_frame]:
  "svc_config (snd (svc_get_effective_config E sn s)) = svc_config s"
  "svc_config (snd (on_repo f s)) = svc_config s"
  by (simp_all add: svc_config_def svc_frame split: option.splits)

definition setup_of :: "svc \<Rightarrow> cb_config \<times> (string \<Rightarrow> bool option) list" where
  "setup_of s = (svc_config s, downstream_checkers s)"

lemma setup_helpers [svc_frame]:
  "setup_of (on_window f s) = setup_of s" "setup_of (observe sn st e s) = setup_of s"
  "setup_of (emit_event ev s) = setup_of s" "setup_of (log_audit sn a b y s) = setup_of s"
  "setup_of (record_blocked sn z s) = setup_of s" "setup_of (on_state_changed sn a b s) = setup_of s"
  "setup_of (svc_apply_burn_rate_multiplier sn c s) = setup_of s"
  "setup_of (svc_log_circuit_open_audit sn p t s) = setup_of s"
  "setup_of (s\<lparr>outcomes := w\<rparr>) = setup_of s" "setup_of (s\<lparr>repository := R\<rparr>) = setup_of s"
  "setup_of (s\<lparr>kill_switch_overrides := k\<rparr>) = setup_of s" "setup_of (s\<lparr>replay_dispatches := d\<rparr>) = setup_of s"
  "setup_of (snd (on_repo g s)) = setup_of s"
  by (simp_all add: setup_of_def svc_helpers svc_config_def on_repo_def split_beta Let_def split: option.splits)

lemma setup_config [svc_frame]: "setup_of (snd (svc_get_effective_config E sn s)) = setup_of s"
  by (simp add: setup_of_def svc_frame)

lemma setup_rejection [svc_frame]: "setup_of (svc_record_rejection E sn r s) = setup_of s"
  by (simp add: svc_record_rejection_def svc_frame split_beta Let_def)

lemma setup_admission [svc_frame]:
  "setup_of (snd (svc_trial_admission E sn cfg r s)) = setup_of s"
  "setup_of (snd (svc_evaluate_admission E sn cfg s)) = setup_of s"
  unfolding svc_evaluate_admission_def svc_trial_admission_def svc_get_or_create_state_def
  by (simp_all add: svc_frame split_beta Let_def split: option.splits)

lemma setup_trip [svc_frame]: "setup_of (snd (svc_trip_circuit_open E sn r ctx cfg a b tr s)) = setup_of s"
  by (simp add: svc_trip_circuit_open_def svc_frame split_beta Let_def)

lemma setup_reopen [svc_frame]: "setup_of (svc_reopen E sn s) = setup_of s"
  by (simp add: svc_reopen_def svc_frame split_beta Let_def)

lemma setup_count_failure [svc_frame]: "setup_of (svc_count_failure E sn ctx s) = setup_of s"
  by (simp add: svc_count_failure_def svc_frame split_beta Let_def)

lemma setup_failure [svc_frame]: "setup_of (svc_record_failure E sn ctx s) = setup_of s"
  by (simp add: svc_record_failure_def svc_get_or_create_state_def svc_frame split_beta Let_def)

lemma setup_trial_success [svc_frame]: "setup_of (svc_trial_success E sn cfg s) = setup_of s"
  by (simp add: svc_trial_success_def svc_frame split_beta Let_def)

lemma setup_slow_success [svc_frame]: "setup_of (svc_slow_success E sn cfg s) = setup_of s"
  by (simp add: svc_slow_success_def svc_count_success_def svc_get_or_create_state_def svc_frame split_beta Let_def)

lemma setup_success [svc_frame]: "setup_of (svc_record_success E sn h e s) = setup_of s"
  by (simp add: svc_record_success_def svc_frame split_beta Let_def split: option.splits)

lemma setup_force [svc_frame]:
  "setup_of (snd (svc_force_open E sn why ov ttl s)) = setup_of s"
  "setup_of (snd (svc_force_close E sn why rp ov ttl s)) = setup_of s"
  by (simp_all add: svc_force_open_def svc_force_close_def check_kill_switch_def handle_force_close_success_def
      svc_frame split_beta Let_def split: option.splits)

lemma setup_operator [svc_frame]:
  "setup_of (snd (svc_extend_manual_override E sn ttl i why s)) = setup_of s"
  "setup_of (snd (svc_reset E sn i why s)) = setup_of s"
  "setup_of (snd (svc_manual_control E sn act why who s)) = setup_of s"
  by (simp_all add: svc_extend_manual_override_def svc_reset_def svc_manual_control_def svc_get_or_create_state_def
      svc_frame split_beta Let_def split: option.splits ttl_arg.splits bool.splits)

lemma setup_sweeps [svc_frame]:
  "setup_of (svc_sweep_write E rs s) = setup_of s" "setup_of (snd (svc_select_due E rs s)) = setup_of s"
  "setup_of (snd (expire_rows E rs s)) = setup_of s" "setup_of (observe_rows ep rs s) = setup_of s"
  by (induction rs arbitrary: s)
    (simp_all add: svc_frame expire_one_def split_beta Let_def split: option.splits)

lemma setup_aggregate [svc_frame]: "setup_of (snd (svc_get_aggregate_failure_evidence E b f s)) = setup_of s"
proof -
  have "setup_of (snd (svc_sum_names E p l c sns (a, s))) = setup_of s" for p l c sns a s
    by (induction sns arbitrary: a s)
      (simp_all add: svc_name_evidence_def svc_frame split_beta Let_def split: option.splits)
  then show ?thesis
    by (simp add: svc_get_aggregate_failure_evidence_def svc_finish_aggregate_def svc_frame split_beta Let_def
        split: sum.splits)
qed

lemma setup_step [simp]: "setup_of (svc_step E x s) = setup_of s"
  by (cases x) (simp_all add: svc_frame svc_should_allow_def svc_should_allow_with_state_def
      svc_get_or_create_state_def svc_check_recovery_transitions_def svc_sweep_due_def
      svc_check_and_expire_manual_overrides_def split_beta Let_def)

lemma setup_run [simp]: "setup_of (svc_run xs s) = setup_of s"
  by (induction xs arbitrary: s) auto

lemma config_run [simp]: "svc_config (svc_run xs s) = svc_config s" "downstream_checkers (svc_run xs s) = downstream_checkers s"
  using setup_run [of xs s] by (simp_all add: setup_of_def)

text \<open>An environment with no emergency and no kill switch.\<close>

definition calm :: "instant \<Rightarrow> env" where
  "calm t = \<lparr>at_time = t, emergency = No_Emergency_Manager, system_enabled = None\<rparr>"

lemma calm_simps [simp]:
  "at_time (calm t) = t" "emergency (calm t) = No_Emergency_Manager" "system_enabled (calm t) = None"
  by (simp_all add: calm_def)

end
