(* ===== verification/CB_Properties.thy ===== *)
theory CB_Properties
  imports CB_Run
begin

text \<open>
  What the service guarantees over whole runs of calls: the event bus tells every state change, a
  freeze holds every state, an operator's block holds until it lapses and then lifts.
\<close>

section \<open>Events\<close>

text \<open>(C5) The event bus is a complete record: replaying the events sent for a name, from CLOSED,
  leads through exactly the states its breaker went through and ends in the state it has, whatever
  admissions, recorded outcomes, operator actions and expiry sweeps ran and in whatever order.  (The
  periodic recovery sweep is the one writer that sends no event.)\<close>

theorem events_trace_states:
  assumes "\<forall>(E, x) \<in> set xs. x \<noteq> Recovery_Sweep"
  shows "path_from CLOSED (edges n (bus (svc_run xs (new_service p c))))
           (state_of (repository (svc_run xs (new_service p c))) n)"
  using svc_run_traced [OF svc_inv_new assms, of n p c]
  by (simp add: traced_def) (simp add: new_service_def state_of_def empty_repo_def)

theorem events_trace_states_witness:
  "path_from CLOSED (edges ''a'' (bus (svc_run
       [(calm 0, Operator_Open ''a'' [] False (TTL_Int 5)),
        (calm 9, Operator_Close ''a'' [] False False TTL_None)]
       (new_service None default_config))))
     (state_of (repository (svc_run
       [(calm 0, Operator_Open ''a'' [] False (TTL_Int 5)),
        (calm 9, Operator_Close ''a'' [] False False TTL_None)]
       (new_service None default_config))) ''a'')"
  by (rule events_trace_states) simp

section \<open>Freeze\<close>

lemma frozen_admission:
  assumes "is_lockdown (emergency E)"
  shows "state_of (repository (snd (svc_evaluate_admission E sn cfg s))) n = state_of (repository s) n"
proof -
  obtain why where "svc_admission_refusal_reason E sn (fst (repo_get_or_create (at_time E) sn (repository s))) cfg
      = Some why"
    using assms by (fastforce simp: svc_admission_refusal_reason_def svc_auto_transition_allowed_def)
  then show ?thesis
    by (simp add: svc_evaluate_admission_def svc_get_or_create_state_def svc_frame svc_helpers split_beta Let_def)
qed

lemma frozen_failure:
  assumes "is_lockdown (emergency E)"
  shows "state_of (repository (svc_record_failure E sn ctx s)) n = state_of (repository s) n"
  using assms
  by (simp add: svc_record_failure_def svc_reopen_def svc_count_failure_def svc_get_or_create_state_def
      svc_auto_transition_allowed_def svc_frame svc_helpers split_beta Let_def)

lemma frozen_success:
  assumes "is_lockdown (emergency E)" and "repo_inv (repository s)"
  shows "state_of (repository (svc_record_success E sn h e s)) n = state_of (repository s) n"
proof -
  have "state_of (repository (svc_slow_success E sn cfg s)) n = state_of (repository s) n"
    if "repo_inv (repository s)" for cfg s
    using assms(1) state_of_consecutive_reset [OF repo_inv_get_or_create [OF that]]
    by (simp add: svc_slow_success_def svc_trial_success_def svc_count_success_def svc_get_or_create_state_def
        svc_auto_transition_allowed_def svc_frame svc_helpers split_beta Let_def)
  then show ?thesis using assms(2)
    by (simp add: svc_record_success_def svc_frame split_beta Let_def split: option.splits)
qed

lemma frozen_step:
  assumes "is_lockdown (emergency E)" and "automatic_call x" and "repo_inv (repository s)"
  shows "state_of (repository (svc_step E x s)) n = state_of (repository s) n"
  using assms
  by (cases x) (simp_all add: frozen_failure frozen_success svc_should_allow_def svc_should_allow_with_state_def
      svc_check_recovery_transitions_def svc_sweep_due_def svc_check_and_expire_manual_overrides_def
      svc_get_or_create_state_def svc_auto_transition_allowed_def frozen_admission svc_frame split_beta Let_def)

text \<open>(C6) While the emergency level is LEVEL_3, no breaker changes its state, whatever admissions,
  outcomes and sweeps run and in whatever order: an OPEN one stays OPEN, a CLOSED one stays CLOSED.\<close>

theorem freeze_holds_every_state:
  assumes "svc_inv s" and "\<forall>(E, x) \<in> set xs. is_lockdown (emergency E) \<and> automatic_call x"
  shows "state_of (repository (svc_run xs s)) n = state_of (repository s) n"
  using assms
proof (induction xs arbitrary: s)
  case (Cons y xs)
  obtain E x where y: "y = (E, x)" by fastforce
  then show ?case
    using Cons.IH [OF svc_inv_step [OF Cons.prems(1), of E x]] Cons.prems frozen_step [of E x s n]
    by (auto simp: svc_inv_def)
qed simp

theorem freeze_holds_every_state_witness:
  "let s = svc_run [(calm 0,
                     Operator_Open ''a'' [] False (TTL_Int 5))] (new_service None default_config);
       L = (calm 900000000)\<lparr>emergency := Level_Is LEVEL_3\<rparr>
   in is_lockdown (emergency L)
      \<and> state_of (repository (svc_run [(L, Should_Allow ''a''), (L, Recovery_Sweep), (L, Note_Failure ''b'' None)] s)) ''a''
          = state_of (repository s) ''a''"
  using freeze_holds_every_state [of "svc_run [(calm 0,
        Operator_Open ''a'' [] False (TTL_Int 5))] (new_service None default_config)"
      "[((calm 900000000)\<lparr>emergency := Level_Is LEVEL_3\<rparr>, Should_Allow ''a''),
        ((calm 900000000)\<lparr>emergency := Level_Is LEVEL_3\<rparr>, Recovery_Sweep),
        ((calm 900000000)\<lparr>emergency := Level_Is LEVEL_3\<rparr>, Note_Failure ''b'' None)]" "''a''"]
    svc_inv_run [OF svc_inv_new]
  by (simp add: Let_def lockdown_iff del: svc_run.simps)

section \<open>Operator blocks\<close>

lemma get_or_create_present: "row_of R sn = Some r \<Longrightarrow> repo_get_or_create now sn R = (r, R)"
  by (simp add: repo_get_or_create_def)

lemma blocked_admission:
  assumes "row_of (repository s) sn = Some r" and "is_operator_block_in_force (at_time E) r"
  shows "repository (snd (svc_evaluate_admission E sn cfg s)) = repository s
       \<and> \<not> allowed (fst (svc_evaluate_admission E sn cfg s))"
  using assms
  by (auto simp: svc_evaluate_admission_def svc_get_or_create_state_def get_or_create_present
      svc_admission_refusal_reason_def is_operator_block_in_force_def svc_frame svc_helpers split_beta Let_def)

lemma blocked_recording:
  assumes "row_of (repository s) sn = Some r" and "is_pin_active (at_time E) r" and "state r = OPEN"
  shows "repository (svc_record_failure E sn ctx s) = repository s"
    and "repository (svc_record_success E sn h e s) = repository s"
  using assms
  by (auto simp: svc_record_failure_def svc_record_success_def svc_slow_success_def svc_get_or_create_state_def
      get_or_create_present svc_frame svc_helpers split_beta Let_def split: option.splits)

lemma acts_frame:
  assumes "acts_by P R R'" and "\<And>x. P x \<Longrightarrow> op_name x = Some sn'" and "sn' \<noteq> sn"
  shows "row_of R' sn = row_of R sn"
proof -
  obtain xs where xs: "\<forall>(t, x) \<in> set xs. P x" "R' = repo_run xs R" using assms(1) by (auto simp: acts_by_def)
  have "row_of (repo_run xs R) sn = row_of R sn"
    using xs(1) assms(2,3)
    by (induction xs arbitrary: R) (auto simp: repo_step_frame)
  with xs(2) show ?thesis by simp
qed

lemma dict_values: "dict_wf d \<Longrightarrow> v \<in> set (map snd d) \<longleftrightarrow> (\<exists>k. dict_get d k = Some v)"
  by (force simp: dict_wf_mem [symmetric])

lemma stored_rows:
  assumes "repo_inv R" and "r \<in> set (repo_get_all_states R)"
  shows "row_of R (service_name r) = Some r"
proof -
  obtain k where "row_of R k = Some r"
    using assms dict_values [of "storage R" r] by (auto simp: repo_inv_def repo_get_all_states_def)
  with repo_inv_row [OF assms(1)] show ?thesis by (auto simp: row_ok_def)
qed

lemma sweep_write_frame:
  assumes "\<forall>r \<in> set rs. service_name r \<noteq> sn"
  shows "row_of (repository (svc_sweep_write E rs s)) sn = row_of (repository s) sn"
  using assms
proof (induction rs arbitrary: s)
  case (Cons r rs)
  have "row_of (snd (repo_update_state (at_time E) (service_name r) u (repository s))) sn = row_of (repository s) sn" for u
    using repo_step_frame [of "Update_State (service_name r) u" "service_name r" sn "at_time E"] Cons.prems by simp
  with Cons show ?case by (simp add: svc_frame)
qed simp

lemma select_due_subset: "set (fst (svc_select_due E rs s)) \<subseteq> set rs"
  by (induction rs arbitrary: s) (auto simp: split_beta Let_def split: option.splits)

lemma sweep_due_row:
  assumes "repo_inv (repository s)" and "r \<in> set (fst (svc_sweep_due E s))"
  shows "row_of (repository s) (service_name r) = Some r \<and> state r = OPEN \<and> \<not> manually_controlled r"
  using assms(2) select_due_subset stored_rows [OF assms(1)] unfolding svc_sweep_due_def by fastforce

lemma recovery_sweep_skips:
  assumes "repo_inv (repository s)" and "row_of (repository s) sn = Some r"
    and "state r \<noteq> OPEN \<or> manually_controlled r"
  shows "row_of (repository (snd (svc_check_recovery_transitions E s))) sn = Some r"
proof -
  have "\<forall>r' \<in> set (fst (svc_sweep_due E s)). service_name r' \<noteq> sn"
    using sweep_due_row [OF assms(1)] assms(2,3) by fastforce
  from sweep_write_frame [OF this, of E "snd (svc_sweep_due E s)"] assms(2) show ?thesis
    by (simp add: svc_check_recovery_transitions_def svc_sweep_due_def svc_frame split_beta Let_def)
qed

lemma blocked_should_allow:
  assumes "row_of (repository s) sn = Some r" and "is_operator_block_in_force (at_time E) r"
  shows "repository (snd (svc_should_allow E sn s)) = repository s"
    and "repository (snd (svc_should_allow_with_state E sn s)) = repository s"
    and "svc_is_enabled s \<Longrightarrow> \<not> fst (svc_should_allow E sn s)"
  using assms blocked_admission [of "snd (svc_get_effective_config E sn s)" sn r E "fst (svc_get_effective_config E sn s)"]
  by (simp_all add: svc_should_allow_def svc_should_allow_with_state_def svc_get_or_create_state_def
      get_or_create_present svc_frame split_beta Let_def)

lemma expire_one_frame:
  assumes "service_name r \<noteq> sn" and "repo_inv (repository s)"
  shows "row_of (repository (snd (expire_one E r s))) sn = row_of (repository s) sn"
proof (cases "row_of (repository s) (service_name r)")
  case (Some fresh)
  then have n: "service_name fresh = service_name r" using repo_inv_row [OF assms(2)] by (simp add: row_ok_def)
  have "row_of (snd (repo_clear_manual_control (at_time E) (service_name r) True (repository s))) sn
      = row_of (repository s) sn"
    using repo_step_frame [of "Clear_Manual_Control (service_name r) True" "service_name r" sn "at_time E"] assms(1) by simp
  then show ?thesis by (simp add: expire_one_def repo_get_by_service_name_def svc_frame Some n)
qed (simp add: expire_one_def repo_get_by_service_name_def)

lemma expire_one_in_force:
  assumes "row_of (repository s) sn = Some r" and "is_pin_active (at_time E) r" and "service_name r' = sn"
    and "repo_inv (repository s)"
  shows "row_of (repository (snd (expire_one E r' s))) sn = Some r"
  using assms by (auto simp: expire_one_def repo_get_by_service_name_def split: option.splits)

lemma repo_inv_expire_one: "repo_inv (repository s) \<Longrightarrow> repo_inv (repository (snd (expire_one E r s)))"
  by (rule repo_inv_acts [OF expire_one_acts])

lemma expire_rows_in_force:
  assumes "row_of (repository s) sn = Some r" and "is_pin_active (at_time E) r" and "repo_inv (repository s)"
  shows "row_of (repository (snd (expire_rows E rs s))) sn = Some r"
  using assms
proof (induction rs arbitrary: s)
  case (Cons r' rs)
  have "row_of (repository (snd (expire_one E r' s))) sn = Some r"
    using expire_one_in_force [OF Cons.prems(1,2) _ Cons.prems(3), of r']
      expire_one_frame [OF _ Cons.prems(3), of r' sn E] Cons.prems(1) by (cases "service_name r' = sn") auto
  with Cons.IH [OF this Cons.prems(2) repo_inv_expire_one [OF Cons.prems(3)]] show ?case
    by (simp add: split_beta Let_def)
qed simp

text \<open>No automatic call changes a row an operator's block holds, whatever name the call is about.\<close>

lemma block_step:
  assumes "row_of (repository s) sn = Some r" and "state r = OPEN" and "is_pin_active (at_time E) r"
    and "automatic_call x" and inv: "repo_inv (repository s)"
  shows "row_of (repository (svc_step E x s)) sn = Some r"
proof -
  have mc: "manually_controlled r" using assms(3) by (simp add: pin_defs)
  then have block: "is_operator_block_in_force (at_time E) r" using assms(2,3) by (simp add: is_operator_block_in_force_def)
  have other: "row_of R' sn = Some r" if "acts_by (auto_on sn') (repository s) R'" and "sn' \<noteq> sn" for R' sn'
    using acts_frame [OF that(1) _ that(2)] assms(1) by auto
  show ?thesis
  proof (cases x)
    case (Should_Allow sn')
    then show ?thesis
      using other [OF should_allow_acts [of sn' s E]] blocked_should_allow [OF assms(1) block] assms(1)
      by (cases "sn' = sn") simp_all
  next
    case (Should_Allow_With_State sn')
    then show ?thesis
      using other [OF should_allow_with_state_acts [of sn' s E]] blocked_should_allow [OF assms(1) block] assms(1)
      by (cases "sn' = sn") simp_all
  next
    case (Note_Failure sn' ctx)
    then show ?thesis
      using other [OF record_failure_acts [OF inv, of sn' E ctx]] assms(1) blocked_recording(1) [OF assms(1,3,2)]
      by (cases "sn' = sn") simp_all
  next
    case (Note_Success sn' h e)
    then show ?thesis
      using other [OF record_success_acts [of sn' s E h e]] assms(1) blocked_recording(2) [OF assms(1,3,2)]
      by (cases "sn' = sn") simp_all
  next
    case Recovery_Sweep
    then show ?thesis using recovery_sweep_skips [OF inv assms(1)] mc by simp
  next
    case Expiry_Sweep
    then show ?thesis using expire_rows_in_force [OF assms(1,3) inv] by (simp add: svc_check_and_expire_manual_overrides_def)
  qed (use assms in \<open>simp_all add: svc_frame\<close>)
qed

lemma block_run:
  assumes "svc_inv s" and "row_of (repository s) sn = Some r" and "state r = OPEN"
    and "\<forall>(E, x) \<in> set xs. automatic_call x \<and> is_pin_active (at_time E) r"
  shows "row_of (repository (svc_run xs s)) sn = Some r"
  using assms
proof (induction xs arbitrary: s)
  case (Cons y xs)
  obtain E x where y: "y = (E, x)" by fastforce
  have "row_of (repository (svc_step E x s)) sn = Some r"
    using block_step [OF Cons.prems(2,3), of E x] Cons.prems(1,4) by (simp add: y svc_inv_def)
  from Cons.IH [OF svc_inv_step [OF Cons.prems(1)] this] Cons.prems(3,4) show ?case by (simp add: y)
qed simp

text \<open>The row a successful forced open leaves.\<close>

lemma force_open_row:
  assumes "res_success (fst (svc_force_open E sn why ov ttl s))"
  shows "\<exists>r. row_of (repository (snd (svc_force_open E sn why ov ttl s))) sn = Some r
           \<and> state r = OPEN \<and> manually_controlled r \<and> opened_at r = Some (at_time E)
           \<and> half_open_request_count r = 0
           \<and> manual_override_expires_at r = resolve_manual_override_expiry (at_time E) (Some (ttl_or_default ttl s))
           \<and> res_expires_at (fst (svc_force_open E sn why ov ttl s)) = manual_override_expires_at r"
proof (cases ttl)
  case TTL_Other
  then show ?thesis using assms by (simp add: svc_force_open_def cb_failed_def)
qed (use assms in \<open>auto simp: svc_force_open_def check_kill_switch_def cb_failed_def cb_succeeded_def split_beta Let_def
      svc_frame svc_helpers repo_atomic_force_open_def repo_reset_half_open_count_def repo_rows
      read_back_override_expiry_def repo_get_by_service_name_def svc_config_def split: if_splits option.splits\<close>)

lemma svc_inv_force_open: "svc_inv s \<Longrightarrow> svc_inv (snd (svc_force_open E sn why ov ttl s))"
  using svc_inv_step [of s E "Operator_Open sn why ov ttl"] by simp

text \<open>(C3) A block holds: after an operator forces a breaker open for \<open>n\<close> minutes, no admission,
  recorded outcome, recovery sweep or expiry sweep moves it before the \<open>n\<close> minutes are over, and
  every call that asks in that time is refused.\<close>

theorem operator_block_holds:
  assumes "svc_inv s" and "res_success (fst (svc_force_open E0 sn why ov (TTL_Int n) s))"
    and "\<forall>(E, x) \<in> set xs. automatic_call x \<and> at_time E < at_time E0 + minutes n"
  shows "state_of (repository (svc_run xs (snd (svc_force_open E0 sn why ov (TTL_Int n) s)))) sn = OPEN
    \<and> (svc_is_enabled s \<and> at_time E < at_time E0 + minutes n \<longrightarrow>
         \<not> fst (svc_should_allow E sn (svc_run xs (snd (svc_force_open E0 sn why ov (TTL_Int n) s)))))"
proof -
  let ?s = "snd (svc_force_open E0 sn why ov (TTL_Int n) s)"
  have n: "1 \<le> n" using assms(2) by (auto simp: svc_force_open_def cb_failed_def split: if_splits)
  obtain r where r: "row_of (repository ?s) sn = Some r" "state r = OPEN" "manually_controlled r"
      "manual_override_expires_at r = Some (at_time E0 + minutes n)"
    using force_open_row [OF assms(2)] n by (auto simp: resolve_manual_override_expiry_def)
  have active: "is_pin_active t r" if "t < at_time E0 + minutes n" for t
    using r that by (simp add: pin_defs)
  have "\<forall>(E, x) \<in> set xs. automatic_call x \<and> is_pin_active (at_time E) r" using assms(3) active by auto
  from block_run [OF svc_inv_force_open [OF assms(1)] r(1,2) this]
  have row: "row_of (repository (svc_run xs ?s)) sn = Some r" .
  have cfg: "svc_config ?s = svc_config s" using setup_force(1) [of E0 sn why ov "TTL_Int n" s] by (simp add: setup_of_def)
  have "\<not> fst (svc_should_allow E sn (svc_run xs ?s))"
    if "svc_is_enabled s" "at_time E < at_time E0 + minutes n"
    using blocked_should_allow(3) [OF row, of E] active [OF that(2)] r that(1) cfg
    by (simp add: is_operator_block_in_force_def svc_is_enabled_def)
  then show ?thesis using row r(2) by (simp add: state_of_def)
qed

theorem operator_block_holds_witness:
  "\<not> fst (svc_should_allow (calm 250000000) ''a'' (svc_run
        [(calm 100000000, Should_Allow ''a''), (calm 200000000, Recovery_Sweep), (calm 200000000, Note_Success ''a'' None None)]
        (snd (svc_force_open (calm 0) ''a'' [] False (TTL_Int 5) (new_service None default_config)))))"
  using operator_block_holds [OF svc_inv_new, of "calm 0" "''a''" "[]" False 5 None default_config
      "[(calm 100000000, Should_Allow ''a''), (calm 200000000, Recovery_Sweep), (calm 200000000, Note_Success ''a'' None None)]"
      "calm 250000000"]
  by (simp add: minutes_def seconds_def svc_is_enabled_def svc_config_def new_service_def default_config_def
     svc_force_open_def MAX_MANUAL_OVERRIDE_TTL_MINUTES_def check_kill_switch_def is_system_enabled_def
     repo_atomic_force_open_def split_beta Let_def svc_frame force_results cb_succeeded_def del: svc_run.simps)

section \<open>Lifetimes of overrides\<close>

text \<open>The row a successful forced close leaves.\<close>

lemma force_close_row:
  assumes "res_success (fst (svc_force_close E sn why rp ov ttl s))"
  shows "\<exists>r. row_of (repository (snd (svc_force_close E sn why rp ov ttl s))) sn = Some r
           \<and> state r = CLOSED \<and> manually_controlled r
           \<and> manual_override_expires_at r = resolve_manual_override_expiry (at_time E) (Some (ttl_or_default ttl s))
           \<and> res_expires_at (fst (svc_force_close E sn why rp ov ttl s)) = manual_override_expires_at r"
proof (cases ttl)
  case TTL_Other
  then show ?thesis using assms by (simp add: svc_force_close_def cb_failed_def)
qed (use assms in \<open>auto simp: svc_force_close_def check_kill_switch_def handle_force_close_success_def
      cb_failed_def cb_succeeded_def split_beta Let_def
      svc_frame svc_helpers repo_atomic_force_close_def repo_reset_half_open_count_def repo_rows
      read_back_override_expiry_def repo_get_by_service_name_def svc_config_def split: if_splits option.splits\<close>)

lemma ttl_in_range:
  assumes "reject_out_of_range_ttl sn ttl = None"
    and "1 \<le> manual_override_ttl_minutes (svc_config s)"
    and "manual_override_ttl_minutes (svc_config s) \<le> MAX_MANUAL_OVERRIDE_TTL_MINUTES"
  shows "1 \<le> ttl_or_default ttl s \<and> ttl_or_default ttl s \<le> MAX_MANUAL_OVERRIDE_TTL_MINUTES"
  using assms by (cases ttl) (auto split: if_splits)

lemma force_needs_ttl:
  "res_success (fst (svc_force_open E sn why ov ttl s)) \<Longrightarrow> reject_out_of_range_ttl sn ttl = None"
  "res_success (fst (svc_force_close E sn why rp ov ttl s)) \<Longrightarrow> reject_out_of_range_ttl sn ttl = None"
  by (cases ttl; auto simp: svc_force_open_def svc_force_close_def cb_failed_def split: if_splits)+

text \<open>(C9) Every override expires: with a configured default in its declared range, an override an
  operator creates, by forcing a breaker open or closed and with or without typing a lifetime, has
  an expiry in the future and at most 24 hours away, which is the one reported back; a lifetime
  outside the range is refused.\<close>

theorem every_override_expires:
  assumes "1 \<le> manual_override_ttl_minutes (svc_config s)"
    and "manual_override_ttl_minutes (svc_config s) \<le> MAX_MANUAL_OVERRIDE_TTL_MINUTES"
    and "x \<in> {svc_force_open E sn why ov ttl s, svc_force_close E sn why rp ov ttl s}"
    and "res_success (fst x)"
  shows "\<exists>r e. row_of (repository (snd x)) sn = Some r \<and> manual_override_expires_at r = Some e
           \<and> at_time E < e \<and> e \<le> at_time E + minutes MAX_MANUAL_OVERRIDE_TTL_MINUTES
           \<and> res_expires_at (fst x) = Some e \<and> is_pin_active (at_time E) r \<and> \<not> is_pin_active e r"
proof -
  have ok: "reject_out_of_range_ttl sn ttl = None"
    using assms(3,4) force_needs_ttl(1) [of E sn why ov ttl s] force_needs_ttl(2) [of E sn why rp ov ttl s]
    by auto
  let ?n = "ttl_or_default ttl s"
  from ttl_in_range [OF ok assms(1,2)] have n: "1 \<le> ?n" "?n \<le> MAX_MANUAL_OVERRIDE_TTL_MINUTES" by simp_all
  then have e: "resolve_manual_override_expiry (at_time E) (Some ?n) = Some (at_time E + minutes ?n)"
    by (simp add: resolve_manual_override_expiry_def)
  have m: "minutes ?n \<le> minutes MAX_MANUAL_OVERRIDE_TTL_MINUTES" using n(2) by (simp add: minutes_def)
  obtain r where "row_of (repository (snd x)) sn = Some r" "manually_controlled r"
      "manual_override_expires_at r = Some (at_time E + minutes ?n)" "res_expires_at (fst x) = Some (at_time E + minutes ?n)"
    using assms(3,4) force_open_row [of E sn why ov ttl s] force_close_row [of E sn why rp ov ttl s] e
    by auto
  then show ?thesis using n m by (auto simp: pin_defs)
qed

theorem every_override_expires_witness:
  "\<exists>r e. row_of (repository (snd (svc_force_close (calm 7) ''a'' [] False False TTL_None (new_service None default_config)))) ''a'' = Some r
     \<and> manual_override_expires_at r = Some e \<and> 7 < e"
proof -
  let ?x = "svc_force_close (calm 7) ''a'' [] False False TTL_None (new_service None default_config)"
  have "res_success (fst ?x)"
    by (simp add: svc_force_close_def handle_force_close_success_def check_kill_switch_def is_system_enabled_def
        split_beta Let_def svc_frame force_results cb_succeeded_def)
  then show ?thesis
    using every_override_expires [of "new_service None default_config" ?x "calm 7" "''a''" "[]" False TTL_None False]
    by (auto simp: svc_config_def new_service_def default_config_def MAX_MANUAL_OVERRIDE_TTL_MINUTES_def)
qed

text \<open>An admission that reaches an OPEN row past its gates.\<close>

lemma trial_admission_open:
  assumes "row_of (repository s) sn = Some r" and "state r = OPEN"
    and "svc_admission_refusal_reason E sn r (fst (svc_get_effective_config E sn s)) = None"
    and "svc_is_enabled s" and "\<not> list_ex (\<lambda>c. c sn = Some False) (downstream_checkers s)"
  shows "fst (svc_should_allow E sn s)"
    and "state_of (repository (snd (svc_should_allow E sn s))) sn = HALF_OPEN"
  using assms
  by (simp_all add: svc_should_allow_def svc_evaluate_admission_def svc_trial_admission_def svc_get_or_create_state_def
      get_or_create_present repo_try_acquire_half_open_slot_def repo_rows svc_frame svc_helpers split_beta Let_def)



lemma half_open_limit_config [simp]:
  "half_open_max_calls (fst (svc_get_effective_config E sn s)) = half_open_max_calls (svc_config s)"
  "half_open_stuck_timeout_seconds (fst (svc_get_effective_config E sn s)) = half_open_stuck_timeout_seconds (svc_config s)"
  "success_threshold (fst (svc_get_effective_config E sn s)) = success_threshold (svc_config s)"
  "sliding_window_size (fst (svc_get_effective_config E sn s)) = sliding_window_size (svc_config s)"
  by (simp_all add: svc_get_effective_config_def split: option.splits)

text \<open>An admission that finds a HALF_OPEN row with a free slot.\<close>

lemma trial_admission_half_open:
  assumes "row_of (repository s) sn = Some r" and "state r = HALF_OPEN" and "\<not> is_lockdown (emergency E)"
    and "svc_is_enabled s" and "\<not> list_ex (\<lambda>c. c sn = Some False) (downstream_checkers s)"
    and "half_open_request_count r < half_open_max_calls (svc_config s)"
  shows "fst (svc_should_allow E sn s)"
  using assms
  by (simp add: svc_should_allow_def svc_evaluate_admission_def svc_trial_admission_def svc_get_or_create_state_def
      get_or_create_present repo_try_acquire_half_open_slot_def repo_rows svc_frame svc_helpers split_beta Let_def
      svc_admission_refusal_reason_def svc_auto_transition_allowed_def)

section \<open>The recovery sweep against a concurrent block\<close>

lemma sweep_write_row:
  assumes "row_of (repository s) sn = Some e"
  shows "\<exists>e'. row_of (repository (svc_sweep_write E rs s)) sn = Some e'
           \<and> state e' = (if sn \<in> service_name ` set rs then HALF_OPEN else state e)
           \<and> manually_controlled e' = manually_controlled e
           \<and> manual_override_expires_at e' = manual_override_expires_at e
           \<and> half_open_request_count e' = half_open_request_count e"
  using assms
proof (induction rs arbitrary: s e)
  case (Cons r rs)
  let ?u = "(update_to HALF_OPEN)\<lparr>u_success_count := Some 0\<rparr>"
  let ?s = "snd (on_repo (repo_update_state (at_time E) (service_name r) ?u) s)"
  let ?e = "if service_name r = sn then updated_row (at_time E) sn ?u e else e"
  have "row_of (repository ?s) sn = Some ?e"
    using Cons.prems
    by (auto simp: svc_frame repo_update_state_def update_to_def repo_rows split: option.splits)
  from Cons.IH [OF this] show ?case
    by (auto simp: updated_row_def update_to_def given_def split: if_splits)
qed simp

text \<open>(C35) The recovery sweep can undo a block.  It picks the rows that are due, and writes HALF_OPEN
  to each later without looking again: if an operator forces such a breaker open in between, the
  write leaves a row that is pinned and HALF_OPEN, and calls are admitted although the block is in
  force.\<close>

theorem sweep_admits_under_block:
  assumes "svc_inv s" and "sn \<in> service_name ` set (fst (svc_sweep_due E s))"
    and "res_success (fst (svc_force_open E0 sn why ov (TTL_Int n) (snd (svc_sweep_due E s))))"
    and "at_time E1 < at_time E0 + minutes n" and "\<not> is_lockdown (emergency E1)" and "svc_is_enabled s"
    and "\<not> list_ex (\<lambda>c. c sn = Some False) (downstream_checkers s)" and "1 \<le> half_open_max_calls (svc_config s)"
  shows "let s' = svc_sweep_write E (fst (svc_sweep_due E s))
                    (snd (svc_force_open E0 sn why ov (TTL_Int n) (snd (svc_sweep_due E s))))
         in (\<exists>r. row_of (repository s') sn = Some r \<and> is_pin_active (at_time E1) r \<and> state r = HALF_OPEN)
            \<and> fst (svc_should_allow E1 sn s')"
proof -
  let ?s = "snd (svc_force_open E0 sn why ov (TTL_Int n) (snd (svc_sweep_due E s)))"
  let ?s' = "svc_sweep_write E (fst (svc_sweep_due E s)) ?s"
  have n: "1 \<le> n" using assms(3) by (auto simp: svc_force_open_def cb_failed_def split: if_splits)
  obtain r where r: "row_of (repository ?s) sn = Some r" "manually_controlled r"
      "manual_override_expires_at r = Some (at_time E0 + minutes n)" "half_open_request_count r = 0"
    using force_open_row [OF assms(3)] n by (auto simp: resolve_manual_override_expiry_def)
  obtain r' where r': "row_of (repository ?s') sn = Some r'" "state r' = HALF_OPEN" "manually_controlled r'"
      "manual_override_expires_at r' = Some (at_time E0 + minutes n)" "half_open_request_count r' = 0"
    using sweep_write_row [OF r(1), of E "fst (svc_sweep_due E s)"] assms(2) r by auto
  have "setup_of ?s' = setup_of s" by (simp add: svc_frame svc_sweep_due_def)
  then have "svc_is_enabled ?s'" "\<not> list_ex (\<lambda>c. c sn = Some False) (downstream_checkers ?s')"
    "1 \<le> half_open_max_calls (svc_config ?s')"
    using assms(6,7,8) by (simp_all add: setup_of_def svc_is_enabled_def)
  from trial_admission_half_open [OF r'(1,2) assms(5) this(1,2)] this(3) r' assms(4) show ?thesis
    by (simp add: Let_def pin_defs)
qed

theorem sweep_admits_under_block_witness:
  "let s = svc_run [(calm 0, Note_Failure ''a'' None)] (new_service None (default_config\<lparr>failure_threshold := 1\<rparr>));
       E = calm 100000000;
       s' = svc_sweep_write E (fst (svc_sweep_due E s))
              (snd (svc_force_open E ''a'' [] False (TTL_Int 5) (snd (svc_sweep_due E s))))
   in fst (svc_should_allow (calm 100000001) ''a'' s')"
proof -
  let ?s = "svc_run [(calm 0, Note_Failure ''a'' None)] (new_service None (default_config\<lparr>failure_threshold := 1\<rparr>))"
  have "''a'' \<in> service_name ` set (fst (svc_sweep_due (calm 100000000) ?s))" by code_simp
  moreover have "res_success (fst (svc_force_open (calm 100000000) ''a'' [] False (TTL_Int 5)
      (snd (svc_sweep_due (calm 100000000) ?s))))" by code_simp
  moreover have "\<not> list_ex (\<lambda>c. c ''a'' = Some False) (downstream_checkers ?s)"
    "svc_is_enabled ?s" "1 \<le> half_open_max_calls (svc_config ?s)"
    by (simp_all only: config_run svc_is_enabled_def) (simp_all add: new_service_def svc_config_def default_config_def)
  ultimately show ?thesis
    using sweep_admits_under_block [OF svc_inv_run [OF svc_inv_new], of "''a''" "calm 100000000"
        "[(calm 0, Note_Failure ''a'' None)]" None "default_config\<lparr>failure_threshold := 1\<rparr>"
        "calm 100000000" "[]" False 5 "calm 100000001"]
    by (simp add: Let_def minutes_def seconds_def del: svc_run.simps)
qed

end
