(* ===== verification/CB_Fastpath.thy ===== *)
theory CB_Fastpath
  imports CB_Properties
begin

text \<open>
  The read-free path of \<open>record_success\<close>.  A success may skip the repository when the epoch of its
  admission still stands.  The lemmas show that every call that changes the row of a name in a way
  the path relies on (its state, its failure count, a new override) moves the name's epoch, so that
  the path is taken only where the read it saves would have found the same row.
\<close>

section \<open>The read-free success path\<close>

abbreviation epoch :: "string \<Rightarrow> svc \<Rightarrow> int" where
  "epoch sn s \<equiv> ow_epoch_of sn (outcomes s)"

lemma window_by_view:
  assumes "window_by P w w'" and "ow_inv w"
  obtains ops where "\<forall>op \<in> set ops. P op \<and> ow_name op = sn"
    "name_view sn w' = foldl spec_step (name_view sn w) ops"
proof -
  obtain ops where "\<forall>op \<in> set ops. P op" "w' = ow_run ops w" using assms(1) by (auto simp: window_by_def)
  then show ?thesis using name_view_run [OF assms(2), of sn ops]
    by (intro that [of "filter (\<lambda>op. ow_name op = sn) ops"]) auto
qed

lemma epoch_view: "ow_epoch_of sn w = ne_epoch (name_view sn w)"
  by (simp add: name_view_def)

lemma window_by_epoch_mono:
  assumes "window_by P w w'" and "ow_inv w"
  shows "ow_epoch_of sn w \<le> ow_epoch_of sn w'"
proof (rule window_by_view [OF assms, of sn])
  fix ops assume "name_view sn w' = foldl spec_step (name_view sn w) ops"
  then show ?thesis using spec_epoch_mono_run [of "name_view sn w" ops] by (simp add: epoch_view)
qed

lemma window_by_other_name:
  assumes "window_by (on_name sn') w w'" and "ow_inv w" and "sn' \<noteq> sn"
  shows "name_view sn w' = name_view sn w"
proof (rule window_by_view [OF assms(1,2), of sn])
  fix ops assume ops: "\<forall>op \<in> set ops. ow_name op = sn' \<and> ow_name op = sn"
    and v: "name_view sn w' = foldl spec_step (name_view sn w) ops"
  from ops assms(3) have "ops = []" by (cases ops) auto
  with v show ?thesis by simp
qed

lemma last_seen_view: "dict_get (last_seen w) sn = ne_seen (name_view sn w)"
  by (simp add: name_view_def)

text \<open>The row is the CLOSED one an admission saw, up to an override that was lifted since.\<close>

definition as_admitted :: "cb_row \<Rightarrow> string \<Rightarrow> svc \<Rightarrow> bool" where
  "as_admitted h sn s \<longleftrightarrow>
     (\<exists>r. row_of (repository s) sn = Some r \<and> state r = CLOSED \<and> failure_count r = 0
          \<and> (manually_controlled r \<longrightarrow> manually_controlled h
               \<and> manual_override_expires_at r = manual_override_expires_at h))
     \<and> dict_get (last_seen (outcomes s)) sn = Some CLOSED"

lemma as_admitted_other:
  assumes "as_admitted h sn s" and "acts_by (\<lambda>x. P x \<and> op_name x = Some sn') (repository s) (repository s')"
    and "window_by (on_name sn') (outcomes s) (outcomes s')" and "svc_inv s" and "sn' \<noteq> sn"
  shows "as_admitted h sn s'"
proof -
  have "row_of (repository s') sn = row_of (repository s) sn"
    using acts_frame [OF assms(2) _ assms(5)] by simp
  moreover have "name_view sn (outcomes s') = name_view sn (outcomes s)"
    using window_by_other_name [OF assms(3) _ assms(5)] assms(4) by (simp add: svc_inv_def)
  ultimately show ?thesis using assms(1) by (simp add: as_admitted_def last_seen_view)
qed

lemma observe_same [simp]: "dict_get (last_seen (outcomes s)) sn = Some st \<Longrightarrow> observe sn st e s = s"
  by (simp add: observe_def on_window_def ow_observe_state_def)

lemma on_repo_get_or_create_present:
  "row_of (repository s) sn = Some r \<Longrightarrow> on_repo (repo_get_or_create now sn) s = (r, s)"
  by (simp add: on_repo_def get_or_create_present)

lemma closed_admission:
  assumes "row_of (repository s) sn = Some r" and "state r = CLOSED"
    and "dict_get (last_seen (outcomes s)) sn = Some CLOSED"
  shows "snd (svc_evaluate_admission E sn cfg s) = s"
  using assms by (simp add: svc_evaluate_admission_def svc_get_or_create_state_def on_repo_get_or_create_present)

lemma count_failure_epoch:
  assumes "ow_inv (outcomes s)"
  shows "epoch sn s < epoch sn (svc_count_failure E sn ctx s)"
proof -
  define w where "w = ow_end_write sn (ow_begin_write sn (outcomes s))"
  have "window_by (on_name sn) w (outcomes (svc_count_failure E sn ctx s))"
    unfolding svc_count_failure_def
    by (auto simp: svc_frame svc_helpers split_beta Let_def w_def [symmetric]
        intro!: window_intros window_by_trans [OF _ trip_window])
  from window_by_epoch_mono [OF this, of sn] ow_inv_end_write [OF ow_inv_begin_write [OF assms]]
  have "ow_epoch_of sn w \<le> epoch sn (svc_count_failure E sn ctx s)" by (simp add: w_def)
  moreover have "ow_epoch_of sn w = epoch sn s + 1"
    by (simp add: w_def ow_end_write_def ow_begin_write_def ow_move_epoch_def ow_epoch_of_def Let_def dict_simps)
  ultimately show ?thesis by simp
qed

lemma as_admitted_failure:
  assumes "as_admitted h sn s" and "svc_inv s" and "epoch sn (svc_record_failure E sn ctx s) = epoch sn s"
  shows "as_admitted h sn (svc_record_failure E sn ctx s)"
proof -
  obtain r where r: "row_of (repository s) sn = Some r" "state r = CLOSED"
      "dict_get (last_seen (outcomes s)) sn = Some CLOSED"
    using assms(1) by (auto simp: as_admitted_def)
  then have "svc_record_failure E sn ctx s =
      (if \<not> svc_is_enabled s \<or> is_pin_active (at_time E) r then s else svc_count_failure E sn ctx s)"
    by (simp add: svc_record_failure_def svc_get_or_create_state_def on_repo_get_or_create_present)
  with assms count_failure_epoch [of s sn E ctx] show ?thesis by (auto simp: svc_inv_def split: if_splits)
qed

lemma last_seen_append [simp]: "last_seen (ow_append sn n x w) = last_seen w"
  by (simp add: ow_append_def ow_resolve_def Let_def split: option.splits)

text \<open>On such a row the slow path appends the success and writes nothing.\<close>

lemma slow_success_admitted:
  assumes "row_of (repository s) sn = Some r" and "state r = CLOSED" and "failure_count r = 0"
    and "dict_get (last_seen (outcomes s)) sn = Some CLOSED"
  shows "svc_slow_success E sn cfg s =
    (if is_pin_active (at_time E) r then s
     else s\<lparr>outcomes := ow_append sn (sliding_window_size cfg) SUCCESS_OUTCOME (outcomes s)\<rparr>)"
  using assms
  by (simp add: svc_slow_success_def svc_get_or_create_state_def on_repo_get_or_create_present svc_count_success_def
      on_window_def ow_record_success_if_epoch_def ow_epoch_of_def Let_def)

lemma as_admitted_append:
  "as_admitted h sn (s\<lparr>outcomes := ow_append sn' n x (outcomes s)\<rparr>) = as_admitted h sn s"
  by (simp add: as_admitted_def)

lemma as_admitted_cong:
  "repository s' = repository s \<Longrightarrow> outcomes s' = outcomes s \<Longrightarrow> as_admitted h sn s' = as_admitted h sn s"
  by (simp add: as_admitted_def)

lemma as_admitted_slow:
  assumes "as_admitted h sn s"
  shows "as_admitted h sn (svc_slow_success E sn cfg s)"
proof -
  obtain r where "row_of (repository s) sn = Some r" "state r = CLOSED" "failure_count r = 0"
      "dict_get (last_seen (outcomes s)) sn = Some CLOSED"
    using assms by (auto simp: as_admitted_def)
  from slow_success_admitted [OF this] assms show ?thesis by (simp add: as_admitted_append)
qed

lemma as_admitted_success:
  assumes "as_admitted h sn s"
  shows "as_admitted h sn (svc_record_success E sn h' e s)"
proof -
  let ?s = "snd (svc_get_effective_config E sn s)"
  have 1: "as_admitted h sn ?s" using assms as_admitted_cong [of ?s s] by (simp add: svc_frame)
  then have "as_admitted h sn (?s\<lparr>outcomes := snd (ow_record_success_if_epoch sn n e b (outcomes s))\<rparr>)" for n e b
    using as_admitted_append [where s = ?s] as_admitted_cong [of "?s\<lparr>outcomes := outcomes s\<rparr>" ?s]
    by (simp add: ow_record_success_if_epoch_def svc_frame)
  with 1 assms show ?thesis
    by (simp add: svc_record_success_def svc_frame split_beta Let_def as_admitted_slow split: option.splits)
qed

lemma expire_one_row:
  assumes "repo_inv (repository s)"
  shows "row_of (repository (snd (expire_one E r s))) sn = row_of (repository s) sn
    \<or> (\<exists>e e'. row_of (repository s) sn = Some e \<and> row_of (repository (snd (expire_one E r s))) sn = Some e'
          \<and> state e' = state e \<and> failure_count e' = failure_count e \<and> \<not> manually_controlled e')"
  using expire_one_frame [OF _ assms, of r sn E] repo_inv_row [OF assms, of sn]
  by (cases "service_name r = sn"; cases "row_of (repository s) sn")
    (auto simp: expire_one_def repo_get_by_service_name_def repo_clear_manual_control_def repo_rows svc_frame row_ok_def)

lemma as_admitted_expire:
  assumes "as_admitted h sn s" and "repo_inv (repository s)"
  shows "as_admitted h sn (snd (expire_rows E rs s))"
  using assms
proof (induction rs arbitrary: s)
  case (Cons r rs)
  have "as_admitted h sn (snd (expire_one E r s))"
    using Cons.prems expire_one_row [OF Cons.prems(2), of E r sn] by (auto simp: as_admitted_def svc_frame)
  from Cons.IH [OF this repo_inv_expire_one [OF Cons.prems(2)]] show ?case by (simp add: split_beta Let_def)
qed simp

lemma as_admitted_observe:
  assumes "as_admitted h sn s" and "row_of (repository s) (service_name r) = Some r"
  shows "as_admitted h sn (observe (service_name r) (state r) e s)"
proof (cases "service_name r = sn")
  case True
  with assms show ?thesis by (auto simp: as_admitted_def)
next
  case False
  then have "dict_get (last_seen (outcomes (observe (service_name r) (state r) e s))) sn = dict_get (last_seen (outcomes s)) sn"
    by (simp add: svc_helpers ow_observe_state_def ow_move_epoch_def ow_clear_ring_def Let_def dict_simps split: option.splits)
  with assms(1) show ?thesis by (simp add: as_admitted_def svc_helpers)
qed

lemma as_admitted_observe_rows:
  assumes "as_admitted h sn s" and "\<forall>r \<in> set rs. row_of (repository s) (service_name r) = Some r"
  shows "as_admitted h sn (observe_rows ep rs s)"
  using assms
proof (induction rs arbitrary: s)
  case (Cons r rs)
  show ?case using Cons.IH [OF as_admitted_observe [OF Cons.prems(1), of r]] Cons.prems(2) by (simp add: svc_helpers)
qed simp

lemma rows_by_name_values: "r \<in> set (map snd (rows_by_name rs)) \<Longrightarrow> r \<in> set rs"
proof -
  have "r \<in> set (map snd (fold (\<lambda>r d. dict_set (service_name r) r d) rs d)) \<Longrightarrow> r \<in> set rs \<union> set (map snd d)" for d
    by (induction rs arbitrary: d) (force dest: set_dict_set_subset)+
  then show "r \<in> set (map snd (rows_by_name rs)) \<Longrightarrow> r \<in> set rs" by (force simp: rows_by_name_def)
qed

lemma as_admitted_aggregate:
  assumes "as_admitted h sn s" and "svc_inv s"
  shows "as_admitted h sn (snd (svc_get_aggregate_failure_evidence E b f s))"
proof -
  let ?rs = "map snd (rows_by_name (repo_get_all_states (repository s)))"
  have "\<forall>r \<in> set ?rs. row_of (repository s) (service_name r) = Some r"
    using rows_by_name_values stored_rows assms(2) by (auto simp: svc_inv_def)
  from as_admitted_observe_rows [OF assms(1) this, of "ow_epochs_snapshot (outcomes s)"] show ?thesis
    by (auto simp: svc_get_aggregate_failure_evidence_def svc_finish_aggregate_def svc_frame split_beta Let_def
        as_admitted_def split: sum.splits)
qed

lemma epoch_clear [simp]: "ow_epoch_of sn (ow_clear sn w) = ow_epoch_of sn w + 1"
  by (simp add: ow_clear_def ow_clear_ring_def ow_move_epoch_def ow_epoch_of_def dict_simps split: option.splits)

lemma epoch_bump [simp]: "ow_epoch_of sn (ow_bump sn w) = ow_epoch_of sn w + 1"
  by (simp add: ow_bump_def ow_move_epoch_def ow_epoch_of_def dict_simps)

text \<open>An operator's force either fails and leaves rows and window as they are, or moves the epoch.\<close>

lemma force_open_epoch:
  "repository (snd (svc_force_open E sn why ov ttl s)) = repository s \<and> outcomes (snd (svc_force_open E sn why ov ttl s)) = outcomes s
   \<or> epoch sn (snd (svc_force_open E sn why ov ttl s)) = epoch sn s + 1"
  unfolding svc_force_open_def check_kill_switch_def
  by (simp add: svc_frame svc_helpers split_beta Let_def force_results split: option.splits)

lemma force_close_epoch:
  "repository (snd (svc_force_close E sn why rp ov ttl s)) = repository s \<and> outcomes (snd (svc_force_close E sn why rp ov ttl s)) = outcomes s
   \<or> epoch sn (snd (svc_force_close E sn why rp ov ttl s)) = epoch sn s + 1"
  unfolding svc_force_close_def check_kill_switch_def handle_force_close_success_def
  by (simp add: svc_frame svc_helpers split_beta Let_def force_results split: option.splits)

lemma extend_epoch:
  "repository (snd (svc_extend_manual_override E sn ttl i why s)) = repository s
     \<and> outcomes (snd (svc_extend_manual_override E sn ttl i why s)) = outcomes s
   \<or> epoch sn (snd (svc_extend_manual_override E sn ttl i why s)) = epoch sn s + 1"
  unfolding svc_extend_manual_override_def
  by (simp add: svc_frame svc_helpers split_beta Let_def split: option.splits ttl_arg.splits)

lemma as_admitted_control:
  assumes "as_admitted h sn s" and "epoch sn (snd (svc_manual_control E sn act why who s)) = epoch sn s"
  shows "as_admitted h sn (snd (svc_manual_control E sn act why who s))"
proof -
  obtain r where r: "row_of (repository s) sn = Some r" using assms(1) by (auto simp: as_admitted_def)
  have "as_admitted h sn (snd (on_repo (repo_clear_manual_control (at_time E) sn True) s))"
    using assms(1) by (auto simp: as_admitted_def svc_frame repo_clear_manual_control_def repo_rows)
  moreover have "as_admitted h sn (snd (svc_force_open E sn w False TTL_None s))"
    if "epoch sn (snd (svc_force_open E sn w False TTL_None s)) = epoch sn s" for w
    using force_open_epoch [of E sn w False TTL_None s] that assms(1)
      as_admitted_cong [of "snd (svc_force_open E sn w False TTL_None s)" s h sn] by auto
  moreover have "as_admitted h sn (snd (svc_force_close E sn w False False TTL_None s))"
    if "epoch sn (snd (svc_force_close E sn w False False TTL_None s)) = epoch sn s" for w
    using force_close_epoch [of E sn w False False TTL_None s] that assms(1)
      as_admitted_cong [of "snd (svc_force_close E sn w False False TTL_None s)" s h sn] by auto
  ultimately show ?thesis using assms(2)
    by (simp add: svc_manual_control_def svc_get_or_create_state_def on_repo_get_or_create_present [OF r] Let_def
        split: if_splits)
qed

lemma as_admitted_admission:
  assumes "as_admitted h sn s"
  shows "as_admitted h sn (snd (svc_should_allow E sn s))" "as_admitted h sn (snd (svc_should_allow_with_state E sn s))"
proof -
  obtain r where r: "row_of (repository s) sn = Some r" "state r = CLOSED" "dict_get (last_seen (outcomes s)) sn = Some CLOSED"
    using assms by (auto simp: as_admitted_def)
  let ?s = "snd (svc_get_effective_config E sn s)"
  have "snd (svc_evaluate_admission E sn cfg ?s) = ?s" for cfg
    using closed_admission [of ?s sn r E cfg] r by (simp add: svc_frame)
  moreover have "as_admitted h sn ?s" using assms as_admitted_cong [of ?s s] by (simp add: svc_frame)
  ultimately show "as_admitted h sn (snd (svc_should_allow E sn s))" "as_admitted h sn (snd (svc_should_allow_with_state E sn s))"
    using assms by (simp_all add: svc_should_allow_def svc_should_allow_with_state_def svc_get_or_create_state_def
        on_repo_get_or_create_present [OF r(1)] split_beta Let_def)
qed

lemma as_admitted_step:
  assumes "as_admitted h sn s" and "svc_inv s" and "epoch sn (svc_step E x s) = epoch sn s"
  shows "as_admitted h sn (svc_step E x s)"
proof -
  have inv: "repo_inv (repository s)" using assms(2) by (simp add: svc_inv_def)
  note other = as_admitted_other [OF assms(1) _ _ assms(2)]
  obtain r where r: "row_of (repository s) sn = Some r" "state r = CLOSED" using assms(1) by (auto simp: as_admitted_def)
  show ?thesis
  proof (cases x)
    case (Should_Allow n)
    then show ?thesis using other [OF should_allow_acts should_allow_window] as_admitted_admission(1) [OF assms(1)]
      by (cases "n = sn") simp_all
  next
    case (Should_Allow_With_State n)
    then show ?thesis
      using other [OF should_allow_with_state_acts should_allow_with_state_window] as_admitted_admission(2) [OF assms(1)]
      by (cases "n = sn") simp_all
  next
    case (Note_Failure n ctx)
    then show ?thesis
      using other [OF record_failure_acts [OF inv] record_failure_window] as_admitted_failure [OF assms(1,2)] assms(3)
      by (cases "n = sn") simp_all
  next
    case (Note_Success n h' e)
    then show ?thesis
      using other [OF record_success_acts record_success_window] as_admitted_success [OF assms(1)]
      by (cases "n = sn") simp_all
  next
    case Recovery_Sweep
    then show ?thesis using recovery_sweep_skips [OF inv r(1)] r(2) assms(1) by (simp add: as_admitted_def svc_frame r)
  next
    case Expiry_Sweep
    then show ?thesis using as_admitted_expire [OF assms(1) inv] by (simp add: svc_check_and_expire_manual_overrides_def)
  next
    case (Aggregate_Evidence b)
    then show ?thesis using as_admitted_aggregate [OF assms(1,2)] by simp
  next
    case (Operator_Open n why ov ttl)
    then show ?thesis
      using other [OF force_open_acts operator_window(1)] force_open_epoch [of E sn why ov ttl s] assms(1,3)
      by (cases "n = sn") (auto simp: as_admitted_def)
  next
    case (Operator_Close n why rp ov ttl)
    then show ?thesis
      using other [OF force_close_acts operator_window(2)] force_close_epoch [of E sn why rp ov ttl s] assms(1,3)
      by (cases "n = sn") (auto simp: as_admitted_def)
  next
    case (Operator_Reset n i why)
    then show ?thesis
      using other [OF reset_acts reset_window] svc_reset_Some(2) [OF r(1), of E i why] assms(3)
      by (cases "n = sn") simp_all
  next
    case (Operator_Extend n ttl i why)
    then show ?thesis
      using other [OF extend_acts [OF inv] operator_window(3)] extend_epoch [of E sn ttl i why s] assms(1,3)
      by (cases "n = sn") (auto simp: as_admitted_def)
  next
    case (Operator_Control n act why who)
    then show ?thesis
      using other [OF manual_control_acts operator_window(4)] as_admitted_control [OF assms(1), of E act why who] assms(3)
      by (cases "n = sn") simp_all
  qed
qed

lemma epoch_step_mono: "svc_inv s \<Longrightarrow> epoch sn s \<le> epoch sn (svc_step E x s)"
  using window_by_epoch_mono [OF svc_step_window] by (simp add: svc_inv_def)

lemma epoch_run_mono: "svc_inv s \<Longrightarrow> epoch sn s \<le> epoch sn (svc_run xs s)"
proof (induction xs arbitrary: s)
  case (Cons y xs)
  obtain E x where y: "y = (E, x)" by fastforce
  show ?case using epoch_step_mono [OF Cons.prems, of sn E x] Cons.IH [OF svc_inv_step [OF Cons.prems, of E x]]
    by (simp add: y)
qed simp

lemma as_admitted_run:
  assumes "as_admitted h sn s" and "svc_inv s" and "epoch sn (svc_run xs s) = epoch sn s"
  shows "as_admitted h sn (svc_run xs s)"
  using assms
proof (induction xs arbitrary: s)
  case (Cons y xs)
  obtain E x where y: "y = (E, x)" by fastforce
  note inv = svc_inv_step [OF Cons.prems(2), of E x]
  have eq: "epoch sn (svc_step E x s) = epoch sn s" "epoch sn (svc_run xs (svc_step E x s)) = epoch sn (svc_step E x s)"
    using Cons.prems(3) epoch_step_mono [OF Cons.prems(2), of sn E x] epoch_run_mono [OF inv, of sn xs] by (simp_all add: y)
  from Cons.IH [OF as_admitted_step [OF Cons.prems(1,2) eq(1)] inv eq(2)] show ?case by (simp add: y)
qed simp

lemma acquire_granted:
  "fst (fst (repo_try_acquire_half_open_slot now sn k stuck R)) \<Longrightarrow>
     snd (snd (fst (repo_try_acquire_half_open_slot now sn k stuck R))) = HALF_OPEN"
  by (simp add: repo_try_acquire_half_open_slot_def repo_rows Let_def split: if_splits)

lemma trial_decision_not_closed:
  "allowed (fst (svc_trial_admission E sn cfg r s)) \<Longrightarrow> state (dec_state (fst (svc_trial_admission E sn cfg r s))) \<noteq> CLOSED"
  using acquire_granted [of "at_time E" sn "half_open_max_calls cfg" "half_open_stuck_timeout_seconds cfg" "repository s"]
  by (auto simp: svc_trial_admission_def split_beta Let_def svc_frame split: if_splits)

lemma evaluate_closed:
  assumes "allowed (fst (svc_evaluate_admission E sn cfg s))"
    and "state (dec_state (fst (svc_evaluate_admission E sn cfg s))) = CLOSED"
  shows "svc_evaluate_admission E sn cfg s =
    (let (r, s1) = on_repo (repo_get_or_create (at_time E) sn) s
     in (\<lparr>allowed = True, dec_state = r, window_epoch = epoch sn s\<rparr>, observe sn CLOSED (Some (epoch sn s)) s1))"
  using assms trial_decision_not_closed
  by (auto simp: svc_evaluate_admission_def svc_get_or_create_state_def split_beta Let_def svc_frame
      split: if_splits option.splits)

lemma observe_closed:
  assumes "epoch sn (observe sn CLOSED (Some (epoch sn s)) s) = epoch sn s"
  shows "dict_get (last_seen (outcomes (observe sn CLOSED (Some (epoch sn s)) s))) sn = Some CLOSED"
  using assms
  by (auto simp: svc_helpers ow_observe_state_def ow_epoch_of_def ow_move_epoch_def Let_def dict_simps split: if_splits)

lemma admitted_decision:
  assumes "svc_is_enabled s" and "allowed (fst (svc_should_allow_with_state E sn s))"
    and "state (dec_state (fst (svc_should_allow_with_state E sn s))) = CLOSED"
  shows "window_epoch (fst (svc_should_allow_with_state E sn s)) = epoch sn s"
    and "failure_count (dec_state (fst (svc_should_allow_with_state E sn s))) = 0 \<Longrightarrow>
         epoch sn (snd (svc_should_allow_with_state E sn s)) = epoch sn s \<Longrightarrow>
         as_admitted (dec_state (fst (svc_should_allow_with_state E sn s))) sn (snd (svc_should_allow_with_state E sn s))"
proof -
  let ?s = "snd (svc_get_effective_config E sn s)" and ?cfg = "fst (svc_get_effective_config E sn s)"
  let ?g = "on_repo (repo_get_or_create (at_time E) sn) ?s"
  have "svc_should_allow_with_state E sn s = svc_evaluate_admission E sn ?cfg ?s"
    using assms(1) by (simp add: svc_should_allow_with_state_def split_beta Let_def)
  with evaluate_closed [of E sn ?cfg ?s] assms(2,3)
  have d: "svc_should_allow_with_state E sn s =
      (\<lparr>allowed = True, dec_state = fst ?g, window_epoch = epoch sn ?s\<rparr>, observe sn CLOSED (Some (epoch sn ?s)) (snd ?g))"
    by (simp add: split_beta Let_def)
  then show "window_epoch (fst (svc_should_allow_with_state E sn s)) = epoch sn s" by (simp add: svc_frame)
  show "as_admitted (dec_state (fst (svc_should_allow_with_state E sn s))) sn (snd (svc_should_allow_with_state E sn s))"
    if "failure_count (dec_state (fst (svc_should_allow_with_state E sn s))) = 0"
      "epoch sn (snd (svc_should_allow_with_state E sn s)) = epoch sn s"
    using that assms(3) observe_closed [of sn "snd ?g"] unfolding d
    by (simp add: as_admitted_def svc_frame) (simp add: svc_helpers svc_frame repo_rows entry_views)
qed

lemma config_outcomes [simp]:
  "(snd (svc_get_effective_config E sn s))\<lparr>outcomes := outcomes s\<rparr> = snd (svc_get_effective_config E sn s)"
  by (simp add: svc_get_effective_config_def split: option.splits)

lemma record_success_hint:
  "svc_record_success E sn (Some h) (Some e) s = svc_record_success E sn None None s"
  if "\<not> (svc_is_enabled s \<and> service_name h = sn \<and> state h = CLOSED \<and> \<not> is_pin_active (at_time E) h \<and> failure_count h = 0
        \<and> dict_get_or (epochs (outcomes s)) sn 0 = e)"
  using that
  by (auto simp: svc_record_success_def ow_record_success_if_epoch_def svc_frame split_beta Let_def)

text \<open>(C4) The read-free success path is exact.  A success recorded with the row and epoch its admission
  returned does to the service exactly what a success recorded without them does, that is, with a
  fresh read of the row: whatever other calls (failures, trips, operator actions, sweeps) complete
  between the admission and the record.\<close>

theorem fast_path_is_slow_path:
  assumes "svc_inv s" and "svc_is_enabled s" and "allowed (fst (svc_should_allow_with_state E0 sn s))"
  shows "let (d, s1) = svc_should_allow_with_state E0 sn s; s2 = svc_run xs s1
         in svc_record_success E sn (Some (dec_state d)) (Some (window_epoch d)) s2
            = svc_record_success E sn None None s2"
proof -
  obtain d s1 where d: "svc_should_allow_with_state E0 sn s = (d, s1)" by fastforce
  let ?s = "svc_run xs s1"
  have inv: "svc_inv s1" using svc_inv_step [OF assms(1), of E0 "Should_Allow_With_State sn"] by (simp add: d)
  have mono: "epoch sn s \<le> epoch sn s1" "epoch sn s1 \<le> epoch sn ?s"
    using epoch_step_mono [OF assms(1), of sn E0 "Should_Allow_With_State sn"] epoch_run_mono [OF inv] by (simp_all add: d)
  have "svc_record_success E sn (Some (dec_state d)) (Some (window_epoch d)) ?s = svc_record_success E sn None None ?s"
  proof (cases "svc_is_enabled ?s \<and> service_name (dec_state d) = sn \<and> state (dec_state d) = CLOSED
      \<and> \<not> is_pin_active (at_time E) (dec_state d) \<and> failure_count (dec_state d) = 0
      \<and> dict_get_or (epochs (outcomes ?s)) sn 0 = window_epoch d")
    case True
    then have e: "window_epoch d = epoch sn s" and adm: "epoch sn s1 = epoch sn s \<Longrightarrow> as_admitted (dec_state d) sn s1"
      using admitted_decision [OF assms(2,3)] by (simp_all add: d)
    have "epoch sn s1 = epoch sn s" "epoch sn ?s = epoch sn s1"
      using True e mono by (simp_all add: ow_epoch_of_def)
    from as_admitted_run [OF adm [OF this(1)] inv this(2)]
    obtain r where r: "row_of (repository ?s) sn = Some r" "state r = CLOSED" "failure_count r = 0"
        "dict_get (last_seen (outcomes ?s)) sn = Some CLOSED" "is_pin_active (at_time E) r \<longrightarrow> is_pin_active (at_time E) (dec_state d)"
      by (auto simp: as_admitted_def pin_defs)
    let ?c = "snd (svc_get_effective_config E sn ?s)"
    have "svc_slow_success E sn cfg ?c = ?c\<lparr>outcomes := ow_append sn (sliding_window_size cfg) SUCCESS_OUTCOME (outcomes ?s)\<rparr>" for cfg
      using slow_success_admitted [of ?c sn r E cfg] r True by (simp add: svc_frame)
    then show ?thesis using True
      by (auto simp: svc_record_success_def ow_record_success_if_epoch_def svc_frame split_beta Let_def)
  qed (rule record_success_hint, simp)
  then show ?thesis by (simp add: d)
qed

theorem fast_path_is_slow_path_witness:
  "let (d, s1) = svc_should_allow_with_state (calm 0) ''a'' (new_service None default_config);
       s2 = svc_run [(calm 1, Note_Failure ''a'' None), (calm 2, Note_Failure ''b'' None)] s1
   in svc_record_success (calm 3) ''a'' (Some (dec_state d)) (Some (window_epoch d)) s2
      = svc_record_success (calm 3) ''a'' None None s2"
proof (rule fast_path_is_slow_path [OF svc_inv_new])
  show "svc_is_enabled (new_service None default_config)"
    by (simp add: svc_is_enabled_def svc_config_def new_service_def default_config_def)
  show "allowed (fst (svc_should_allow_with_state (calm 0) ''a'' (new_service None default_config)))"
    by code_simp
qed

end
