(* ===== verification/CB_Lifecycle.thy ===== *)
theory CB_Lifecycle
  imports CB_Fastpath
begin

text \<open>
  The life of one breaker: what a recorded failure decides, how a burst of failures cuts a dependency
  off, how successful trials bring it back, and when they cannot.
\<close>

section \<open>Recording failures\<close>

definition quiet_seen :: "string \<Rightarrow> outcome_window \<Rightarrow> bool" where
  "quiet_seen sn w \<longleftrightarrow> dict_get (last_seen w) sn \<in> {None, Some CLOSED}"

lemma quiet_observe:
  assumes "quiet_seen sn w"
  shows "ring_of sn (snd (ow_observe_state sn CLOSED e w)) = ring_of sn w"
    and "quiet_seen sn (snd (ow_observe_state sn CLOSED e w))"
  using assms by (auto simp: quiet_seen_def ow_observe_state_def Let_def dict_simps)

lemma quiet_writes [simp]:
  "quiet_seen sn (ow_begin_write sn w) = quiet_seen sn w" "quiet_seen sn (ow_end_write sn w) = quiet_seen sn w"
  "ring_of sn (ow_begin_write sn w) = ring_of sn w" "ring_of sn (ow_end_write sn w) = ring_of sn w"
  "quiet_seen sn (ow_record_failure sn n w) = quiet_seen sn w"
  by (simp_all add: quiet_seen_def ow_begin_write_def ow_end_write_def ow_move_epoch_def ow_record_failure_def ring_of_def Let_def)

text \<open>The ring after one more failure.\<close>

definition ring_after_failure :: "string \<Rightarrow> int \<Rightarrow> outcome_window \<Rightarrow> int list" where
  "ring_after_failure sn n w = last_n (nat n) (ring_of sn w @ [FAILURE_OUTCOME])"

definition trips_on :: "env \<Rightarrow> string \<Rightarrow> int \<Rightarrow> svc \<Rightarrow> bool" where
  "trips_on E sn consecutive s \<longleftrightarrow>
     (let cfg = svc_config s; ring = ring_after_failure sn (sliding_window_size cfg) (outcomes s)
      in evaluate_trip consecutive (sum_list ring) (int (length ring)) cfg \<noteq> None) \<and> \<not> is_lockdown (emergency E)"

lemma trip_row:
  assumes "row_of (repository s) sn = Some r" and "state r = CLOSED" and "\<not> is_pin_active (at_time E) r"
  shows "\<exists>r'. row_of (repository (snd (svc_trip_circuit_open E sn u ctx cfg a b tr s))) sn = Some r'
    \<and> state r' = OPEN \<and> opened_at r' = Some (at_time E) \<and> \<not> manually_controlled r'"
  using assms
  by (simp add: svc_trip_circuit_open_def repo_trip_to_open_def repo_rows svc_frame svc_helpers split_beta Let_def)

lemma count_failure_row:
  assumes "row_of (repository s) sn = Some r" and "state r = CLOSED" and "\<not> is_pin_active (at_time E) r"
    and "dict_get (threshold_overrides s) sn = None" and "quiet_seen sn (outcomes s)"
  shows "\<exists>r'. row_of (repository (svc_count_failure E sn ctx s)) sn = Some r'
    \<and> (if trips_on E sn (failure_count r + 1) s
       then state r' = OPEN \<and> opened_at r' = Some (at_time E) \<and> \<not> manually_controlled r'
       else state r' = CLOSED \<and> failure_count r' = failure_count r + 1 \<and> manually_controlled r' = manually_controlled r
            \<and> manual_override_expires_at r' = manual_override_expires_at r
            \<and> quiet_seen sn (outcomes (svc_count_failure E sn ctx s)))"
proof -
  define r1 where "r1 = r\<lparr>service_name := sn, failure_count := failure_count r + 1, last_failure_at := Some (at_time E),
      metadata := [], updated_at := Some (at_time E)\<rparr>"
  define s1 where "s1 = on_window (ow_begin_write sn) s"
  define s2 where "s2 = s1\<lparr>repository := put_row sn r1 (repository s)\<rparr>"
  define s4 where "s4 = observe sn CLOSED None (on_window (ow_end_write sn) s2)"
  define s6 where "s6 = on_window (ow_record_failure sn (sliding_window_size (svc_config s))) s4"
  have rec: "on_repo (repo_record_failure (at_time E) sn) s1 = (r1, s2)"
    using assms(1) by (simp add: on_repo_def s1_def s2_def svc_helpers repo_record_failure_def repo_rows r1_def Let_def)
  have "setup_of s4 = setup_of s" by (simp add: s4_def s2_def s1_def svc_frame)
  then have cfg: "svc_get_effective_config E sn s4 = (svc_config s, s4)"
    using assms(4) effective_config_plain [of s4 sn E] by (simp add: setup_of_def s4_def s2_def s1_def svc_helpers)
  have ring: "ring_of sn (outcomes s4) = ring_of sn (outcomes s)"
    using assms(5) by (simp add: s4_def s2_def s1_def svc_helpers quiet_observe)
  have ev: "svc_get_window_evidence sn s6 = (sum_list (ring_after_failure sn (sliding_window_size (svc_config s)) (outcomes s)),
      int (length (ring_after_failure sn (sliding_window_size (svc_config s)) (outcomes s))))"
    by (simp add: svc_get_window_evidence_def ow_read_ring s6_def svc_helpers ow_record_failure_def ring ring_after_failure_def)
  have row: "row_of (repository s6) sn = Some r1" "state r1 = CLOSED" "\<not> is_pin_active (at_time E) r1"
    using assms(2,3) by (simp_all add: s6_def s4_def s2_def s1_def svc_helpers repo_rows r1_def pin_defs)
  have "failure_count r1 = failure_count r + 1" by (simp add: r1_def)
  then have "svc_count_failure E sn ctx s =
      (if trips_on E sn (failure_count r + 1) s
       then snd (svc_trip_circuit_open E sn r1 ctx (svc_config s) (fst (svc_get_window_evidence sn s6))
              (snd (svc_get_window_evidence sn s6)) ''auto'' s6)
       else s6)"
    unfolding svc_count_failure_def Let_def s1_def [symmetric] rec
    by (simp add: row(2) s4_def [symmetric] cfg s6_def [symmetric] ev trips_on_def svc_should_open_circuit_def
        svc_auto_transition_allowed_def Let_def)
  moreover have "quiet_seen sn (outcomes s6)"
    by (simp add: s6_def s4_def s2_def s1_def svc_helpers quiet_observe assms(5))
  ultimately show ?thesis using trip_row [OF row, of r1 ctx] row by (auto simp: r1_def)
qed


lemma trips_on_cong:
  "svc_config s' = svc_config s \<Longrightarrow> ring_of sn (outcomes s') = ring_of sn (outcomes s) \<Longrightarrow>
     trips_on E sn n s' = trips_on E sn n s"
  by (simp add: trips_on_def ring_after_failure_def)

lemma record_failure_row:
  assumes "svc_is_enabled s" and "state_of (repository s) sn = CLOSED"
    and "\<not> is_pin_active (at_time E) (entry_of (at_time E) sn (repository s))"
    and "dict_get (threshold_overrides s) sn = None" and "quiet_seen sn (outcomes s)"
  shows "\<exists>r'. row_of (repository (svc_record_failure E sn ctx s)) sn = Some r'
    \<and> (let e = entry_of (at_time E) sn (repository s)
       in if trips_on E sn (failure_count e + 1) s
          then state r' = OPEN \<and> opened_at r' = Some (at_time E) \<and> \<not> manually_controlled r'
          else state r' = CLOSED \<and> failure_count r' = failure_count e + 1
               \<and> manually_controlled r' = manually_controlled e
               \<and> manual_override_expires_at r' = manual_override_expires_at e
               \<and> quiet_seen sn (outcomes (svc_record_failure E sn ctx s)))"
proof -
  let ?e = "entry_of (at_time E) sn (repository s)"
  let ?s = "observe sn CLOSED (Some (epoch sn s)) (snd (on_repo (repo_get_or_create (at_time E) sn) s))"
  have e: "state ?e = CLOSED" using assms(2) by (simp add: entry_views)
  have "setup_of ?s = setup_of s" by (simp add: svc_frame)
  then have cfg: "svc_config ?s = svc_config s" by (simp add: setup_of_def)
  have f: "svc_record_failure E sn ctx s = svc_count_failure E sn ctx ?s"
    using assms(1,3) e by (simp add: svc_record_failure_def svc_get_or_create_state_def svc_frame repo_rows split_beta Let_def)
  have q: "quiet_seen sn (outcomes ?s)" "ring_of sn (outcomes ?s) = ring_of sn (outcomes s)"
    using quiet_observe [OF assms(5)] by (simp_all add: svc_helpers svc_frame)
  have "row_of (repository ?s) sn = Some ?e" "dict_get (threshold_overrides ?s) sn = None"
    using assms(4) by (simp_all add: svc_helpers svc_frame repo_rows)
  from count_failure_row [OF this(1) e assms(3) this(2) q(1), of ctx] trips_on_cong [OF cfg q(2), of E] show ?thesis
    by (simp only: f Let_def)
qed

text \<open>A failure recorded on an OPEN breaker leaves it OPEN since the same instant.\<close>

lemma open_failure_row:
  assumes "row_of (repository s) sn = Some r" and "state r = OPEN"
  shows "\<exists>r'. row_of (repository (svc_record_failure E sn ctx s)) sn = Some r'
    \<and> state r' = OPEN \<and> opened_at r' = opened_at r \<and> manually_controlled r' = manually_controlled r"
  using assms
  by (simp add: svc_record_failure_def svc_count_failure_def svc_get_or_create_state_def on_repo_get_or_create_present
      repo_record_failure_def repo_rows svc_frame svc_helpers split_beta Let_def)

lemma config_fields:
  "svc_config (svc_record_failure E sn ctx s) = svc_config s"
  "svc_config (svc_record_success E sn h e s) = svc_config s"
  "svc_config (snd (svc_should_allow E sn s)) = svc_config s"
  "downstream_checkers (svc_record_failure E sn ctx s) = downstream_checkers s"
  "downstream_checkers (svc_record_success E sn h e s) = downstream_checkers s"
  "downstream_checkers (snd (svc_should_allow E sn s)) = downstream_checkers s"
  using setup_step [of E "Note_Failure sn ctx" s] setup_step [of E "Note_Success sn h e" s] setup_step [of E "Should_Allow sn" s]
  by (simp_all add: setup_of_def)

lemma no_override_failure:
  assumes "dict_get (threshold_overrides s) sn = None"
  shows "dict_get (threshold_overrides (svc_record_failure E sn ctx s)) sn = None"
  using assms
  by (simp add: svc_record_failure_def svc_reopen_def svc_count_failure_def svc_trip_circuit_open_def svc_get_or_create_state_def
      svc_frame svc_helpers split_beta Let_def)


lemma trips_on_count:
  "failure_threshold (svc_config s) \<le> n \<Longrightarrow> \<not> is_lockdown (emergency E) \<Longrightarrow> trips_on E sn n s"
  by (simp add: trips_on_def evaluate_trip_def Let_def)

text \<open>The breaker during a burst of failures: still CLOSED and counting, or OPEN since some instant of
  the burst.\<close>

definition counting :: "string \<Rightarrow> int \<Rightarrow> svc \<Rightarrow> bool" where
  "counting sn n s \<longleftrightarrow> state_of (repository s) sn = CLOSED \<and> \<not> flagged (repository s) sn
     \<and> (case row_of (repository s) sn of None \<Rightarrow> n = 0 | Some r \<Rightarrow> failure_count r = n) \<and> quiet_seen sn (outcomes s)"

definition open_since :: "string \<Rightarrow> instant \<Rightarrow> svc \<Rightarrow> bool" where
  "open_since sn t s \<longleftrightarrow> (\<exists>r t'. row_of (repository s) sn = Some r \<and> state r = OPEN \<and> \<not> manually_controlled r
     \<and> opened_at r = Some t' \<and> t \<le> t')"

lemma counting_step:
  assumes "counting sn n s" and "svc_is_enabled s" and "dict_get (threshold_overrides s) sn = None"
    and "\<not> is_lockdown (emergency E)" and "t \<le> at_time E"
  shows "open_since sn t (svc_record_failure E sn ctx s)
    \<or> n + 1 < failure_threshold (svc_config s) \<and> counting sn (n + 1) (svc_record_failure E sn ctx s)"
proof -
  let ?e = "entry_of (at_time E) sn (repository s)"
  have e: "failure_count ?e = n" "\<not> manually_controlled ?e"
    using assms(1) by (auto simp: counting_def entry_of_None new_row_def flagged_def split: option.splits)
  then have "\<not> is_pin_active (at_time E) ?e" by (simp add: pin_defs)
  with assms record_failure_row [of s sn E ctx] e
  obtain r' where r': "row_of (repository (svc_record_failure E sn ctx s)) sn = Some r'"
    "if trips_on E sn (n + 1) s then state r' = OPEN \<and> opened_at r' = Some (at_time E) \<and> \<not> manually_controlled r'
     else state r' = CLOSED \<and> failure_count r' = n + 1 \<and> \<not> manually_controlled r'
          \<and> quiet_seen sn (outcomes (svc_record_failure E sn ctx s))"
    by (auto simp: counting_def Let_def)
  moreover have "n + 1 < failure_threshold (svc_config s)" if "\<not> trips_on E sn (n + 1) s"
    using trips_on_count [of s "n + 1" E sn] assms(4) that by force
  ultimately show ?thesis using assms(5)
    by (auto simp: open_since_def counting_def state_of_def flagged_def split: if_splits)
qed

lemma open_since_step: "open_since sn t s \<Longrightarrow> open_since sn t (svc_record_failure E sn ctx s)"
  using open_failure_row [of s sn _ E ctx] by (fastforce simp: open_since_def)

lemma open_since_burst: "open_since sn t s \<Longrightarrow> open_since sn t (fold (\<lambda>E. svc_record_failure E sn ctx) Es s)"
  by (induction Es arbitrary: s) (auto simp: open_since_step)

lemma burst_trips:
  assumes "counting sn n s" and "svc_is_enabled s" and "dict_get (threshold_overrides s) sn = None"
    and "\<forall>E \<in> set Es. \<not> is_lockdown (emergency E) \<and> t \<le> at_time E"
    and "failure_threshold (svc_config s) \<le> n + int (length Es)" and "Es \<noteq> []"
  shows "open_since sn t (fold (\<lambda>E. svc_record_failure E sn ctx) Es s)"
  using assms
proof (induction Es arbitrary: s n)
  case (Cons E Es)
  let ?s = "svc_record_failure E sn ctx s"
  from counting_step [OF Cons.prems(1-3), of E t ctx] Cons.prems(4)
  consider "open_since sn t ?s" | "n + 1 < failure_threshold (svc_config s)" "counting sn (n + 1) ?s" by auto
  then show ?case
  proof cases
    case 1
    then show ?thesis by (simp add: open_since_burst)
  next
    case 2
    then have "Es \<noteq> []" using Cons.prems(5) by auto
    from Cons.IH [OF 2(2) _ _ _ _ this] Cons.prems show ?thesis
      by (simp add: config_fields svc_is_enabled_def no_override_failure)
  qed
qed simp

lemma open_since_refuses:
  assumes "open_since sn t s" and "svc_is_enabled s" and "dict_get (threshold_overrides s) sn = None"
    and "at_time E < t + seconds (recovery_timeout (svc_config s))"
  shows "\<not> fst (svc_should_allow E sn s)"
proof -
  obtain r t' where r: "row_of (repository s) sn = Some r" "state r = OPEN" "\<not> manually_controlled r" "opened_at r = Some t'" "t \<le> t'"
    using assms(1) by (auto simp: open_since_def)
  then have "svc_admission_refusal_reason E sn r (svc_config s) = Some BLOCKED_OPEN"
    using assms(4) by (simp add: svc_admission_refusal_reason_def pin_defs)
  then show ?thesis using r assms(2)
    by (simp add: svc_should_allow_def svc_evaluate_admission_def svc_get_or_create_state_def effective_config_plain [OF assms(3)]
        on_repo_get_or_create_present [OF r(1)] svc_frame svc_helpers split_beta Let_def)
qed

lemma no_override_burst:
  "dict_get (threshold_overrides s) sn = None \<Longrightarrow>
     dict_get (threshold_overrides (fold (\<lambda>E. svc_record_failure E sn ctx) Es s)) sn = None"
  "svc_config (fold (\<lambda>E. svc_record_failure E sn ctx) Es s) = svc_config s"
  by (induction Es arbitrary: s) (simp_all add: no_override_failure config_fields)

text \<open>(C1) Protection: when as many consecutive failures as the threshold are recorded on a CLOSED breaker
  that no override holds, whatever else is in its window, it is OPEN, and every call is refused until
  the recovery timeout has passed since the first of them.\<close>

theorem failure_burst_cuts_off:
  assumes "counting sn n s" and "svc_is_enabled s" and "dict_get (threshold_overrides s) sn = None"
    and "\<forall>E \<in> set Es. \<not> is_lockdown (emergency E) \<and> t \<le> at_time E"
    and "failure_threshold (svc_config s) \<le> n + int (length Es)" and "Es \<noteq> []"
  shows "state_of (repository (fold (\<lambda>E. svc_record_failure E sn ctx) Es s)) sn = OPEN
    \<and> (at_time E' < t + seconds (recovery_timeout (svc_config s)) \<longrightarrow>
         \<not> fst (svc_should_allow E' sn (fold (\<lambda>E. svc_record_failure E sn ctx) Es s)))"
proof -
  have o: "open_since sn t (fold (\<lambda>E. svc_record_failure E sn ctx) Es s)" by (rule burst_trips [OF assms])
  then have "state_of (repository (fold (\<lambda>E. svc_record_failure E sn ctx) Es s)) sn = OPEN"
    by (auto simp: open_since_def state_of_def)
  with open_since_refuses [OF o, of E'] assms(2,3) show ?thesis
    by (simp add: no_override_burst svc_is_enabled_def)
qed


theorem failure_burst_cuts_off_witness:
  "\<not> fst (svc_should_allow (calm 59000000) ''a''
     (fold (\<lambda>E. svc_record_failure E ''a'' None) [calm 0, calm 1, calm 2, calm 3, calm 4] (new_service None default_config)))"
  using failure_burst_cuts_off [of "''a''" 0 "new_service None default_config" "[calm 0, calm 1, calm 2, calm 3, calm 4]" 0 None "calm 59000000"]
  by (simp add: counting_def state_of_def flagged_def quiet_seen_def new_service_def empty_repo_def empty_window_def
      svc_is_enabled_def svc_config_def default_config_def seconds_def del: fold.simps)

text \<open>(C7) What one recorded failure does to a CLOSED breaker (stored or not) that no override holds:
  it trips, that is, turns OPEN from this instant on, exactly when the shared predicate says so on
  the consecutive count and on the window including this failure and no freeze is in force;
  otherwise it stays CLOSED with one more consecutive failure.\<close>

theorem record_failure_decides:
  assumes "svc_is_enabled s" and "state_of (repository s) sn = CLOSED"
    and "\<not> is_pin_active (at_time E) (entry_of (at_time E) sn (repository s))"
    and "dict_get (threshold_overrides s) sn = None" and "quiet_seen sn (outcomes s)"
  shows "\<exists>r'. row_of (repository (svc_record_failure E sn ctx s)) sn = Some r'
    \<and> (let e = entry_of (at_time E) sn (repository s); cfg = svc_config s;
           ring = last_n (nat (sliding_window_size cfg)) (ring_of sn (outcomes s) @ [FAILURE_OUTCOME])
       in if evaluate_trip (failure_count e + 1) (sum_list ring) (int (length ring)) cfg \<noteq> None
             \<and> \<not> is_lockdown (emergency E)
          then state r' = OPEN \<and> opened_at r' = Some (at_time E)
          else state r' = CLOSED \<and> failure_count r' = failure_count e + 1)"
  using record_failure_row [OF assms, of ctx]
  unfolding trips_on_def ring_after_failure_def Let_def by fastforce

theorem record_failure_decides_witness:
  "\<exists>r'. row_of (repository (svc_record_failure (calm 7) ''a'' None
      (new_service None (default_config\<lparr>failure_threshold := 1\<rparr>)))) ''a'' = Some r' \<and> state r' = OPEN \<and> opened_at r' = Some 7"
proof -
  define s where "s = new_service None (default_config\<lparr>failure_threshold := 1\<rparr>)"
  have e: "row_of (repository s) ''a'' = None" "svc_is_enabled s" "dict_get (threshold_overrides s) ''a'' = None"
      "quiet_seen ''a'' (outcomes s)" "failure_threshold (svc_config s) = 1"
    by (simp_all add: s_def new_service_def empty_repo_def empty_window_def quiet_seen_def svc_is_enabled_def svc_config_def default_config_def)
  then have "failure_count (entry_of 7 ''a'' (repository s)) = 0" "\<not> is_pin_active 7 (entry_of 7 ''a'' (repository s))"
      "state_of (repository s) ''a'' = CLOSED"
    by (simp_all add: entry_of_None new_row_def pin_defs state_of_def)
  moreover have "\<exists>y. evaluate_trip 1 f c (svc_config s) = Some y" for f c using e(5) by (simp add: evaluate_trip_def)
  ultimately show ?thesis
    using e record_failure_decides [of s "''a''" "calm 7" None] unfolding s_def [symmetric] by (simp add: Let_def)
qed

section \<open>Trial calls and recovery\<close>

text \<open>A protected call: an admission at one instant and, if admitted, its outcome recorded at another.\<close>

record trial =
  asked :: env
  answered :: env
  succeeded :: bool

definition svc_call :: "string \<Rightarrow> trial \<Rightarrow> svc \<Rightarrow> bool \<times> svc" where
  "svc_call sn c s =
     (let (ok, s1) = svc_should_allow (asked c) sn s
      in (ok, if \<not> ok then s1
              else if succeeded c then svc_record_success (answered c) sn None None s1
              else svc_record_failure (answered c) sn None s1))"

text \<open>No configuration, freeze or downstream check is in the way of trials.\<close>

definition clear_road :: "string \<Rightarrow> svc \<Rightarrow> bool" where
  "clear_road sn s \<longleftrightarrow> svc_is_enabled s \<and> dict_get (threshold_overrides s) sn = None
     \<and> \<not> list_ex (\<lambda>c. c sn = Some False) (downstream_checkers s)"

definition thawed :: "trial \<Rightarrow> bool" where
  "thawed c \<longleftrightarrow> \<not> is_lockdown (emergency (asked c)) \<and> \<not> is_lockdown (emergency (answered c))"

lemma no_override_calls:
  assumes "dict_get (threshold_overrides s) sn = None"
  shows "dict_get (threshold_overrides (snd (svc_should_allow E sn s))) sn = None"
    and "dict_get (threshold_overrides (svc_record_success E sn None None s)) sn = None"
proof -
  have "dict_get (threshold_overrides (svc_slow_success E sn cfg s)) sn = None" for cfg
    using assms by (simp add: svc_slow_success_def svc_trial_success_def svc_count_success_def svc_get_or_create_state_def
        svc_frame svc_helpers split_beta Let_def)
  then show "dict_get (threshold_overrides (svc_record_success E sn None None s)) sn = None"
    using assms by (simp add: svc_record_success_def effective_config_plain)
  show "dict_get (threshold_overrides (snd (svc_should_allow E sn s))) sn = None"
    using assms
    by (simp add: svc_should_allow_def svc_evaluate_admission_def svc_trial_admission_def svc_record_rejection_def
        svc_get_or_create_state_def svc_frame svc_helpers split_beta Let_def split: option.splits)
qed

lemma clear_road_call: "clear_road sn s \<Longrightarrow> clear_road sn (snd (svc_call sn c s)) \<and> svc_config (snd (svc_call sn c s)) = svc_config s"
  by (simp add: clear_road_def svc_call_def split_beta Let_def config_fields svc_is_enabled_def no_override_calls no_override_failure)

text \<open>A HALF_OPEN breaker with \<open>j\<close> slots taken and \<open>k\<close> successes, seen as such by the window.\<close>

definition testing :: "string \<Rightarrow> int \<Rightarrow> int \<Rightarrow> svc \<Rightarrow> bool" where
  "testing sn j k s \<longleftrightarrow> (\<exists>r. row_of (repository s) sn = Some r \<and> state r = HALF_OPEN \<and> \<not> manually_controlled r
     \<and> half_open_request_count r = j \<and> success_count r = k \<and> half_open_window_started_at r \<noteq> None)
     \<and> dict_get (last_seen (outcomes s)) sn = Some HALF_OPEN"

lemma observe_seen:
  "dict_get (last_seen (outcomes (observe sn st None s))) sn = Some st"
  by (auto simp: svc_helpers ow_observe_state_def ow_move_epoch_def ow_clear_ring_def Let_def dict_simps split: option.splits)

lemma trial_from_open:
  assumes "row_of (repository s) sn = Some r" and "state r = OPEN" and "\<not> manually_controlled r" and "clear_road sn s"
    and "svc_admission_refusal_reason E sn r (svc_config s) = None"
  shows "fst (svc_should_allow E sn s) \<and> testing sn 1 0 (snd (svc_should_allow E sn s))"
proof -
  let ?s = "observe sn OPEN (Some (epoch sn s)) s"
  have a: "svc_should_allow E sn s = map_prod allowed (\<lambda>s. s) (svc_trial_admission E sn (svc_config s) r ?s)"
    using assms by (simp add: svc_should_allow_def svc_evaluate_admission_def svc_get_or_create_state_def clear_road_def
        on_repo_get_or_create_present effective_config_plain split_beta Let_def map_prod_def)
  have "row_of (repository ?s) sn = Some r" using assms(1) by (simp add: svc_helpers)
  then have t: "repo_try_acquire_half_open_slot (at_time E) sn k stuck (repository ?s) =
      ((True, OPEN, HALF_OPEN), (put_row sn (r\<lparr>service_name := sn, state := HALF_OPEN, success_count := 0,
         half_open_request_count := 1, half_open_window_started_at := Some (at_time E), metadata := [],
         updated_at := Some (at_time E)\<rparr>) (repository ?s))\<lparr>last_acquire_marker := TRANSITION\<rparr>)" for k stuck
    using assms(2) by (simp add: repo_try_acquire_half_open_slot_def repo_rows Let_def)
  show ?thesis unfolding a svc_trial_admission_def on_repo_def t
    using assms(2,3) by (simp add: observe_seen testing_def, simp add: svc_helpers repo_rows)
qed

lemma trial_from_half_open:
  assumes "testing sn j k s" and "clear_road sn s" and "\<not> is_lockdown (emergency E)" and "j < half_open_max_calls (svc_config s)"
  shows "fst (svc_should_allow E sn s) \<and> testing sn (j + 1) k (snd (svc_should_allow E sn s))"
proof -
  obtain r where r: "row_of (repository s) sn = Some r" "state r = HALF_OPEN" "\<not> manually_controlled r"
      "half_open_request_count r = j" "success_count r = k" "half_open_window_started_at r \<noteq> None"
      "dict_get (last_seen (outcomes s)) sn = Some HALF_OPEN"
    using assms(1) by (auto simp: testing_def)
  then show ?thesis using assms(2-4)
    by (simp add: svc_should_allow_def svc_evaluate_admission_def svc_trial_admission_def svc_get_or_create_state_def
      on_repo_get_or_create_present repo_try_acquire_half_open_slot_def repo_rows clear_road_def effective_config_plain testing_def
      svc_admission_refusal_reason_def svc_auto_transition_allowed_def given_def
      svc_frame split_beta Let_def)
qed

text \<open>A success of a trial, below the threshold and at it.\<close>

lemma success_testing:
  assumes "testing sn j k s" and "clear_road sn s" and "\<not> is_lockdown (emergency E)"
  shows "k + 1 < success_threshold (svc_config s) \<Longrightarrow> testing sn j (k + 1) (svc_record_success E sn None None s)"
    and "success_threshold (svc_config s) \<le> k + 1 \<Longrightarrow>
           state_of (repository (svc_record_success E sn None None s)) sn = CLOSED
           \<and> ow_read sn (outcomes (svc_record_success E sn None None s)) = (0, 0)"
proof -
  obtain r where r: "row_of (repository s) sn = Some r" "state r = HALF_OPEN" "\<not> manually_controlled r"
      "half_open_request_count r = j" "success_count r = k" "half_open_window_started_at r \<noteq> None"
      "dict_get (last_seen (outcomes s)) sn = Some HALF_OPEN"
    using assms(1) by (auto simp: testing_def)
  have e: "svc_record_success E sn None None s = svc_trial_success E sn (svc_config s) s"
    using r assms(2) by (simp add: svc_record_success_def clear_road_def effective_config_plain svc_slow_success_def
        svc_get_or_create_state_def on_repo_get_or_create_present pin_defs)
  show "testing sn j (k + 1) (svc_record_success E sn None None s)" if "k + 1 < success_threshold (svc_config s)"
    using that r assms(3) unfolding e
    by (simp add: svc_trial_success_def svc_auto_transition_allowed_def repo_record_success_with_close_check_def repo_rows
        svc_frame split_beta Let_def testing_def)
  show "state_of (repository (svc_record_success E sn None None s)) sn = CLOSED
      \<and> ow_read sn (outcomes (svc_record_success E sn None None s)) = (0, 0)" if "success_threshold (svc_config s) \<le> k + 1"
    using that r assms(3) unfolding e
    by (simp add: svc_trial_success_def svc_auto_transition_allowed_def repo_record_success_with_close_check_def repo_rows
        svc_frame svc_helpers split_beta Let_def ow_observe_state_def ow_read_ring)
qed

lemma call_testing:
  assumes "testing sn j k s" and "clear_road sn s" and "thawed c" and "succeeded c" and "j < half_open_max_calls (svc_config s)"
  shows "fst (svc_call sn c s)"
    and "k + 1 < success_threshold (svc_config s) \<Longrightarrow> testing sn (j + 1) (k + 1) (snd (svc_call sn c s))"
    and "success_threshold (svc_config s) \<le> k + 1 \<Longrightarrow> state_of (repository (snd (svc_call sn c s))) sn = CLOSED
           \<and> ow_read sn (outcomes (snd (svc_call sn c s))) = (0, 0)"
proof -
  let ?s = "snd (svc_should_allow (asked c) sn s)"
  have t: "fst (svc_should_allow (asked c) sn s)" "testing sn (j + 1) k ?s"
    using trial_from_half_open [OF assms(1,2) _ assms(5)] assms(3) by (auto simp: thawed_def)
  have "clear_road sn ?s"
    using assms(2) by (simp add: clear_road_def config_fields svc_is_enabled_def no_override_calls)
  from success_testing [OF t(2) this, of "answered c"] t(1) assms(3,4)
  show "fst (svc_call sn c s)"
    "k + 1 < success_threshold (svc_config s) \<Longrightarrow> testing sn (j + 1) (k + 1) (snd (svc_call sn c s))"
    "success_threshold (svc_config s) \<le> k + 1 \<Longrightarrow> state_of (repository (snd (svc_call sn c s))) sn = CLOSED
           \<and> ow_read sn (outcomes (snd (svc_call sn c s))) = (0, 0)"
    by (simp_all add: svc_call_def split_beta Let_def thawed_def config_fields)
qed

lemma trials_close:
  assumes "testing sn j k s" and "clear_road sn s" and "\<forall>c \<in> set cs. thawed c \<and> succeeded c"
    and "k + int (length cs) = success_threshold (svc_config s)" and "j + int (length cs) \<le> half_open_max_calls (svc_config s)"
    and "cs \<noteq> []"
  shows "fst (run_actions (map (svc_call sn) cs) s) = replicate (length cs) True
    \<and> state_of (repository (snd (run_actions (map (svc_call sn) cs) s))) sn = CLOSED
    \<and> ow_read sn (outcomes (snd (run_actions (map (svc_call sn) cs) s))) = (0, 0)"
  using assms
proof (induction cs arbitrary: s j k)
  case (Cons c cs)
  have c: "thawed c" "succeeded c" "j < half_open_max_calls (svc_config s)" using Cons.prems(3,5) by auto
  note call = call_testing [OF Cons.prems(1,2) c]
  show ?case
  proof (cases "cs = []")
    case True
    then show ?thesis using call Cons.prems(4) by (simp add: split_beta Let_def)
  next
    case False
    then have "k + 1 < success_threshold (svc_config s)" using Cons.prems(4) by (cases cs) auto
    then have "testing sn (j + 1) (k + 1) (snd (svc_call sn c s))" by (rule call(2))
    from Cons.IH [OF this _ _ _ _ False] Cons.prems clear_road_call [OF Cons.prems(2), of c] call(1) show ?thesis
      by (simp add: split_beta Let_def)
  qed
qed simp

text \<open>(C2) Recovery: an OPEN breaker that no override holds, whose recovery timeout has passed, closes after
  as many successful calls as the success threshold, provided that the threshold is not above the
  number of trial slots: each of the calls is admitted, and the fresh CLOSED period starts without
  evidence from the last one.\<close>

theorem recovers_after_successful_trials:
  assumes "row_of (repository s) sn = Some r" and "state r = OPEN" and "\<not> manually_controlled r" and "opened_at r = Some t"
    and "clear_road sn s" and "\<forall>c \<in> set (c # cs). thawed c \<and> succeeded c"
    and "t + seconds (recovery_timeout (svc_config s)) \<le> at_time (asked c)"
    and "int (length (c # cs)) = success_threshold (svc_config s)"
    and "success_threshold (svc_config s) \<le> half_open_max_calls (svc_config s)"
  shows "fst (run_actions (map (svc_call sn) (c # cs)) s) = replicate (length (c # cs)) True
    \<and> state_of (repository (snd (run_actions (map (svc_call sn) (c # cs)) s))) sn = CLOSED
    \<and> ow_read sn (outcomes (snd (run_actions (map (svc_call sn) (c # cs)) s))) = (0, 0)"
proof -
  let ?s = "snd (svc_should_allow (asked c) sn s)"
  have c: "thawed c" "succeeded c" using assms(6) by simp_all
  then have "svc_admission_refusal_reason (asked c) sn r (svc_config s) = None"
    using assms(3,4,7) by (simp add: svc_admission_refusal_reason_def svc_auto_transition_allowed_def pin_defs thawed_def)
  from trial_from_open [OF assms(1-3,5) this]
  have t: "fst (svc_should_allow (asked c) sn s)" "testing sn 1 0 ?s" by simp_all
  have road: "clear_road sn ?s"
    using assms(5) by (simp add: clear_road_def config_fields svc_is_enabled_def no_override_calls)
  have call: "svc_call sn c s = (True, svc_record_success (answered c) sn None None ?s)"
    using t(1) c(2) by (simp add: svc_call_def split_beta Let_def)
  note succ = success_testing [OF t(2) road, of "answered c"]
  show ?thesis
  proof (cases "cs = []")
    case True
    then show ?thesis using succ(2) assms(8) c(1) by (simp add: call thawed_def config_fields)
  next
    case False
    then have "1 < success_threshold (svc_config s)" using assms(8) by (cases cs) auto
    then have "testing sn 1 1 (snd (svc_call sn c s))" using succ(1) c(1) by (simp add: call thawed_def config_fields)
    from trials_close [OF this _ _ _ _ False] clear_road_call [OF assms(5), of c] assms(6,8,9) show ?thesis
      by (simp add: call split_beta Let_def)
  qed
qed


theorem recovers_after_successful_trials_witness:
  "state_of (repository (snd (run_actions (map (svc_call ''a'')
       [\<lparr>asked = calm 60000000, answered = calm 60000001, succeeded = True\<rparr>,
        \<lparr>asked = calm 60000002, answered = calm 60000003, succeeded = True\<rparr>])
       ((new_service None default_config)\<lparr>repository := put_row ''a'' ((new_row ''a'')\<lparr>state := OPEN, opened_at := Some 0\<rparr>) empty_repo\<rparr>)))) ''a'' = CLOSED"
  using recovers_after_successful_trials [of "(new_service None default_config)\<lparr>repository :=
      put_row ''a'' ((new_row ''a'')\<lparr>state := OPEN, opened_at := Some 0\<rparr>) empty_repo\<rparr>" "''a''"
      "(new_row ''a'')\<lparr>state := OPEN, opened_at := Some 0\<rparr>" 0 "\<lparr>asked = calm 60000000, answered = calm 60000001, succeeded = True\<rparr>"
      "[\<lparr>asked = calm 60000002, answered = calm 60000003, succeeded = True\<rparr>]"]
  by (simp add: repo_rows new_row_def clear_road_def thawed_def new_service_def svc_config_def svc_is_enabled_def default_config_def
      seconds_def del: run_actions.simps list.map(2))

section \<open>More successes required than trials granted\<close>

text \<open>An admission of a breaker that is not CLOSED refuses without touching the row, or asks for a slot.\<close>

lemma should_allow_cases:
  assumes "row_of (repository s) sn = Some r" and "state r \<noteq> CLOSED" and "svc_is_enabled s"
  shows "repository (snd (svc_should_allow E sn s)) = repository s \<and> \<not> fst (svc_should_allow E sn s)
    \<or> (let a = repo_try_acquire_half_open_slot (at_time E) sn (half_open_max_calls (svc_config s))
                 (half_open_stuck_timeout_seconds (svc_config s)) (repository s)
       in repository (snd (svc_should_allow E sn s)) = snd a \<and> fst (svc_should_allow E sn s) = fst (fst a))"
proof -
  let ?c = "svc_get_effective_config E sn s"
  have row: "row_of (repository (snd ?c)) sn = Some r" using assms(1) by (simp add: svc_frame)
  show ?thesis using assms(2,3)
    by (cases "svc_admission_refusal_reason E sn r (fst ?c)")
      (simp_all add: svc_should_allow_def svc_evaluate_admission_def svc_get_or_create_state_def on_repo_get_or_create_present [OF row]
        svc_trial_admission_def svc_frame svc_helpers split_beta Let_def)
qed

definition cannot_close :: "int \<Rightarrow> string \<Rightarrow> int \<Rightarrow> svc \<Rightarrow> bool" where
  "cannot_close slots sn spare s \<longleftrightarrow> (\<exists>r. row_of (repository s) sn = Some r
     \<and> (state r = OPEN \<or> state r = HALF_OPEN \<and> success_count r + spare \<le> half_open_request_count r
                         \<and> half_open_request_count r \<le> slots))"

lemma acquire_slack:
  assumes "row_of R sn = Some r" and "1 \<le> slots"
    and "state r = OPEN \<or> state r = HALF_OPEN \<and> success_count r \<le> half_open_request_count r \<and> half_open_request_count r \<le> slots"
  shows "\<exists>r'. row_of (snd (repo_try_acquire_half_open_slot now sn slots stuck R)) sn = Some r'
    \<and> (if fst (fst (repo_try_acquire_half_open_slot now sn slots stuck R))
       then state r' = HALF_OPEN \<and> success_count r' + 1 \<le> half_open_request_count r' \<and> half_open_request_count r' \<le> slots
       else r' = r)"
  using assms by (auto simp: repo_try_acquire_half_open_slot_def repo_rows Let_def)

lemma admission_slack:
  assumes "cannot_close slots sn 0 s" and "slots = half_open_max_calls (svc_config s)" and "1 \<le> slots" and "svc_is_enabled s"
  shows "cannot_close slots sn (if fst (svc_should_allow E sn s) then 1 else 0) (snd (svc_should_allow E sn s))"
proof -
  obtain r where r: "row_of (repository s) sn = Some r"
      "state r = OPEN \<or> state r = HALF_OPEN \<and> success_count r \<le> half_open_request_count r \<and> half_open_request_count r \<le> slots"
    using assms(1) by (auto simp: cannot_close_def)
  then have "state r \<noteq> CLOSED" by auto
  from should_allow_cases [OF r(1) this assms(4), of E]
    acquire_slack [OF r(1) assms(3) r(2), of "at_time E" "half_open_stuck_timeout_seconds (svc_config s)"] r
  show ?thesis unfolding cannot_close_def assms(2) [symmetric] Let_def by (auto split: if_splits)
qed

lemma success_slack:
  assumes "cannot_close slots sn 1 s" and "slots < success_threshold (svc_config s)"
  shows "cannot_close slots sn 0 (svc_record_success E sn None None s)"
proof -
  let ?c = "svc_get_effective_config E sn s"
  obtain r where r: "row_of (repository s) sn = Some r"
      "state r = OPEN \<or> state r = HALF_OPEN \<and> success_count r + 1 \<le> half_open_request_count r \<and> half_open_request_count r \<le> slots"
    using assms(1) by (auto simp: cannot_close_def)
  have row: "row_of (repository (snd ?c)) sn = Some r" using r(1) by (simp add: svc_frame)
  show ?thesis using r assms(2)
    by (auto simp: cannot_close_def svc_record_success_def svc_slow_success_def svc_trial_success_def svc_get_or_create_state_def
        on_repo_get_or_create_present [OF row] repo_record_success_with_close_check_def repo_rows svc_frame svc_helpers split_beta Let_def)
qed

lemma failure_slack:
  assumes "cannot_close slots sn 1 s"
  shows "cannot_close slots sn 0 (svc_record_failure E sn ctx s)"
proof -
  obtain r where r: "row_of (repository s) sn = Some r"
      "state r = OPEN \<or> state r = HALF_OPEN \<and> success_count r + 1 \<le> half_open_request_count r \<and> half_open_request_count r \<le> slots"
    using assms by (auto simp: cannot_close_def)
  show ?thesis
  proof (cases "state r = OPEN")
    case True
    then show ?thesis using open_failure_row [OF r(1), of E ctx] by (auto simp: cannot_close_def)
  next
    case False
    then show ?thesis using r
      by (auto simp: cannot_close_def svc_record_failure_def svc_reopen_def svc_get_or_create_state_def
          on_repo_get_or_create_present repo_record_failure_with_open_check_def repo_rows svc_frame svc_helpers split_beta Let_def)
  qed
qed

lemma call_cannot_close:
  assumes "cannot_close slots sn 0 s" and "slots = half_open_max_calls (svc_config s)" and "1 \<le> slots" and "svc_is_enabled s"
    and "slots < success_threshold (svc_config s)"
  shows "cannot_close slots sn 0 (snd (svc_call sn c s))"
  using admission_slack [OF assms(1-4), of "asked c"] assms(5) success_slack failure_slack
  by (auto simp: svc_call_def split_beta Let_def config_fields)

text \<open>A success threshold above the number of trial slots is a breaker that never closes on its own.
  The slots of a half-open window are not given back, and the reset that follows the stuck timeout
  also clears the successes counted so far; so from OPEN, whatever calls are made, whenever they are
  made and however they end, the breaker is never CLOSED again.  No bound on the two settings rules
  this out.\<close>

theorem threshold_above_slots_never_closes:
  assumes "state_of (repository s) sn = OPEN" and "svc_is_enabled s" and "1 \<le> half_open_max_calls (svc_config s)"
    and "half_open_max_calls (svc_config s) < success_threshold (svc_config s)"
  shows "state_of (repository (snd (run_actions (map (svc_call sn) cs) s))) sn \<noteq> CLOSED"
proof -
  define slots where "slots = half_open_max_calls (svc_config s)"
  have "cannot_close slots sn 0 s" using assms(1) by (auto simp: cannot_close_def state_of_def split: option.splits)
  then have "cannot_close slots sn 0 (snd (run_actions (map (svc_call sn) cs) s))"
    using assms(2-4) slots_def
  proof (induction cs arbitrary: s)
    case (Cons c cs)
    have cfg: "svc_config (snd (svc_call sn c s)) = svc_config s"
      by (simp add: svc_call_def split_beta Let_def config_fields)
    have "cannot_close slots sn 0 (snd (svc_call sn c s))"
      using call_cannot_close [OF Cons.prems(1,5) _ Cons.prems(2)] Cons.prems(3-5) by simp
    from Cons.IH [OF this] Cons.prems(2-5) cfg show ?case by (simp add: split_beta Let_def svc_is_enabled_def)
  qed simp
  then show ?thesis by (auto simp: cannot_close_def state_of_def)
qed


theorem threshold_above_slots_never_closes_witness:
  "state_of (repository (snd (run_actions (map (svc_call ''a'')
       [\<lparr>asked = calm 60000000, answered = calm 60000001, succeeded = True\<rparr>,
        \<lparr>asked = calm 60000002, answered = calm 60000003, succeeded = True\<rparr>])
       ((new_service None (default_config\<lparr>half_open_max_calls := 1\<rparr>))\<lparr>repository :=
          put_row ''a'' ((new_row ''a'')\<lparr>state := OPEN, opened_at := Some 0\<rparr>) empty_repo\<rparr>)))) ''a'' \<noteq> CLOSED"
  by (rule threshold_above_slots_never_closes)
    (simp_all add: repo_rows new_row_def new_service_def svc_config_def svc_is_enabled_def default_config_def)

end
