(* ===== verification/CB_Evidence.thy ===== *)
theory CB_Evidence
  imports CB_Lifecycle
begin

text \<open>
  What the service reports about itself: the system-wide failure evidence and the question whether a
  breaker would refuse a call.
\<close>

section \<open>Reading the fleet\<close>

definition evidence_ok :: "aggregate_evidence \<Rightarrow> bool" where
  "evidence_ok a \<longleftrightarrow> 0 \<le> ag_tripped_failures a \<and> ag_tripped_failures a \<le> ag_tripped_calls a
     \<and> 0 \<le> ag_failures a - ag_tripped_failures a
     \<and> ag_failures a - ag_tripped_failures a \<le> ag_total_calls a - ag_tripped_calls a
     \<and> int (length (ag_tripped_names a)) \<ge> ag_open_circuits a \<and> 0 \<le> ag_open_circuits a"

lemma name_evidence_bounds:
  assumes "0 \<le> fst x" and "fst x \<le> snd x"
  shows "let ((f, t, is_open, tripped), s') = svc_name_evidence E sn x l c s
         in 0 \<le> f \<and> f \<le> t \<and> (is_open \<longrightarrow> tripped)"
  using assms by (auto simp: svc_name_evidence_def split_beta Let_def split: option.splits)

lemma sum_names_bounds:
  assumes "\<And>n. 0 \<le> fst (dict_get_or per_name n (0, 0)) \<and> fst (dict_get_or per_name n (0, 0)) \<le> snd (dict_get_or per_name n (0, 0))"
    and "evidence_ok a"
  shows "evidence_ok (fst (svc_sum_names E per_name l c sns (a, s)))"
  using assms(2)
proof (induction sns arbitrary: a s)
  case (Cons n sns)
  from name_evidence_bounds [where x = "dict_get_or per_name n (0, 0)" and E = E and sn = n and s = s
      and l = "dict_get l n" and c = "dict_get c n"] assms(1) [of n] Cons.prems
  show ?case unfolding svc_sum_names.simps Let_def split_beta fst_conv snd_conv
    by (intro Cons.IH) (auto simp: evidence_ok_def split_beta)
qed simp

lemma read_each_get: "dict_get_or (ow_read_each w) n (0, 0) = ow_read n w"
proof -
  have "dict_get (map (\<lambda>(n, d). (n, ring_evidence d)) ws) n = map_option ring_evidence (dict_get ws n)" for ws
    by (induction ws) auto
  then show ?thesis by (simp add: ow_read_each_def dict_get_or_def ow_read_def split: option.splits)
qed

lemma fraction_bounds: "0 \<le> f \<Longrightarrow> f \<le> t \<Longrightarrow> 0 < t \<Longrightarrow> 0 \<le> fdiv f t \<and> fdiv f t \<le> 1"
  using fl.rnd_fraction [of f t] by (simp add: fdiv_def)


definition one_trip :: svc where
  "one_trip = svc_run [(calm 0, Note_Success ''b'' None None), (calm 1, Note_Failure ''a'' None)]
     (new_service None (default_config\<lparr>failure_threshold := 1\<rparr>))"


text \<open>\<open>refuses_calls\<close> tells what admission would do: on the stored row of a name that no downstream
  check refuses, a call made now is admitted exactly when \<open>refuses_calls\<close> answers False and the
  breaker is not HALF_OPEN with every trial slot taken in a window that is not stuck.  The read itself
  changes no row.\<close>

theorem refuses_calls_agrees:
  assumes "svc_inv s" and "row_of (repository s) sn = Some r" and "svc_is_enabled s"
    and "\<not> list_ex (\<lambda>c. c sn = Some False) (downstream_checkers s)"
  shows "fst (svc_should_allow E sn s) =
      (\<not> fst (svc_refuses_calls E r s)
       \<and> \<not> (state r = HALF_OPEN \<and> half_open_max_calls (svc_config s) \<le> half_open_request_count r
             \<and> \<not> window_stuck (at_time E) (half_open_stuck_timeout_seconds (svc_config s))
                   (half_open_window_started_at r)))
    \<and> repository (snd (svc_refuses_calls E r s)) = repository s"
proof -
  let ?c = "svc_get_effective_config E sn s"
  have row: "row_of (repository (snd ?c)) sn = Some r" using assms(2) by (simp add: svc_frame)
  have "service_name r = sn" "state r \<noteq> PINNED_TOKEN"
    using assms(1,2) by (auto simp: svc_inv_def repo_inv_def row_ok_def dest: dict_allD)
  then show ?thesis
    using assms(2-4)
    by (cases "state r"; cases "svc_admission_refusal_reason E sn r (fst ?c)")
      (simp_all add: svc_refuses_calls_def svc_should_allow_def svc_evaluate_admission_def svc_get_or_create_state_def
        on_repo_get_or_create_present [OF row] svc_trial_admission_def repo_try_acquire_half_open_slot_def repo_rows row
        svc_frame svc_helpers split_beta Let_def)
qed

theorem refuses_calls_agrees_witness:
  "\<exists>r. row_of (repository one_trip) ''a'' = Some r \<and> fst (svc_refuses_calls (calm 2) r one_trip)
     \<and> \<not> fst (svc_should_allow (calm 2) ''a'' one_trip)"
proof -
  have inv: "svc_inv one_trip" unfolding one_trip_def by (rule svc_inv_run [OF svc_inv_new])
  obtain r where r: "row_of (repository one_trip) ''a'' = Some r"
    by (cases "row_of (repository one_trip) ''a''") (simp, code_simp)
  have "the (map_option (\<lambda>r. fst (svc_refuses_calls (calm 2) r one_trip)) (row_of (repository one_trip) ''a''))"
    by code_simp
  moreover have "svc_is_enabled one_trip" "\<not> list_ex (\<lambda>c. c ''a'' = Some False) (downstream_checkers one_trip)"
    by code_simp+
  ultimately show ?thesis using refuses_calls_agrees [OF inv r, of "calm 2"] r by simp
qed

end
