(* ===== verification/Time_Window.thy ===== *)
theory Time_Window
  imports Complex_Main Prelude "HOL-Library.List_Lexorder" "HOL-Library.Char_ord" "HOL-Library.Product_Lexorder"
begin

text \<open>
  The five-minute outcome window (\<open>services/circuit_breaker/time_outcome_window.py\<close>): per key a ring of
  ten-second buckets, from which the metrics payload reads a failure rate.  A clock reading is a
  rational number of seconds, given to each operation; the cardinality cap a read resolves is the
  answer of its provider (\<open>None\<close> when that raises).  The arrays are 64 bits wide; a count of outcomes
  does not reach \<open>2 ^ 63\<close>, so their entries are integers.  A warning is a value returned beside the
  state.
\<close>

section \<open>Constants\<close>

definition FAILURE_RATE_WINDOW_SECONDS :: int where
  "FAILURE_RATE_WINDOW_SECONDS = 300"

definition BUCKET_SECONDS :: int where
  "BUCKET_SECONDS = 10"

definition BUCKET_COUNT :: int where
  "BUCKET_COUNT = FAILURE_RATE_WINDOW_SECONDS div BUCKET_SECONDS + 1"

definition MAX_OUTCOME_KEYS :: int where
  "MAX_OUTCOME_KEYS = 50"

definition HEADROOM_DIVISOR :: int where
  "HEADROOM_DIVISOR = 10"

definition MAX_SPELLING_MEMO :: int where
  "MAX_SPELLING_MEMO = 256"

definition EMPTY_EPOCH :: int where
  "EMPTY_EPOCH = -1"

section \<open>State\<close>

record bucket_ring =
  br_epochs :: "int list"
  br_failures :: "int list"
  br_totals :: "int list"

definition new_ring :: bucket_ring where
  "new_ring = \<lparr>br_epochs = replicate (nat BUCKET_COUNT) EMPTY_EPOCH,
     br_failures = replicate (nat BUCKET_COUNT) 0, br_totals = replicate (nat BUCKET_COUNT) 0\<rparr>"

record time_window =
  tw_keys :: "(string, bucket_ring) dict"
  tw_cap :: int
  tw_cap_epoch_warned :: bool
  tw_first_spelling :: "(string, string) dict"
  tw_collisions_warned :: "string list"

definition new_time_window :: time_window where
  "new_time_window = \<lparr>tw_keys = [], tw_cap = MAX_OUTCOME_KEYS, tw_cap_epoch_warned = False,
     tw_first_spelling = [], tw_collisions_warned = []\<rparr>"

section \<open>Recording\<close>

text \<open>\<open>int(clock() // 10)\<close>.\<close>

definition bucket_epoch :: "rat \<Rightarrow> int" where
  "bucket_epoch t = \<lfloor>t / of_int BUCKET_SECONDS\<rfloor>"

definition ring_add :: "int \<Rightarrow> bool \<Rightarrow> bucket_ring \<Rightarrow> bucket_ring" where
  "ring_add epoch failure r =
     (let i = nat (epoch mod BUCKET_COUNT);
          r1 = (if br_epochs r ! i \<noteq> epoch
                then r\<lparr>br_epochs := (br_epochs r)[i := epoch], br_failures := (br_failures r)[i := 0],
                       br_totals := (br_totals r)[i := 0]\<rparr>
                else r);
          r2 = r1\<lparr>br_totals := (br_totals r1)[i := br_totals r1 ! i + 1]\<rparr>
      in if failure then r2\<lparr>br_failures := (br_failures r2)[i := br_failures r2 ! i + 1]\<rparr> else r2)"

text \<open>The warning is the refused key and the cap.\<close>

definition tw_record :: "rat \<Rightarrow> string \<Rightarrow> bool \<Rightarrow> time_window \<Rightarrow> (string \<times> int) option \<times> time_window" where
  "tw_record t key failure w =
     (case dict_get (tw_keys w) key of
        Some r \<Rightarrow> (None, w\<lparr>tw_keys := dict_set key (ring_add (bucket_epoch t) failure r) (tw_keys w)\<rparr>)
      | None \<Rightarrow>
          if int (length (tw_keys w)) \<ge> tw_cap w
          then if \<not> tw_cap_epoch_warned w then (Some (key, tw_cap w), w\<lparr>tw_cap_epoch_warned := True\<rparr>)
               else (None, w)
          else (None, w\<lparr>tw_keys := dict_set key (ring_add (bucket_epoch t) failure new_ring) (tw_keys w),
                        tw_cap_epoch_warned := False\<rparr>))"

text \<open>The warning is the first and the merged spelling.\<close>

definition tw_note_key_spelling :: "string \<Rightarrow> string \<Rightarrow> time_window \<Rightarrow> (string \<times> string) option \<times> time_window" where
  "tw_note_key_spelling spelling key w =
     (case dict_get (tw_first_spelling w) key of
        None \<Rightarrow>
          if int (length (tw_first_spelling w)) < MAX_SPELLING_MEMO
          then (None, w\<lparr>tw_first_spelling := dict_set key spelling (tw_first_spelling w)\<rparr>)
          else (None, w)
      | Some first \<Rightarrow>
          if first \<noteq> spelling \<and> key \<notin> set (tw_collisions_warned w)
          then (Some (first, spelling), w\<lparr>tw_collisions_warned := key # tw_collisions_warned w\<rparr>)
          else (None, w))"

section \<open>Reading\<close>

definition walk_bucket :: "bucket_ring \<Rightarrow> int \<Rightarrow> nat \<Rightarrow> int \<times> int \<times> int \<Rightarrow> int \<times> int \<times> int" where
  "walk_bucket r now_epoch i acc =
     (let (f, t, last) = acc; epoch = br_epochs r ! i; age = now_epoch - epoch
      in if epoch < 0 then acc
         else if age < 0 \<or> age \<ge> BUCKET_COUNT then acc
         else if br_totals r ! i = 0 then acc
         else (f + br_failures r ! i, t + br_totals r ! i, if epoch > last then epoch else last))"

definition tw_walk :: "bucket_ring \<Rightarrow> int \<Rightarrow> int \<times> int \<times> int" where
  "tw_walk r now_epoch = fold (walk_bucket r now_epoch) [0..<nat BUCKET_COUNT] (0, 0, EMPTY_EPOCH)"

definition tw_resolve_cap :: "int option \<Rightarrow> int" where
  "tw_resolve_cap answer =
     (case answer of None \<Rightarrow> MAX_OUTCOME_KEYS | Some c \<Rightarrow> if c > 0 then c else MAX_OUTCOME_KEYS)"

definition tw_stale :: "int \<Rightarrow> time_window \<Rightarrow> string list" where
  "tw_stale now_epoch w = map fst (filter (\<lambda>(k, r). fst (snd (tw_walk r now_epoch)) = 0) (tw_keys w))"

definition tw_observed :: "int \<Rightarrow> time_window \<Rightarrow> (string, int \<times> int) dict" where
  "tw_observed now_epoch w =
     map (\<lambda>(k, r). (k, fst (tw_walk r now_epoch), fst (snd (tw_walk r now_epoch))))
       (filter (\<lambda>(k, r). fst (snd (tw_walk r now_epoch)) \<noteq> 0) (tw_keys w))"

definition tw_evictable :: "int \<Rightarrow> time_window \<Rightarrow> (int \<times> string) list" where
  "tw_evictable now_epoch w =
     map (\<lambda>(k, r). (snd (snd (tw_walk r now_epoch)), k))
       (filter (\<lambda>(k, r). fst (snd (tw_walk r now_epoch)) \<noteq> 0 \<and> fst (tw_walk r now_epoch) = 0) (tw_keys w))"

definition tw_snapshot :: "rat \<Rightarrow> int option \<Rightarrow> time_window \<Rightarrow> (string, int \<times> int) dict \<times> time_window" where
  "tw_snapshot t answer w =
     (let cap = tw_resolve_cap answer;
          now_epoch = bucket_epoch t;
          observed = tw_observed now_epoch w;
          evictable = tw_evictable now_epoch w;
          keys = fold dict_del (tw_stale now_epoch w) (tw_keys w);
          free = cap - int (length keys);
          headroom = max 1 (cap div HEADROOM_DIVISOR);
          evicted = (if free < headroom \<and> evictable \<noteq> []
                     then map snd (slice_to (headroom - free) (sort evictable)) else [])
      in (fold dict_del evicted observed, w\<lparr>tw_cap := cap, tw_keys := fold dict_del evicted keys\<rparr>))"

definition tw_read_all :: "rat \<Rightarrow> time_window \<Rightarrow> int \<times> int" where
  "tw_read_all t w =
     fold (\<lambda>(k, r) (f, n). (f + fst (tw_walk r (bucket_epoch t)), n + fst (snd (tw_walk r (bucket_epoch t)))))
       (tw_keys w) (0, 0)"

definition tw_reset_all :: "time_window \<Rightarrow> time_window" where
  "tw_reset_all w = w\<lparr>tw_keys := [], tw_first_spelling := [], tw_collisions_warned := [],
     tw_cap_epoch_warned := False, tw_cap := MAX_OUTCOME_KEYS\<rparr>"

section \<open>The ring as a log of outcomes\<close>

text \<open>A log of the bucket and the kind of each outcome; \<open>tally\<close> counts the entries that satisfy a predicate.\<close>

type_synonym outcome_log = "(int \<times> bool) list"

definition tally :: "('a \<Rightarrow> bool) \<Rightarrow> 'a list \<Rightarrow> int" where
  "tally P xs = int (length (filter P xs))"

lemma tally_simps [simp]:
  "tally P [] = 0" "tally P (x # xs) = (if P x then 1 else 0) + tally P xs"
  "tally P (xs @ ys) = tally P xs + tally P ys"
  by (simp_all add: tally_def)

lemma tally_nonneg [simp]: "0 \<le> tally P xs"
  by (simp add: tally_def)

lemma tally_mono: "(\<And>x. x \<in> set xs \<Longrightarrow> P x \<Longrightarrow> Q x) \<Longrightarrow> tally P xs \<le> tally Q xs"
  by (induction xs) (auto simp: tally_def)

lemma tally_cong: "(\<And>x. x \<in> set xs \<Longrightarrow> P x = Q x) \<Longrightarrow> tally P xs = tally Q xs"
  by (simp add: tally_def cong: filter_cong)

lemma tally_zero: "tally P xs = 0 \<longleftrightarrow> (\<forall>x \<in> set xs. \<not> P x)"
  by (auto simp: tally_def filter_empty_conv)

lemma tally_map: "tally P (map f xs) = tally (P \<circ> f) xs"
  by (simp add: tally_def filter_map)

definition bucket_holds :: "outcome_log \<Rightarrow> bucket_ring \<Rightarrow> nat \<Rightarrow> bool" where
  "bucket_holds L r i \<longleftrightarrow>
     (let e = br_epochs r ! i
      in (\<forall>x \<in> set L. fst x mod BUCKET_COUNT = int i \<longrightarrow> fst x \<le> e)
         \<and> (0 \<le> e \<longrightarrow> e mod BUCKET_COUNT = int i \<and> (\<exists>x \<in> set L. fst x = e) \<and> br_totals r ! i = tally (\<lambda>x. fst x = e) L
              \<and> br_failures r ! i = tally (\<lambda>x. fst x = e \<and> snd x) L))"

definition ring_holds :: "outcome_log \<Rightarrow> bucket_ring \<Rightarrow> bool" where
  "ring_holds L r \<longleftrightarrow> length (br_epochs r) = nat BUCKET_COUNT \<and> length (br_failures r) = nat BUCKET_COUNT
     \<and> length (br_totals r) = nat BUCKET_COUNT \<and> (\<forall>i < nat BUCKET_COUNT. bucket_holds L r i)"

definition up_to :: "int \<Rightarrow> outcome_log \<Rightarrow> bool" where
  "up_to e L \<longleftrightarrow> (\<forall>x \<in> set L. 0 \<le> fst x \<and> fst x \<le> e)"

lemma bucket_count [simp]: "BUCKET_COUNT = 31"
  by (simp add: BUCKET_COUNT_def FAILURE_RATE_WINDOW_SECONDS_def BUCKET_SECONDS_def)

lemma ring_holds_new [simp]: "ring_holds [] new_ring"
  by (simp add: ring_holds_def bucket_holds_def new_ring_def EMPTY_EPOCH_def)

lemma ring_holdsD:
  assumes "ring_holds L r" and "i < 31"
  shows "bucket_holds L r i" "length (br_epochs r) = 31" "length (br_failures r) = 31" "length (br_totals r) = 31"
  using assms by (simp_all add: ring_holds_def)

lemma nth_ring_add:
  assumes "int i = e mod 31" and "ring_holds L r"
  shows "br_epochs (ring_add e b r) ! i = e"
    "br_totals (ring_add e b r) ! i = (if br_epochs r ! i = e then br_totals r ! i else 0) + 1"
    "br_failures (ring_add e b r) ! i = (if br_epochs r ! i = e then br_failures r ! i else 0) + (if b then 1 else 0)"
proof -
  have "nat (e mod 31) = i" using assms(1) by simp
  moreover have "i < 31" using assms(1) pos_mod_bound [of 31 e] by linarith
  ultimately show "br_epochs (ring_add e b r) ! i = e"
    "br_totals (ring_add e b r) ! i = (if br_epochs r ! i = e then br_totals r ! i else 0) + 1"
    "br_failures (ring_add e b r) ! i = (if br_epochs r ! i = e then br_failures r ! i else 0) + (if b then 1 else 0)"
    using ring_holdsD [OF assms(2), of i] by (simp_all add: ring_add_def Let_def)
qed

lemma nth_ring_add_other:
  assumes "int i \<noteq> e mod 31"
  shows "br_epochs (ring_add e b r) ! i = br_epochs r ! i" "br_totals (ring_add e b r) ! i = br_totals r ! i"
    "br_failures (ring_add e b r) ! i = br_failures r ! i"
proof -
  have "nat (e mod 31) \<noteq> i" using assms by auto
  then show "br_epochs (ring_add e b r) ! i = br_epochs r ! i" "br_totals (ring_add e b r) ! i = br_totals r ! i"
    "br_failures (ring_add e b r) ! i = br_failures r ! i"
    by (simp_all add: ring_add_def Let_def)
qed

lemma length_ring_add [simp]:
  "length (br_epochs (ring_add e b r)) = length (br_epochs r)" "length (br_totals (ring_add e b r)) = length (br_totals r)"
  "length (br_failures (ring_add e b r)) = length (br_failures r)"
  by (simp_all add: ring_add_def Let_def)

lemma bucket_add_same:
  assumes "ring_holds L r" and "up_to e L" and "0 \<le> e" and "int i = e mod 31" and "i < 31"
  shows "bucket_holds (L @ [(e, b)]) (ring_add e b r) i"
proof -
  note h = ring_holdsD(1) [OF assms(1,5)]
  have below: "\<forall>x \<in> set L. fst x \<le> e" using assms(2) by (simp add: up_to_def)
  show ?thesis
  proof (cases "br_epochs r ! i = e")
    case True
    then show ?thesis using h assms(3,4) below nth_ring_add [OF assms(4,1), of b]
      by (simp add: bucket_holds_def Let_def)
  next
    case False
    have "tally (\<lambda>x. fst x = e) L = 0"
      unfolding tally_zero
    proof (intro ballI notI)
      fix x assume x: "x \<in> set L" "fst x = e"
      with h assms(4) have le: "e \<le> br_epochs r ! i" by (auto simp: bucket_holds_def Let_def)
      with h assms(3) obtain y where "y \<in> set L" "fst y = br_epochs r ! i"
        by (auto simp: bucket_holds_def Let_def)
      with below le False show False by force
    qed
    moreover from this have "tally (\<lambda>x. fst x = e \<and> snd x) L = 0" by (simp add: tally_zero)
    ultimately show ?thesis using False assms(3,4) below nth_ring_add [OF assms(4,1), of b]
      by (simp add: bucket_holds_def Let_def)
  qed
qed

lemma bucket_add_other:
  assumes "bucket_holds L r i" and "int i \<noteq> e mod 31"
  shows "bucket_holds (L @ [(e, b)]) (ring_add e b r) i"
proof -
  have "br_epochs r ! i \<noteq> e \<or> br_epochs r ! i < 0" using assms by (auto simp: bucket_holds_def Let_def)
  then show ?thesis using assms nth_ring_add_other [OF assms(2), of b r]
    by (auto simp: bucket_holds_def Let_def)
qed

lemma ring_holds_add:
  assumes "ring_holds L r" and "up_to e L" and "0 \<le> e"
  shows "ring_holds (L @ [(e, b)]) (ring_add e b r)"
proof -
  have "bucket_holds (L @ [(e, b)]) (ring_add e b r) i" if "i < 31" for i
    using that bucket_add_same [OF assms] bucket_add_other [OF ring_holdsD(1) [OF assms(1) that]] by blast
  then show ?thesis using ring_holdsD [OF assms(1), of 0] by (simp add: ring_holds_def)
qed

section \<open>Reading the ring\<close>

definition recent :: "int \<Rightarrow> int \<Rightarrow> bool" where
  "recent now e \<longleftrightarrow> e \<le> now \<and> now - e < 31"

lemma recent_bucket: "recent now e \<Longrightarrow> recent now e' \<Longrightarrow> e mod 31 = e' mod 31 \<Longrightarrow> e = e'"
proof -
  assume "recent now e" "recent now e'" and m: "e mod 31 = e' mod 31"
  then have "\<bar>e - e'\<bar> < 31" by (auto simp: recent_def)
  moreover have "31 dvd e - e'" using m by (simp add: mod_eq_dvd_iff)
  ultimately have "e - e' = 0" using dvd_imp_le_int [of "e - e'" 31] by fastforce
  then show ?thesis by simp
qed

text \<open>What one bucket contributes.\<close>

lemma walk_bucket_tally:
  assumes "bucket_holds L r i" and "up_to now L"
  shows "fst (walk_bucket r now i acc) = fst acc + tally (\<lambda>x. recent now (fst x) \<and> snd x \<and> fst x mod 31 = int i) L"
    and "fst (snd (walk_bucket r now i acc)) = fst (snd acc) + tally (\<lambda>x. recent now (fst x) \<and> fst x mod 31 = int i) L"
proof -
  let ?e = "br_epochs r ! i"
  consider (old) "?e < 0 \<or> \<not> recent now ?e" | (new) "0 \<le> ?e" "recent now ?e" by fastforce
  then have "fst (walk_bucket r now i acc) = fst acc + tally (\<lambda>x. recent now (fst x) \<and> snd x \<and> fst x mod 31 = int i) L
    \<and> fst (snd (walk_bucket r now i acc)) = fst (snd acc) + tally (\<lambda>x. recent now (fst x) \<and> fst x mod 31 = int i) L"
  proof cases
    case old
    have "\<not> (recent now (fst x) \<and> fst x mod 31 = int i)" if "x \<in> set L" for x
    proof
      assume x: "recent now (fst x) \<and> fst x mod 31 = int i"
      with assms(1) that have le: "fst x \<le> ?e" by (auto simp: bucket_holds_def Let_def)
      moreover have "0 \<le> fst x" using assms(2) that by (simp add: up_to_def)
      ultimately have "0 \<le> ?e" by simp
      with assms obtain y where "y \<in> set L" "fst y = ?e" by (auto simp: bucket_holds_def Let_def)
      with assms(2) have "?e \<le> now" by (auto simp: up_to_def)
      with x le old \<open>0 \<le> ?e\<close> show False by (auto simp: recent_def)
    qed
    then have "tally (\<lambda>x. recent now (fst x) \<and> fst x mod 31 = int i) L = 0"
      "tally (\<lambda>x. recent now (fst x) \<and> snd x \<and> fst x mod 31 = int i) L = 0"
      by (auto simp: tally_zero)
    moreover have "walk_bucket r now i acc = acc"
      using old by (auto simp: walk_bucket_def recent_def Let_def split_beta)
    ultimately show ?thesis by simp
  next
    case new
    then have e: "?e mod 31 = int i" "br_totals r ! i = tally (\<lambda>x. fst x = ?e) L"
        "br_failures r ! i = tally (\<lambda>x. fst x = ?e \<and> snd x) L"
      using assms(1) by (auto simp: bucket_holds_def Let_def)
    have "tally (\<lambda>x. recent now (fst x) \<and> fst x mod 31 = int i) L = br_totals r ! i"
      "tally (\<lambda>x. recent now (fst x) \<and> snd x \<and> fst x mod 31 = int i) L = br_failures r ! i"
      unfolding e(2,3) using new e(1) recent_bucket [of now] by (auto intro!: tally_cong)
    moreover have "br_totals r ! i = 0 \<Longrightarrow> br_failures r ! i = 0"
      unfolding e(2,3) by (simp add: tally_zero)
    ultimately show ?thesis using new by (auto simp: walk_bucket_def recent_def Let_def split_beta)
  qed
  then show "fst (walk_bucket r now i acc) = fst acc + tally (\<lambda>x. recent now (fst x) \<and> snd x \<and> fst x mod 31 = int i) L"
    and "fst (snd (walk_bucket r now i acc)) = fst (snd acc) + tally (\<lambda>x. recent now (fst x) \<and> fst x mod 31 = int i) L"
    by simp_all
qed

text \<open>The buckets partition the log.\<close>

lemma tally_buckets:
  "(\<Sum>i \<leftarrow> [0..<n]. tally (\<lambda>x. P x \<and> fst x mod 31 = int i) L) = tally (\<lambda>x. P x \<and> fst x mod 31 < int n) (L :: outcome_log)"
proof (induction n)
  case (Suc n)
  have "tally (\<lambda>x. P x \<and> fst x mod 31 < int (Suc n)) L =
      tally (\<lambda>x. P x \<and> fst x mod 31 < int n) L + tally (\<lambda>x. P x \<and> fst x mod 31 = int n) L"
    by (induction L) auto
  then show ?case using Suc by simp
qed (auto simp: tally_zero not_less)

lemma walk_tally:
  assumes "ring_holds L r" and "up_to now L"
  shows "fst (tw_walk r now) = tally (\<lambda>x. recent now (fst x) \<and> snd x) L"
    and "fst (snd (tw_walk r now)) = tally (\<lambda>x. recent now (fst x)) L"
proof -
  have w: "fst (fold (walk_bucket r now) is acc) =
        fst acc + (\<Sum>i \<leftarrow> is. tally (\<lambda>x. (recent now (fst x) \<and> snd x) \<and> fst x mod 31 = int i) L)
      \<and> fst (snd (fold (walk_bucket r now) is acc)) =
        fst (snd acc) + (\<Sum>i \<leftarrow> is. tally (\<lambda>x. recent now (fst x) \<and> fst x mod 31 = int i) L)"
    if "set is \<subseteq> {0..<31}" for "is" acc
    using that
  proof (induction "is" arbitrary: acc)
    case (Cons i "is")
    then show ?case using walk_bucket_tally [OF ring_holdsD(1) [OF assms(1), of i] assms(2), of acc] by (simp add: conj_assoc)
  qed simp
  show "fst (tw_walk r now) = tally (\<lambda>x. recent now (fst x) \<and> snd x) L"
    "fst (snd (tw_walk r now)) = tally (\<lambda>x. recent now (fst x)) L"
    using w [of "[0..<31]"] unfolding tw_walk_def tally_buckets bucket_count nat_numeral by simp_all
qed

section \<open>Runs\<close>

datatype tw_op =
    Tw_Record rat string bool
  | Tw_Snapshot rat "int option"
  | Tw_Note_Spelling rat string string

fun tw_time :: "tw_op \<Rightarrow> rat" where
  "tw_time (Tw_Record t _ _) = t"
| "tw_time (Tw_Snapshot t _) = t"
| "tw_time (Tw_Note_Spelling t _ _) = t"

fun tw_step :: "tw_op \<Rightarrow> time_window \<Rightarrow> time_window" where
  "tw_step (Tw_Record t k b) w = snd (tw_record t k b w)"
| "tw_step (Tw_Snapshot t c) w = snd (tw_snapshot t c w)"
| "tw_step (Tw_Note_Spelling t r k) w = snd (tw_note_key_spelling r k w)"

fun tw_run :: "tw_op list \<Rightarrow> time_window \<Rightarrow> time_window" where
  "tw_run [] w = w"
| "tw_run (x # xs) w = tw_run xs (tw_step x w)"

text \<open>The outcomes that were not refused for lack of a slot, with their times.\<close>

fun tw_accepted :: "tw_op \<Rightarrow> time_window \<Rightarrow> (string \<times> rat \<times> bool) list" where
  "tw_accepted (Tw_Record t k b) w =
     (if dict_get (tw_keys w) k \<noteq> None \<or> int (length (tw_keys w)) < tw_cap w then [(k, t, b)] else [])"
| "tw_accepted _ w = []"

fun tw_accepted_run :: "tw_op list \<Rightarrow> time_window \<Rightarrow> (string \<times> rat \<times> bool) list" where
  "tw_accepted_run [] w = []"
| "tw_accepted_run (x # xs) w = tw_accepted x w @ tw_accepted_run xs (tw_step x w)"

definition log_of :: "string \<Rightarrow> (string \<times> rat \<times> bool) list \<Rightarrow> outcome_log" where
  "log_of k G = map (\<lambda>(_, t, b). (bucket_epoch t, b)) (filter (\<lambda>x. fst x = k) G)"

text \<open>What a key's ring holds is the end of its log; what it has lost are outcomes that were no failures or are
  no longer recent.\<close>

definition lost_ok :: "int \<Rightarrow> outcome_log \<Rightarrow> bool" where
  "lost_ok now L \<longleftrightarrow> (\<forall>x \<in> set L. snd x \<longrightarrow> now - fst x \<ge> 31)"

definition key_holds :: "int \<Rightarrow> outcome_log \<Rightarrow> bucket_ring option \<Rightarrow> bool" where
  "key_holds now L ring \<longleftrightarrow> up_to now L \<and>
     (\<exists>lost L'. L = lost @ L' \<and> lost_ok now lost
        \<and> (case ring of None \<Rightarrow> L' = [] | Some r \<Rightarrow> ring_holds L' r))"

definition tw_holds :: "int \<Rightarrow> (string \<times> rat \<times> bool) list \<Rightarrow> time_window \<Rightarrow> bool" where
  "tw_holds now G w \<longleftrightarrow> dict_wf (tw_keys w) \<and> (\<forall>k. key_holds now (log_of k G) (dict_get (tw_keys w) k))"

lemma log_of_simps [simp]:
  "log_of k [] = []"
  "log_of k (G @ H) = log_of k G @ log_of k H"
  "log_of k [(k', t, b)] = (if k' = k then [(bucket_epoch t, b)] else [])"
  by (simp_all add: log_of_def)

lemma key_holds_later: "key_holds now L ring \<Longrightarrow> now \<le> now' \<Longrightarrow> key_holds now' L ring"
  unfolding key_holds_def up_to_def lost_ok_def by fastforce

lemma key_holds_forget:
  assumes "key_holds now L (Some r)" and "fst (tw_walk r now) = 0"
  shows "key_holds now L None"
proof -
  from assms(1) obtain lost L' where L: "L = lost @ L'" "lost_ok now lost" "ring_holds L' r" and up: "up_to now L"
    by (auto simp: key_holds_def)
  moreover have "up_to now L'" using up L(1) by (simp add: up_to_def)
  ultimately have "\<forall>x \<in> set L'. \<not> (recent now (fst x) \<and> snd x)"
    using assms(2) walk_tally(1) [of L' r now] by (simp add: tally_zero)
  then have "lost_ok now L" using L up by (auto simp: lost_ok_def recent_def up_to_def)
  then show ?thesis using up by (auto simp: key_holds_def)
qed

lemma key_holds_walk:
  assumes "key_holds now L (Some r)"
  shows "fst (tw_walk r now) = tally (\<lambda>x. recent now (fst x) \<and> snd x) L"
    and "fst (tw_walk r now) \<le> fst (snd (tw_walk r now))"
    and "fst (snd (tw_walk r now)) \<le> tally (\<lambda>x. recent now (fst x)) L"
proof -
  from assms obtain lost L' where L: "L = lost @ L'" "lost_ok now lost" "ring_holds L' r" and up: "up_to now L"
    by (auto simp: key_holds_def)
  moreover have "up_to now L'" using up L(1) by (simp add: up_to_def)
  moreover have "tally (\<lambda>x. recent now (fst x) \<and> snd x) lost = 0"
    using L(2) by (auto simp: lost_ok_def recent_def tally_zero)
  ultimately show "fst (tw_walk r now) = tally (\<lambda>x. recent now (fst x) \<and> snd x) L"
    "fst (tw_walk r now) \<le> fst (snd (tw_walk r now))" "fst (snd (tw_walk r now)) \<le> tally (\<lambda>x. recent now (fst x)) L"
    using walk_tally [of L' r now] by (auto intro: tally_mono)
qed

lemma key_holds_None: "key_holds now L None \<Longrightarrow> tally (\<lambda>x. recent now (fst x) \<and> snd x) L = 0"
  by (auto simp: key_holds_def lost_ok_def tally_zero recent_def)

lemma key_holds_add:
  assumes "key_holds now L ring" and "0 \<le> now"
  shows "key_holds now (L @ [(now, b)]) (Some (ring_add now b (case ring of None \<Rightarrow> new_ring | Some r \<Rightarrow> r)))"
proof -
  from assms(1) obtain lost L' where L: "L = lost @ L'" "lost_ok now lost" and up: "up_to now L"
    and r: "case ring of None \<Rightarrow> L' = [] | Some r \<Rightarrow> ring_holds L' r"
    by (auto simp: key_holds_def)
  from r have "ring_holds L' (case ring of None \<Rightarrow> new_ring | Some r \<Rightarrow> r)"
    by (cases ring) auto
  moreover have "up_to now L'" using up L(1) by (simp add: up_to_def)
  ultimately have "ring_holds (L' @ [(now, b)]) (ring_add now b (case ring of None \<Rightarrow> new_ring | Some r \<Rightarrow> r))"
    using assms(2) by (rule ring_holds_add)
  moreover have "up_to now (L @ [(now, b)])" using up assms(2) by (auto simp: up_to_def)
  ultimately show ?thesis using L by (auto simp: key_holds_def)
qed

lemma bucket_epoch_mono: "t \<le> t' \<Longrightarrow> bucket_epoch t \<le> bucket_epoch t'"
  by (simp add: bucket_epoch_def BUCKET_SECONDS_def floor_mono)

lemma bucket_epoch_nonneg: "0 \<le> t \<Longrightarrow> 0 \<le> bucket_epoch t"
  by (simp add: bucket_epoch_def BUCKET_SECONDS_def)

lemma tw_holds_record:
  assumes "tw_holds (bucket_epoch t) G w" and "0 \<le> t"
  shows "tw_holds (bucket_epoch t) (G @ tw_accepted (Tw_Record t k b) w) (snd (tw_record t k b w))"
proof -
  note add = key_holds_add [OF _ bucket_epoch_nonneg [OF assms(2)], of "log_of k G" "dict_get (tw_keys w) k" b]
  show ?thesis
    using assms(1) add
    by (auto simp: tw_holds_def tw_record_def dict_simps split: option.splits)
qed

text \<open>Dropping keys, one after the other.\<close>

lemma get_fold_del: "dict_get (fold dict_del ks d) k = (if k \<in> set ks then None else dict_get d k)"
  by (induction ks arbitrary: d) (auto simp: dict_simps)

lemma wf_fold_del: "dict_wf d \<Longrightarrow> dict_wf (fold dict_del ks d)"
  by (induction ks arbitrary: d) auto

definition tw_evicted :: "rat \<Rightarrow> int option \<Rightarrow> time_window \<Rightarrow> string list" where
  "tw_evicted t answer w =
     (let now = bucket_epoch t; cap = tw_resolve_cap answer;
          free = cap - int (length (fold dict_del (tw_stale now w) (tw_keys w)));
          headroom = max 1 (cap div HEADROOM_DIVISOR)
      in if free < headroom \<and> tw_evictable now w \<noteq> []
         then map snd (slice_to (headroom - free) (sort (tw_evictable now w))) else [])"

lemma snapshot_eq:
  "tw_snapshot t answer w =
     (fold dict_del (tw_evicted t answer w) (tw_observed (bucket_epoch t) w),
      w\<lparr>tw_cap := tw_resolve_cap answer,
        tw_keys := fold dict_del (tw_evicted t answer w) (fold dict_del (tw_stale (bucket_epoch t) w) (tw_keys w))\<rparr>)"
  by (simp add: tw_snapshot_def tw_evicted_def Let_def)

lemma dropped_keys:
  assumes "dict_wf (tw_keys w)" and "k \<in> set (tw_evicted t answer w) \<union> set (tw_stale (bucket_epoch t) w)"
  obtains r where "dict_get (tw_keys w) k = Some r"
    and "fst (tw_walk r (bucket_epoch t)) = 0 \<or> fst (snd (tw_walk r (bucket_epoch t))) = 0"
proof -
  have "\<exists>r. (k, r) \<in> set (tw_keys w) \<and> (fst (tw_walk r (bucket_epoch t)) = 0 \<or> fst (snd (tw_walk r (bucket_epoch t))) = 0)"
    using assms(2)
    by (auto simp: tw_evicted_def tw_stale_def Let_def slice_to_def tw_evictable_def split: if_splits dest!: in_set_takeD)
  with assms(1) that show ?thesis by (auto simp: dict_wf_mem)
qed

lemma tw_holds_snapshot:
  assumes "tw_holds (bucket_epoch t) G w"
  shows "tw_holds (bucket_epoch t) G (snd (tw_snapshot t answer w))"
proof -
  have wf: "dict_wf (tw_keys w)" and h: "key_holds (bucket_epoch t) (log_of k G) (dict_get (tw_keys w) k)" for k
    using assms by (simp_all add: tw_holds_def)
  have "key_holds (bucket_epoch t) (log_of k G) None"
    if dropped: "k \<in> set (tw_evicted t answer w) \<union> set (tw_stale (bucket_epoch t) w)" for k
    using dropped
  proof (rule dropped_keys [OF wf])
    fix r assume "dict_get (tw_keys w) k = Some r"
      "fst (tw_walk r (bucket_epoch t)) = 0 \<or> fst (snd (tw_walk r (bucket_epoch t))) = 0"
    with h [of k] show ?thesis
      using key_holds_forget key_holds_walk [of "bucket_epoch t" "log_of k G" r] tally_nonneg
      by (metis antisym)
  qed
  then show ?thesis using wf h by (auto simp: tw_holds_def snapshot_eq get_fold_del wf_fold_del)
qed

lemma tw_holds_later: "tw_holds now G w \<Longrightarrow> now \<le> now' \<Longrightarrow> tw_holds now' G w"
  by (auto simp: tw_holds_def intro: key_holds_later)

lemma tw_holds_new [simp]: "tw_holds now [] new_time_window"
  by (simp add: tw_holds_def new_time_window_def key_holds_def up_to_def lost_ok_def)

lemma tw_holds_step:
  assumes "tw_holds now G w" and "now \<le> bucket_epoch (tw_time x)" and "0 \<le> tw_time x"
  shows "tw_holds (bucket_epoch (tw_time x)) (G @ tw_accepted x w) (tw_step x w)"
proof -
  note later = tw_holds_later [OF assms(1,2)]
  show ?thesis
  proof (cases x)
    case (Tw_Note_Spelling t r k)
    then have "tw_keys (tw_step x w) = tw_keys w"
      by (simp add: tw_note_key_spelling_def split: option.splits)
    with Tw_Note_Spelling later show ?thesis by (simp add: tw_holds_def)
  qed (use later assms(3) tw_holds_record tw_holds_snapshot in \<open>auto simp del: tw_accepted.simps(1)\<close>)
qed

lemma tw_holds_run:
  assumes "tw_holds now G w" and "sorted (map tw_time xs)"
    and "\<forall>x \<in> set xs. 0 \<le> tw_time x \<and> tw_time x \<le> t \<and> now \<le> bucket_epoch (tw_time x)" and "now \<le> bucket_epoch t"
  shows "tw_holds (bucket_epoch t) (G @ tw_accepted_run xs w) (tw_run xs w)"
  using assms
proof (induction xs arbitrary: now G w)
  case Nil
  then show ?case by (auto intro: tw_holds_later)
next
  case (Cons x xs)
  have "tw_holds (bucket_epoch (tw_time x)) (G @ tw_accepted x w) (tw_step x w)"
    using Cons.prems by (intro tw_holds_step) auto
  from Cons.IH [OF this] Cons.prems show ?case by (auto simp: bucket_epoch_mono)
qed

text \<open>The buckets in seconds: what is at most 300 seconds old is recent, what is 310 seconds old is not.\<close>

lemma recent_seconds:
  assumes "t' \<le> t"
  shows "t - t' \<le> 300 \<Longrightarrow> recent (bucket_epoch t) (bucket_epoch t')"
    and "recent (bucket_epoch t) (bucket_epoch t') \<Longrightarrow> t - t' < 310"
proof -
  have e: "of_int (bucket_epoch x) \<le> x / 10" "x / 10 < of_int (bucket_epoch x) + 1" for x
    unfolding bucket_epoch_def BUCKET_SECONDS_def by (simp_all only: of_int_numeral, linarith+)
  {
    assume "t - t' \<le> 300"
    then have "of_int (bucket_epoch t) < (of_int (bucket_epoch t' + 31) :: rat)"
      using e(1) [of t] e(2) [of t'] by simp
    then show "recent (bucket_epoch t) (bucket_epoch t')"
      using bucket_epoch_mono [OF assms] unfolding of_int_less_iff recent_def by simp
  }
  assume "recent (bucket_epoch t) (bucket_epoch t')"
  then have "of_int (bucket_epoch t) \<le> (of_int (bucket_epoch t' + 30) :: rat)"
    unfolding of_int_le_iff recent_def by simp
  then show "t - t' < 310" using e(2) [of t] e(1) [of t'] by simp
qed

definition failures_since :: "rat \<Rightarrow> string \<Rightarrow> (string \<times> rat \<times> bool) list \<Rightarrow> int" where
  "failures_since since k G = tally (\<lambda>(k', t, b). k' = k \<and> b \<and> since \<le> t) G"

definition failures_after :: "rat \<Rightarrow> string \<Rightarrow> (string \<times> rat \<times> bool) list \<Rightarrow> int" where
  "failures_after since k G = tally (\<lambda>(k', t, b). k' = k \<and> b \<and> since < t) G"

definition calls_after :: "rat \<Rightarrow> string \<Rightarrow> (string \<times> rat \<times> bool) list \<Rightarrow> int" where
  "calls_after since k G = tally (\<lambda>(k', t, b). k' = k \<and> since < t) G"

lemma tally_log_of: "tally P (log_of k G) = tally (\<lambda>(k', t, b). k' = k \<and> P (bucket_epoch t, b)) G"
  by (induction G) (auto simp: log_of_def)

lemma accepted_times: "x \<in> set (tw_accepted_run xs w) \<Longrightarrow> \<exists>y \<in> set xs. fst (snd x) = tw_time y"
proof (induction xs arbitrary: w)
  case (Cons y ys)
  then show ?case by (cases y) (auto split: if_splits)
qed simp

lemma observed_get:
  assumes "dict_wf (tw_keys w)"
  shows "dict_get (tw_observed now w) k =
    (case dict_get (tw_keys w) k of
       None \<Rightarrow> None
     | Some r \<Rightarrow> if fst (snd (tw_walk r now)) = 0 then None
                 else Some (fst (tw_walk r now), fst (snd (tw_walk r now))))"
proof -
  have "dict_get (map (\<lambda>(k, r). (k, f r)) (filter (\<lambda>(k, r). P r) d)) k =
      (case dict_get d k of None \<Rightarrow> None | Some r \<Rightarrow> if P r then Some (f r) else None)"
    if "dict_wf d" for f :: "bucket_ring \<Rightarrow> int \<times> int" and P d
    using that
  proof (induction d)
    case (Cons x d)
    have "dict_get (map (\<lambda>(k, r). (k, f r)) (filter (\<lambda>(k, r). P r) d)) (fst x) = None"
      using Cons.prems by (cases x) (auto simp: dict_wf_Cons map_of_eq_None_iff rev_image_eqI)
    with Cons show ?case by (cases x) (simp add: dict_wf_Cons)
  qed simp
  from this [OF assms] show ?thesis unfolding tw_observed_def by (simp split: option.splits)
qed



end
