(* ===== verification/CB_Config_Source.thy ===== *)
theory CB_Config_Source
  imports CB_Types Py_Values
begin

text \<open>
  Where the breaker's configuration comes from (\<open>services/circuit_breaker/config.py\<close>): the values
  of the runtime configuration manager or of the environment settings, clamped into the ranges the
  settings fields declare (\<open>settings/circuit_breaker.py\<close>, \<open>settings/field_types.py\<close>), and the
  process-wide holder that is rebuilt and swapped when the stored values change.

  The runtime configuration manager belongs to another package: what it serves is a dict of Python
  values, and it counts its changes.
\<close>

section \<open>Python values\<close>

datatype pytype = Type_Int | Type_Float

text \<open>\<open>isinstance(v, (int, float))\<close>, with \<open>bool\<close> a subclass of \<open>int\<close>.\<close>

fun py_is_number :: "pyval \<Rightarrow> bool" where
  "py_is_number (PStr _) = False"
| "py_is_number PNone = False"
| "py_is_number (PList _) = False"
| "py_is_number (PDict _) = False"
| "py_is_number _ = True"

text \<open>\<open>v < b\<close>, \<open>v > b\<close> and \<open>v == b\<close> against a number.\<close>

fun py_less :: "pyval \<Rightarrow> rat \<Rightarrow> bool" where
  "py_less (PInt n) b = (of_int n < b)"
| "py_less (PFloat x) b = (x < b)"
| "py_less PNegInf b = True"
| "py_less _ b = False"

fun py_greater :: "pyval \<Rightarrow> rat \<Rightarrow> bool" where
  "py_greater (PInt n) b = (of_int n > b)"
| "py_greater (PFloat x) b = (x > b)"
| "py_greater PInf b = True"
| "py_greater _ b = False"

fun py_is_bool :: "pyval \<Rightarrow> bool" where
  "py_is_bool (PBool _) = True"
| "py_is_bool _ = False"

section \<open>The declared bounds\<close>

record field_bound =
  fb_lower :: "rat option"
  fb_upper :: "rat option"
  fb_type :: pytype

definition int_range :: "int \<Rightarrow> int \<Rightarrow> field_bound" where
  "int_range a b = \<lparr>fb_lower = Some (of_int a), fb_upper = Some (of_int b), fb_type = Type_Int\<rparr>"

definition float_range :: "rat \<Rightarrow> rat \<Rightarrow> field_bound" where
  "float_range a b = \<lparr>fb_lower = Some a, fb_upper = Some b, fb_type = Type_Float\<rparr>"

definition MediumCount :: field_bound where "MediumCount = int_range 1 100"
definition LargeCount :: field_bound where "LargeCount = int_range 1 1000"
definition HugeCount :: field_bound where "HugeCount = int_range 1 10000"
definition IntervalDuration :: field_bound where "IntervalDuration = int_range 1 3600"
definition Percentage :: field_bound where "Percentage = float_range 0 100"
definition ShortDuration :: field_bound where "ShortDuration = float_range (fdiv 1 10) 60"
definition LongDuration :: field_bound where "LongDuration = float_range 1 3600"
definition BackoffMultiplier :: field_bound where "BackoffMultiplier = float_range 1 10"
definition JitterFactor :: field_bound where "JitterFactor = float_range 0 1"

definition declared_bounds :: "(string, field_bound) dict" where
  "declared_bounds =
    [(''failure_threshold'', MediumCount),
     (''recovery_timeout'', IntervalDuration),
     (''success_threshold'', MediumCount),
     (''half_open_max_calls'', MediumCount),
     (''half_open_stuck_timeout_seconds'', IntervalDuration),
     (''manual_override_ttl_minutes'', int_range 1 1440),
     (''failure_rate_threshold'', Percentage),
     (''sliding_window_size'', LargeCount),
     (''minimum_calls'', LargeCount),
     (''rate_limit_cascade_threshold'', LargeCount),
     (''rate_limit_cascade_window_seconds'', IntervalDuration),
     (''rate_limit_cascade_rate'', Percentage),
     (''rate_limit_cascade_minimum_calls'', MediumCount),
     (''self_ddos_rps_limit'', HugeCount),
     (''self_ddos_window_seconds'', int_range 1 300),
     (''self_ddos_backoff_multiplier'', BackoffMultiplier),
     (''self_ddos_backoff_base_seconds'', ShortDuration),
     (''self_ddos_backoff_max_seconds'', LongDuration),
     (''self_ddos_backoff_jitter_factor'', JitterFactor)]"

section \<open>The admission clamp\<close>

text \<open>\<open>int(x)\<close> and \<open>float(x)\<close>; \<open>None\<close> is the exception.  A bound is written as the number it is.\<close>

definition py_trunc :: "rat \<Rightarrow> int" where
  "py_trunc x = (if 0 \<le> x then \<lfloor>x\<rfloor> else \<lceil>x\<rceil>)"

fun py_to_int :: "pyval \<Rightarrow> int option" where
  "py_to_int (PInt n) = Some n"
| "py_to_int (PBool b) = Some (if b then 1 else 0)"
| "py_to_int (PFloat x) = Some (py_trunc x)"
| "py_to_int _ = None"

fun py_to_float :: "pyval \<Rightarrow> pyval option" where
  "py_to_float (PInt n) = Some (PFloat (fl (of_int n)))"
| "py_to_float (PBool b) = Some (PFloat (if b then 1 else 0))"
| "py_to_float (PFloat x) = Some (PFloat x)"
| "py_to_float PInf = Some PInf"
| "py_to_float PNegInf = Some PNegInf"
| "py_to_float PNaN = Some PNaN"
| "py_to_float _ = None"

definition py_coerce :: "pytype \<Rightarrow> pyval \<Rightarrow> pyval option" where
  "py_coerce ty v = (case ty of Type_Int \<Rightarrow> map_option PInt (py_to_int v) | Type_Float \<Rightarrow> py_to_float v)"

fun py_numeric :: "pyval \<Rightarrow> pyval" where
  "py_numeric (PBool b) = PInt (if b then 1 else 0)"
| "py_numeric v = v"

definition bound_val :: "pytype \<Rightarrow> rat \<Rightarrow> pyval" where
  "bound_val ty b = (case ty of Type_Int \<Rightarrow> PInt \<lfloor>b\<rfloor> | Type_Float \<Rightarrow> PFloat b)"

definition clamp_value :: "field_bound \<Rightarrow> pyval \<Rightarrow> pyval" where
  "clamp_value fb numeric =
     (let v1 = (case fb_lower fb of
                  Some lo \<Rightarrow> if py_less numeric lo then bound_val (fb_type fb) lo else numeric
                | None \<Rightarrow> numeric)
      in case fb_upper fb of
           Some hi \<Rightarrow> if py_greater v1 hi then bound_val (fb_type fb) hi else v1
         | None \<Rightarrow> v1)"

text \<open>\<open>applied == numeric\<close>: a NaN is not equal to itself.\<close>

definition py_same :: "pyval \<Rightarrow> pyval \<Rightarrow> bool" where
  "py_same v w \<longleftrightarrow> v = w \<and> v \<noteq> PNaN"

text \<open>One field: \<open>Inl\<close> is the \<open>ValueError\<close> of \<open>int(nan)\<close>.\<close>

definition admit_field :: "field_bound \<Rightarrow> pyval \<Rightarrow> unit + pyval" where
  "admit_field fb stored =
     (if \<not> py_is_number stored then Inr stored
      else
        let numeric = py_numeric stored; applied = clamp_value fb numeric
        in if py_same applied numeric \<and> \<not> py_is_bool stored then Inr stored
           else case py_coerce (fb_type fb) applied of None \<Rightarrow> Inl () | Some v \<Rightarrow> Inr v)"

fun admit_fields :: "(string, field_bound) dict \<Rightarrow> (string, pyval) dict \<Rightarrow> unit + (string, pyval) dict" where
  "admit_fields [] values = Inr values"
| "admit_fields ((name, fb) # bs) values =
     (case dict_get values name of
        None \<Rightarrow> admit_fields bs values
      | Some stored \<Rightarrow>
          case admit_field fb stored of
            Inl e \<Rightarrow> Inl e
          | Inr v \<Rightarrow> admit_fields bs (if v = stored then values else dict_set name v values))"

definition admit_config_values :: "(string, pyval) dict \<Rightarrow> unit + (string, pyval) dict" where
  "admit_config_values = admit_fields declared_bounds"

section \<open>Building a configuration\<close>

definition config_fields :: "(string, pyval) dict" where
  "config_fields =
    [(''enabled'', PBool True),
     (''failure_threshold'', PInt 5),
     (''recovery_timeout'', PInt 60),
     (''success_threshold'', PInt 2),
     (''minimum_calls'', PInt 10),
     (''sliding_window_size'', PInt 100),
     (''failure_rate_threshold'', PFloat 50),
     (''fallback_strategy'', PStr ''cache''),
     (''fallback_cache_ttl_seconds'', PInt 300),
     (''cb_open_burn_rate_multiplier'', PFloat 10),
     (''cb_open_base_consumption_minutes'', PFloat 1),
     (''manual_override_ttl_minutes'', PInt 90),
     (''half_open_max_calls'', PInt 3),
     (''half_open_stuck_timeout_seconds'', PInt 60),
     (''max_pending_duration_hours'', PInt 4),
     (''max_retry_lifetime_hours'', PInt 24),
     (''rate_limit_cascade_threshold'', PInt 10),
     (''rate_limit_cascade_window_seconds'', PInt 60),
     (''rate_limit_cascade_rate'', PFloat 10),
     (''rate_limit_cascade_minimum_calls'', PInt 20),
     (''self_ddos_protection_enabled'', PBool False),
     (''self_ddos_rps_limit'', PInt 200),
     (''self_ddos_window_seconds'', PInt 10),
     (''self_ddos_backoff_multiplier'', PFloat 2),
     (''self_ddos_backoff_base_seconds'', PFloat 1),
     (''self_ddos_backoff_max_seconds'', PFloat 60),
     (''self_ddos_backoff_jitter_factor'', PFloat (1/4)),
     (''rate_limit_distributed'', PBool False)]"

definition config_values :: "(string, pyval) dict \<Rightarrow> (string, pyval) dict" where
  "config_values source = map (\<lambda>(n, d). (n, dict_get_or source n d)) config_fields"

definition admitted :: "(string, pyval) dict \<Rightarrow> unit + (string, pyval) dict" where
  "admitted source = admit_config_values (config_values source)"

text \<open>The runtime source answers with its values, or it is missing or raises (\<open>None\<close>); a failure of
  its branch falls through to the environment settings.\<close>

definition from_settings :: "(string, pyval) dict option \<Rightarrow> (string, pyval) dict \<Rightarrow> unit + (string, pyval) dict" where
  "from_settings runtime static =
     (case runtime of
        None \<Rightarrow> admitted static
      | Some values \<Rightarrow>
          case admitted values of Inr c \<Rightarrow> Inr c | Inl _ \<Rightarrow> admitted static)"

section \<open>The process-shared holder\<close>

text \<open>\<open>'c\<close> stands for a built configuration.\<close>

record 'c config_holder =
  current_config :: "'c option"
  current_generation :: "int option"

definition empty_holder :: "'c config_holder" where
  "empty_holder = \<lparr>current_config = None, current_generation = None\<rparr>"

text \<open>What happens under the holder's lock, given the generation read before the build.\<close>

definition swap_config :: "int option \<Rightarrow> 'c \<Rightarrow> 'c config_holder \<Rightarrow> 'c option \<times> 'c config_holder" where
  "swap_config generation rebuilt h =
     (let superseded = (case (generation, current_generation h) of
                          (Some g, Some r) \<Rightarrow> g < r
                        | _ \<Rightarrow> False);
          h' = (if \<not> superseded then \<lparr>current_config = Some rebuilt, current_generation = generation\<rparr> else h)
      in (current_config h', h'))"

text \<open>A whole invalidation that nothing overtakes, with the outcome of its build (\<open>None\<close> when it raised).\<close>

definition invalidate_config :: "int option \<Rightarrow> 'c option \<Rightarrow> 'c config_holder \<Rightarrow> 'c option \<times> 'c config_holder" where
  "invalidate_config generation built h =
     (case built of None \<Rightarrow> (current_config h, h) | Some c \<Rightarrow> swap_config generation c h)"

text \<open>A read.  After a failed build of an empty holder it builds again; \<open>None\<close> is the exception of that build.\<close>

definition current_circuit_breaker_config :: "int option \<Rightarrow> 'c option \<Rightarrow> 'c option \<Rightarrow> 'c config_holder \<Rightarrow> 'c option \<times> 'c config_holder" where
  "current_circuit_breaker_config generation built built_again h =
     (case current_config h of
        Some c \<Rightarrow> (Some c, h)
      | None \<Rightarrow>
          let (installed, h') = invalidate_config generation built h
          in case installed of Some c \<Rightarrow> (Some c, h') | None \<Rightarrow> (built_again, h'))"

definition reset_circuit_breaker_config :: "'c config_holder \<Rightarrow> 'c config_holder" where
  "reset_circuit_breaker_config h = empty_holder"

section \<open>The typed configuration\<close>

text \<open>The values as the fields of \<^typ>\<open>cb_config\<close>, which is what the service computes with.  A number in a
  field of the other numeric type is the same number; any other value has no reading.\<close>

fun as_bool :: "pyval \<Rightarrow> bool option" where
  "as_bool (PBool b) = Some b"
| "as_bool _ = None"

fun as_int :: "pyval \<Rightarrow> int option" where
  "as_int (PInt n) = Some n"
| "as_int _ = None"

fun as_rat :: "pyval \<Rightarrow> rat option" where
  "as_rat (PInt n) = Some (of_int n)"
| "as_rat (PFloat x) = Some x"
| "as_rat _ = None"

fun as_str :: "pyval \<Rightarrow> string option" where
  "as_str (PStr x) = Some x"
| "as_str _ = None"

definition field_int :: "(string, pyval) dict \<Rightarrow> string \<Rightarrow> int" where
  "field_int d n = (case Option.bind (dict_get d n) as_int of Some x \<Rightarrow> x | None \<Rightarrow> 0)"

definition field_rat :: "(string, pyval) dict \<Rightarrow> string \<Rightarrow> rat" where
  "field_rat d n = (case Option.bind (dict_get d n) as_rat of Some x \<Rightarrow> x | None \<Rightarrow> 0)"

definition field_bool :: "(string, pyval) dict \<Rightarrow> string \<Rightarrow> bool" where
  "field_bool d n = (case Option.bind (dict_get d n) as_bool of Some x \<Rightarrow> x | None \<Rightarrow> False)"

definition field_str :: "(string, pyval) dict \<Rightarrow> string \<Rightarrow> string" where
  "field_str d n = (case Option.bind (dict_get d n) as_str of Some x \<Rightarrow> x | None \<Rightarrow> [])"

fun field_typed :: "pyval option \<Rightarrow> pyval \<Rightarrow> bool" where
  "field_typed (Some (PInt _)) (PInt _) = True"
| "field_typed (Some (PFloat _)) (PFloat _) = True"
| "field_typed (Some (PInt _)) (PFloat _) = True"
| "field_typed (Some (PBool _)) (PBool _) = True"
| "field_typed (Some (PStr _)) (PStr _) = True"
| "field_typed _ _ = False"

definition typed_ok :: "(string, pyval) dict \<Rightarrow> bool" where
  "typed_ok d \<longleftrightarrow> list_all (\<lambda>(n, dv). field_typed (dict_get d n) dv) config_fields"

definition typed_config :: "(string, pyval) dict \<Rightarrow> cb_config option" where
  "typed_config d =
     (if \<not> typed_ok d then None
      else Some \<lparr>enabled = field_bool d ''enabled'', failure_threshold = field_int d ''failure_threshold'',
        recovery_timeout = field_int d ''recovery_timeout'', success_threshold = field_int d ''success_threshold'',
        minimum_calls = field_int d ''minimum_calls'', sliding_window_size = field_int d ''sliding_window_size'',
        failure_rate_threshold = field_rat d ''failure_rate_threshold'',
        fallback_strategy = field_str d ''fallback_strategy'',
        fallback_cache_ttl_seconds = field_int d ''fallback_cache_ttl_seconds'',
        cb_open_burn_rate_multiplier = field_rat d ''cb_open_burn_rate_multiplier'',
        cb_open_base_consumption_minutes = field_rat d ''cb_open_base_consumption_minutes'',
        manual_override_ttl_minutes = field_int d ''manual_override_ttl_minutes'',
        half_open_max_calls = field_int d ''half_open_max_calls'',
        half_open_stuck_timeout_seconds = field_int d ''half_open_stuck_timeout_seconds'',
        max_pending_duration_hours = field_int d ''max_pending_duration_hours'',
        max_retry_lifetime_hours = field_int d ''max_retry_lifetime_hours'',
        rate_limit_cascade_threshold = field_int d ''rate_limit_cascade_threshold'',
        rate_limit_cascade_window_seconds = field_int d ''rate_limit_cascade_window_seconds'',
        rate_limit_cascade_rate = field_rat d ''rate_limit_cascade_rate'',
        rate_limit_cascade_minimum_calls = field_int d ''rate_limit_cascade_minimum_calls'',
        self_ddos_protection_enabled = field_bool d ''self_ddos_protection_enabled'',
        self_ddos_rps_limit = field_int d ''self_ddos_rps_limit'',
        self_ddos_window_seconds = field_int d ''self_ddos_window_seconds'',
        self_ddos_backoff_multiplier = field_rat d ''self_ddos_backoff_multiplier'',
        self_ddos_backoff_base_seconds = field_rat d ''self_ddos_backoff_base_seconds'',
        self_ddos_backoff_max_seconds = field_rat d ''self_ddos_backoff_max_seconds'',
        self_ddos_backoff_jitter_factor = field_rat d ''self_ddos_backoff_jitter_factor'',
        rate_limit_distributed = field_bool d ''rate_limit_distributed''\<rparr>)"

section \<open>The clamp\<close>

definition in_range :: "field_bound \<Rightarrow> pyval \<Rightarrow> bool" where
  "in_range fb v \<longleftrightarrow> (\<forall>lo. fb_lower fb = Some lo \<longrightarrow> \<not> py_less v lo)
     \<and> (\<forall>hi. fb_upper fb = Some hi \<longrightarrow> \<not> py_greater v hi)"

definition bound_ok :: "field_bound \<Rightarrow> bool" where
  "bound_ok fb \<longleftrightarrow>
     (case (fb_lower fb, fb_upper fb) of (Some lo, Some hi) \<Rightarrow> lo \<le> hi | _ \<Rightarrow> False)
     \<and> (fb_type fb = Type_Int \<longrightarrow>
          (\<forall>b. fb_lower fb = Some b \<or> fb_upper fb = Some b \<longrightarrow> (\<exists>n. b = of_int n)))"

lemma bound_ok_int_range [simp]: "a \<le> b \<Longrightarrow> bound_ok (int_range a b)"
  by (auto simp: bound_ok_def int_range_def)

lemma bound_ok_float_range [simp]: "a \<le> b \<Longrightarrow> bound_ok (float_range a b)"
  by (auto simp: bound_ok_def float_range_def)

lemmas field_types = MediumCount_def LargeCount_def HugeCount_def IntervalDuration_def Percentage_def
  ShortDuration_def LongDuration_def BackoffMultiplier_def JitterFactor_def

lemma short_duration_ok: "fdiv 1 10 \<le> 60"
proof -
  have "fl (1 / 10) \<le> fl (of_int 60)" by (intro fl_mono) simp
  then show ?thesis using fl_of_int [of 60] by (simp add: fdiv_def)
qed

lemma declared_bounds_ok: "(n, fb) \<in> set declared_bounds \<Longrightarrow> bound_ok fb"
  by (auto simp: declared_bounds_def field_types short_duration_ok)

lemma declared_bounds_wf: "dict_wf declared_bounds"
  by (simp add: dict_wf_def declared_bounds_def)

lemma clamp_cases:
  assumes "bound_ok fb"
  shows "clamp_value fb v = v \<and> in_range fb v
    \<or> (\<exists>b. clamp_value fb v = bound_val (fb_type fb) b \<and> in_range fb (bound_val (fb_type fb) b) \<and> \<not> in_range fb v)"
proof -
  from assms obtain lo hi where b: "fb_lower fb = Some lo" "fb_upper fb = Some hi" "lo \<le> hi"
    and i: "fb_type fb = Type_Int \<Longrightarrow> (\<exists>m n. lo = of_int m \<and> hi = of_int n)"
    unfolding bound_ok_def by (fastforce split: option.splits)
  have r: "in_range fb v \<longleftrightarrow> \<not> py_less v lo \<and> \<not> py_greater v hi" for v
    using b by (simp add: in_range_def)
  have lo: "in_range fb (bound_val (fb_type fb) lo)" and hi: "in_range fb (bound_val (fb_type fb) hi)"
    unfolding r using b(3) i by (cases "fb_type fb", auto simp: bound_val_def)+
  have c: "clamp_value fb v = (let v1 = if py_less v lo then bound_val (fb_type fb) lo else v
      in if py_greater v1 hi then bound_val (fb_type fb) hi else v1)"
    using b by (simp add: clamp_value_def)
  consider (below) "py_less v lo" "clamp_value fb v = bound_val (fb_type fb) lo"
    | (above) "py_greater v hi" "clamp_value fb v = bound_val (fb_type fb) hi"
    | (inside) "\<not> py_less v lo" "\<not> py_greater v hi" "clamp_value fb v = v"
    using lo unfolding c r Let_def by (metis (full_types))
  then show ?thesis
  proof cases
    case below
    then show ?thesis using lo unfolding r by blast
  next
    case above
    then show ?thesis using hi unfolding r by blast
  next
    case inside
    then show ?thesis unfolding r by blast
  qed
qed

lemma coerce_bound: "py_coerce ty (bound_val ty b) = Some (bound_val ty b)"
  by (cases ty) (simp_all add: py_coerce_def bound_val_def)

lemma coerce_bit: "b \<in> {0, 1} \<Longrightarrow> py_coerce ty (PInt b) = Some (case ty of Type_Int \<Rightarrow> PInt b | Type_Float \<Rightarrow> PFloat (of_int b))"
  using fl_of_int [of 1] by (auto simp: py_coerce_def split: pytype.splits)

lemma in_range_int_float [simp]: "in_range fb (PFloat (of_int b)) = in_range fb (PInt b)"
  by (simp add: in_range_def)

lemma admit_field_ok:
  assumes "bound_ok fb" and "admit_field fb stored = Inr v" and "py_is_number stored"
  shows "in_range fb v" and "\<not> py_is_bool v" and "py_is_number v" and "v = PNaN \<longleftrightarrow> stored = PNaN"
proof -
  have "in_range fb v \<and> \<not> py_is_bool v \<and> py_is_number v \<and> (v = PNaN \<longleftrightarrow> stored = PNaN)"
  proof (cases "stored = PNaN")
    case True
    then have "clamp_value fb PNaN = PNaN"
      using clamp_cases [OF assms(1), of PNaN] by (auto simp: in_range_def)
    with True assms show ?thesis
      by (cases "fb_type fb") (auto simp: admit_field_def Let_def py_same_def py_coerce_def in_range_def)
  next
    case False
    let ?n = "py_numeric stored"
    have n: "?n \<noteq> PNaN" "\<not> py_is_bool ?n" "py_is_number ?n" using False assms(3) by (cases stored; simp)+
    from clamp_cases [OF assms(1), of ?n]
    consider (same) "clamp_value fb ?n = ?n" "in_range fb ?n"
      | (moved) b where "clamp_value fb ?n = bound_val (fb_type fb) b" "in_range fb (bound_val (fb_type fb) b)" "\<not> in_range fb ?n"
      by blast
    then show ?thesis
    proof cases
      case same
      show ?thesis
      proof (cases stored)
        case (PBool x)
        then show ?thesis using same assms(2) coerce_bit [of "if x then 1 else 0" "fb_type fb"]
          by (cases "fb_type fb") (auto simp: admit_field_def Let_def in_range_def split: if_splits)
      qed (use same assms n False in \<open>auto simp: admit_field_def Let_def py_same_def\<close>)
    next
      case moved
      then have "bound_val (fb_type fb) b \<noteq> ?n" by auto
      with moved assms(2,3) have "v = bound_val (fb_type fb) b"
        by (auto simp: admit_field_def Let_def py_same_def coerce_bound)
      with moved(2) False show ?thesis by (cases "fb_type fb") (auto simp: bound_val_def)
    qed
  qed
  then show "in_range fb v" and "\<not> py_is_bool v" and "py_is_number v" and "v = PNaN \<longleftrightarrow> stored = PNaN" by blast+
qed

lemma admit_field_same:
  assumes "bound_ok fb" and "in_range fb v" and "\<not> py_is_bool v" and "v \<noteq> PNaN"
  shows "admit_field fb v = Inr v"
proof -
  have "py_numeric v = v" using assms(3) by (cases v) simp_all
  moreover have "clamp_value fb v = v" using clamp_cases [OF assms(1), of v] assms(2) by auto
  ultimately show ?thesis using assms by (simp add: admit_field_def py_same_def)
qed

lemma admit_field_other: "\<not> py_is_number v \<Longrightarrow> admit_field fb v = Inr v"
  by (simp add: admit_field_def)

text \<open>Field by field.\<close>

lemma admit_fields_get:
  assumes "admit_fields bs values = Inr a" and "dict_wf bs"
  shows "case dict_get bs n of
      None \<Rightarrow> dict_get a n = dict_get values n
    | Some fb \<Rightarrow> (case dict_get values n of
                     None \<Rightarrow> dict_get a n = None
                   | Some stored \<Rightarrow> \<exists>v. admit_field fb stored = Inr v \<and> dict_get a n = Some v)"
  using assms
proof (induction bs arbitrary: "values")
  case (Cons x bs)
  obtain m fb where x: "x = (m, fb)" by (cases x)
  from Cons.prems have m: "dict_get bs m = None" "dict_wf bs"
    by (auto simp: x dict_wf_Cons map_of_eq_None_iff)
  show ?case
  proof (cases "dict_get values m")
    case None
    with Cons.IH [of "values"] Cons.prems m show ?thesis by (auto simp: x split: option.splits)
  next
    case (Some stored)
    with Cons.prems obtain v where v: "admit_field fb stored = Inr v"
        "admit_fields bs (if v = stored then values else dict_set m v values) = Inr a"
      by (auto simp: x split: sum.splits)
    from Cons.IH [OF v(2) m(2)] Some v(1) m(1) show ?thesis
      by (auto simp: x dict_simps split: option.splits if_splits)
  qed
qed simp

lemma admit_fields_fix:
  assumes "\<And>n fb v. (n, fb) \<in> set bs \<Longrightarrow> dict_get d n = Some v \<Longrightarrow> admit_field fb v = Inr v"
  shows "admit_fields bs d = Inr d"
  using assms
proof (induction bs)
  case (Cons x bs)
  then show ?case by (cases x) (fastforce split: option.splits)
qed simp

lemma admitted_in_range:
  assumes "from_settings runtime static = Inr c" and "dict_get declared_bounds n = Some fb"
    and "dict_get c n = Some v" and "py_is_number v"
  shows "in_range fb v" and "\<not> py_is_bool v"
proof -
  have ok: "bound_ok fb" using assms(2) declared_bounds_ok map_of_SomeD by fast
  from assms(1) obtain source where "admit_fields declared_bounds (config_values source) = Inr c"
    by (auto simp: from_settings_def admitted_def admit_config_values_def split: option.splits sum.splits)
  from admit_fields_get [OF this declared_bounds_wf, of n] assms(2,3)
  obtain stored where a: "admit_field fb stored = Inr v" by (auto split: option.splits)
  with assms(4) have "py_is_number stored" by (cases "py_is_number stored") (auto simp: admit_field_other)
  from admit_field_ok [OF ok a this] show "in_range fb v" "\<not> py_is_bool v" by simp_all
qed

lemma typed_int:
  assumes "typed_ok c" and "dict_get config_fields n = Some (PInt d)"
  obtains k where "dict_get c n = Some (PInt k)"
proof -
  have "field_typed (dict_get c n) (PInt d)" using assms map_of_SomeD [of config_fields n] unfolding typed_ok_def list_all_iff by blast
  then show ?thesis using that by (cases "(dict_get c n, PInt d)" rule: field_typed.cases) simp_all
qed

lemma typed_float:
  assumes "typed_ok c" and "dict_get config_fields n = Some (PFloat d)"
  obtains v where "dict_get c n = Some v" "py_is_number v" "v \<noteq> PNaN" "as_rat v = Some (field_rat c n)"
proof -
  have "field_typed (dict_get c n) (PFloat d)" using assms map_of_SomeD [of config_fields n] unfolding typed_ok_def list_all_iff by blast
  then show ?thesis using that by (cases "(dict_get c n, PFloat d)" rule: field_typed.cases) (simp_all add: field_rat_def)
qed

lemma in_int_range [simp]: "in_range (int_range a b) (PInt k) \<longleftrightarrow> a \<le> k \<and> k \<le> b"
  by (auto simp: in_range_def int_range_def)

lemma in_float_range: "in_range (float_range a b) v \<Longrightarrow> as_rat v = Some q \<Longrightarrow> a \<le> q \<and> q \<le> b"
  by (cases v) (auto simp: in_range_def float_range_def)

lemma admitted_int:
  assumes "from_settings runtime static = Inr c" and "typed_ok c"
    and "dict_get config_fields n = Some (PInt d)" and "dict_get declared_bounds n = Some (int_range a b)"
  shows "a \<le> field_int c n \<and> field_int c n \<le> b"
proof -
  obtain k where k: "dict_get c n = Some (PInt k)" using typed_int [OF assms(2,3)] .
  with admitted_in_range(1) [OF assms(1,4) k] show ?thesis by (simp add: field_int_def)
qed

lemma admitted_float:
  assumes "from_settings runtime static = Inr c" and "typed_ok c"
    and "dict_get config_fields n = Some (PFloat d)" and "dict_get declared_bounds n = Some (float_range a b)"
  shows "a \<le> field_rat c n \<and> field_rat c n \<le> b"
proof -
  obtain v where v: "dict_get c n = Some v" "py_is_number v" "as_rat v = Some (field_rat c n)"
    using typed_float [OF assms(2,3)] .
  from admitted_in_range(1) [OF assms(1,4) v(1,2)] show ?thesis using v(3) by (rule in_float_range)
qed

lemma int_fields:
  "dict_get config_fields ''failure_threshold'' = Some (PInt 5)" "dict_get declared_bounds ''failure_threshold'' = Some (int_range 1 100)"
  "dict_get config_fields ''recovery_timeout'' = Some (PInt 60)" "dict_get declared_bounds ''recovery_timeout'' = Some (int_range 1 3600)"
  "dict_get config_fields ''success_threshold'' = Some (PInt 2)" "dict_get declared_bounds ''success_threshold'' = Some (int_range 1 100)"
  "dict_get config_fields ''half_open_max_calls'' = Some (PInt 3)" "dict_get declared_bounds ''half_open_max_calls'' = Some (int_range 1 100)"
  "dict_get config_fields ''half_open_stuck_timeout_seconds'' = Some (PInt 60)"
  "dict_get declared_bounds ''half_open_stuck_timeout_seconds'' = Some (int_range 1 3600)"
  "dict_get config_fields ''manual_override_ttl_minutes'' = Some (PInt 90)"
  "dict_get declared_bounds ''manual_override_ttl_minutes'' = Some (int_range 1 1440)"
  "dict_get config_fields ''sliding_window_size'' = Some (PInt 100)" "dict_get declared_bounds ''sliding_window_size'' = Some (int_range 1 1000)"
  "dict_get config_fields ''minimum_calls'' = Some (PInt 10)" "dict_get declared_bounds ''minimum_calls'' = Some (int_range 1 1000)"
  by (simp_all add: config_fields_def declared_bounds_def field_types)

lemma rate_field:
  "dict_get config_fields ''failure_rate_threshold'' = Some (PFloat 50)"
  "dict_get declared_bounds ''failure_rate_threshold'' = Some (float_range 0 100)"
  by (simp_all add: config_fields_def declared_bounds_def field_types)

fun is_numeric_default :: "pyval option \<Rightarrow> bool" where
  "is_numeric_default (Some (PInt _)) = True"
| "is_numeric_default (Some (PFloat _)) = True"
| "is_numeric_default _ = False"

lemma declared_field_typed:
  assumes "(n, fb) \<in> set declared_bounds"
  shows "(\<exists>d. dict_get config_fields n = Some (PInt d)) \<or> (\<exists>d. dict_get config_fields n = Some (PFloat d))"
proof -
  have "list_all (\<lambda>(n, fb). is_numeric_default (dict_get config_fields n)) declared_bounds"
    by (simp add: declared_bounds_def config_fields_def)
  with assms have "is_numeric_default (dict_get config_fields n)" unfolding list_all_iff by blast
  then show ?thesis by (cases "dict_get config_fields n" rule: is_numeric_default.cases) simp_all
qed

lemma admitted_again:
  assumes "from_settings runtime static = Inr c" and "typed_ok c"
  shows "admit_config_values c = Inr c"
  unfolding admit_config_values_def
proof (rule admit_fields_fix)
  fix n fb v assume n: "(n, fb) \<in> set declared_bounds" and v: "dict_get c n = Some v"
  from declared_field_typed [OF n] have num: "py_is_number v \<and> v \<noteq> PNaN"
    using typed_int [OF assms(2), of n] typed_float [OF assms(2), of n] v by fastforce
  have g: "dict_get declared_bounds n = Some fb" using n declared_bounds_wf by (simp add: dict_wf_mem)
  from admitted_in_range [OF assms(1) g v] num show "admit_field fb v = Inr v"
    using admit_field_same declared_bounds_ok [OF n] by blast
qed

lemma typed_config_fields:
  assumes "typed_config c = Some cfg"
  shows "typed_ok c" "failure_threshold cfg = field_int c ''failure_threshold''"
    "recovery_timeout cfg = field_int c ''recovery_timeout''" "success_threshold cfg = field_int c ''success_threshold''"
    "half_open_max_calls cfg = field_int c ''half_open_max_calls''"
    "half_open_stuck_timeout_seconds cfg = field_int c ''half_open_stuck_timeout_seconds''"
    "manual_override_ttl_minutes cfg = field_int c ''manual_override_ttl_minutes''"
    "sliding_window_size cfg = field_int c ''sliding_window_size''" "minimum_calls cfg = field_int c ''minimum_calls''"
    "failure_rate_threshold cfg = field_rat c ''failure_rate_threshold''"
  using assms unfolding typed_config_def by (cases "typed_ok c", auto)+



text \<open>The declared ranges do not narrow the defaults: with nothing stored, the runtime source gives exactly
  the default configuration.\<close>

theorem empty_source_gives_defaults:
  "from_settings (Some []) static = Inr config_fields \<and> typed_config config_fields = Some default_config"
proof -
  have "config_values [] = config_fields"
    by (simp add: config_values_def dict_simps split_beta)
  moreover have "admit_config_values config_fields = Inr config_fields"
    by code_simp
  moreover have "typed_config config_fields = Some default_config"
    by code_simp
  ultimately show ?thesis by (simp add: from_settings_def admitted_def)
qed

text \<open>A NaN is not clamped.  Stored in a float field it is admitted as it is: a failure-rate threshold
  that no rate reaches.  Stored in an integer field it makes the admission raise, and every other
  stored value is dropped with it: the environment settings are used instead.\<close>

theorem nan_escapes_clamp:
  "admitted [(''failure_rate_threshold'', PNaN)] = Inr (dict_set ''failure_rate_threshold'' PNaN config_fields)
   \<and> \<not> py_less PNaN b \<and> \<not> py_greater PNaN b
   \<and> from_settings (Some [(''failure_threshold'', PNaN), (''enabled'', PBool False)]) [] = Inr config_fields"
proof -
  have "admitted [(''failure_rate_threshold'', PNaN)] = Inr (dict_set ''failure_rate_threshold'' PNaN config_fields)"
    by code_simp
  moreover have "from_settings (Some [(''failure_threshold'', PNaN), (''enabled'', PBool False)]) [] = Inr config_fields"
    by code_simp
  ultimately show ?thesis by simp
qed

section \<open>Concurrent invalidations\<close>

text \<open>
  Any number of threads invalidate while the source changes.  An invalidation reads the source's
  counter, builds from what the source then serves, and swaps under the holder's lock; between these
  steps anything can happen.  The source is the sequence of the contents it has served, counted from
  0, and each change adds one.  \<open>finished\<close> is the highest counter any completed swap was labelled with.
\<close>

datatype 'c phase = Idle | Labelled int | Built int 'c

record ('v, 'c) cfg_sys =
  contents :: "'v list"
  holder :: "'c config_holder"
  phases :: "nat \<Rightarrow> 'c phase"
  finished :: int

definition source_generation :: "('v, 'c) cfg_sys \<Rightarrow> int" where
  "source_generation s = int (length (contents s)) - 1"

definition start_sys :: "'v \<Rightarrow> ('v, 'c) cfg_sys" where
  "start_sys v = \<lparr>contents = [v], holder = empty_holder, phases = (\<lambda>_. Idle), finished = -1\<rparr>"

inductive cfg_step :: "('v \<Rightarrow> 'c) \<Rightarrow> ('v, 'c) cfg_sys \<Rightarrow> ('v, 'c) cfg_sys \<Rightarrow> bool" for build where
  change: "cfg_step build s (s\<lparr>contents := contents s @ [v]\<rparr>)"
| label: "phases s i = Idle \<Longrightarrow>
    cfg_step build s (s\<lparr>phases := (phases s)(i := Labelled (source_generation s))\<rparr>)"
| build: "phases s i = Labelled g \<Longrightarrow>
    cfg_step build s (s\<lparr>phases := (phases s)(i := Built g (build (last (contents s))))\<rparr>)"
| fail: "phases s i = Labelled g \<Longrightarrow> cfg_step build s (s\<lparr>phases := (phases s)(i := Idle)\<rparr>)"
| swap: "phases s i = Built g c \<Longrightarrow>
    cfg_step build s (s\<lparr>holder := snd (swap_config (Some g) c (holder s)), phases := (phases s)(i := Idle),
                        finished := max (finished s) g\<rparr>)"

inductive cfg_reachable :: "('v \<Rightarrow> 'c) \<Rightarrow> 'v \<Rightarrow> ('v, 'c) cfg_sys \<Rightarrow> bool" for build v where
  start: "cfg_reachable build v (start_sys v)"
| step: "cfg_reachable build v s \<Longrightarrow> cfg_step build s s' \<Longrightarrow> cfg_reachable build v s'"

text \<open>A configuration is at least as new as \<open>g\<close> if it was built from some content with a counter from \<open>g\<close> on.\<close>

definition as_new_as :: "('v \<Rightarrow> 'c) \<Rightarrow> 'v list \<Rightarrow> int \<Rightarrow> 'c \<Rightarrow> bool" where
  "as_new_as build vs g c \<longleftrightarrow> (\<exists>n < length vs. g \<le> int n \<and> c = build (vs ! n))"

definition cfg_inv :: "('v \<Rightarrow> 'c) \<Rightarrow> ('v, 'c) cfg_sys \<Rightarrow> bool" where
  "cfg_inv build s \<longleftrightarrow> contents s \<noteq> []
     \<and> (\<forall>i g. phases s i = Labelled g \<longrightarrow> 0 \<le> g \<and> g < int (length (contents s)))
     \<and> (\<forall>i g c. phases s i = Built g c \<longrightarrow> 0 \<le> g \<and> as_new_as build (contents s) g c)
     \<and> finished s \<le> source_generation s
     \<and> (if finished s < 0 then current_config (holder s) = None \<and> current_generation (holder s) = None
        else current_generation (holder s) = Some (finished s)
             \<and> (\<exists>c. current_config (holder s) = Some c \<and> as_new_as build (contents s) (finished s) c))
     \<and> -1 \<le> finished s"

lemma as_new_as_append: "as_new_as build vs g c \<Longrightarrow> as_new_as build (vs @ ws) g c"
  unfolding as_new_as_def by (metis length_append nth_append trans_less_add1)

lemma as_new_as_last: "vs \<noteq> [] \<Longrightarrow> g < int (length vs) \<Longrightarrow> as_new_as build vs g (build (last vs))"
  unfolding as_new_as_def by (intro exI [of _ "length vs - 1"]) (auto simp: last_conv_nth)

lemma cfg_step_finished: "cfg_step build s s' \<Longrightarrow> finished s \<le> finished s'"
  by (induction rule: cfg_step.induct) auto

lemma cfg_inv_step: "cfg_step build s s' \<Longrightarrow> cfg_inv build s \<Longrightarrow> cfg_inv build s'"
proof (induction rule: cfg_step.induct)
  case (change s v)
  then show ?case by (fastforce simp: cfg_inv_def source_generation_def intro: as_new_as_append)
next
  case (label s i)
  then show ?case by (auto simp: cfg_inv_def source_generation_def Suc_le_eq)
next
  case (build s i g)
  then show ?case by (auto simp: cfg_inv_def source_generation_def intro: as_new_as_last)
next
  case (fail s i g)
  then show ?case by (auto simp: cfg_inv_def source_generation_def)
next
  case (swap s i g c)
  then have g: "0 \<le> g" "as_new_as build (contents s) g c" by (auto simp: cfg_inv_def)
  show ?case
  proof (cases "g < finished s")
    case True
    then have "\<not> finished s < 0" "max (finished s) g = finished s" using g by simp_all
    with True swap show ?thesis by (simp add: cfg_inv_def swap_config_def source_generation_def Let_def)
  next
    case False
    then have "max (finished s) g = g" "\<not> g < 0" using g by simp_all
    moreover have "g \<le> source_generation s" using g(2) by (auto simp: as_new_as_def source_generation_def)
    moreover have "snd (swap_config (Some g) c (holder s)) = \<lparr>current_config = Some c, current_generation = Some g\<rparr>"
      using False swap(2) by (auto simp: cfg_inv_def swap_config_def split: if_splits)
    moreover have "contents s \<noteq> []" "\<And>j e. phases s j = Labelled e \<Longrightarrow> 0 \<le> e \<and> e < int (length (contents s))"
        "\<And>j e d. phases s j = Built e d \<Longrightarrow> 0 \<le> e \<and> as_new_as build (contents s) e d"
      using swap(2) by (simp_all add: cfg_inv_def)
    ultimately show ?thesis using g unfolding cfg_inv_def by (simp add: source_generation_def)
  qed
qed

lemma cfg_inv_reachable: "cfg_reachable build v s \<Longrightarrow> cfg_inv build s"
proof (induction rule: cfg_reachable.induct)
  case start
  show ?case by (simp add: cfg_inv_def start_sys_def empty_holder_def source_generation_def)
qed (blast intro: cfg_inv_step)



end
