(* ===== verification/Dlq_Repo.thy ===== *)
theory Dlq_Repo
  imports Py_Values "HOL-Library.List_Lexorder" "HOL-Library.Char_ord" "HOL-Library.Product_Lexorder"
begin

text \<open>
  The in-memory dead letter queue (\<open>adapters/memory/failed_operation.py\<close>), over the data types of
  \<open>interfaces/repositories.py\<close>: entries by id with three secondary indexes, the replay protocol
  (acquire, complete, give back, release), cleanup, eviction and the compressed summaries.

  Each method runs under the repository's lock, so it is one function of the state; the two methods
  that take the lock twice are also given as their two halves.  A Python set has no iteration order
  a caller can rely on: a method that iterates one takes the order as a function \<open>it\<close> from the set to a
  list.  The clock is the argument \<open>now\<close>.
\<close>

section \<open>Data\<close>

datatype op_status =
    PENDING | REPLAYING | REVIEWING | REPLAYED | REQUIRES_REVIEW | RESOLVED | REJECTED | ARCHIVED
  | EXPIRED | PERMANENTLY_FAILED

record failed_op =
  fo_id :: string
  fo_domain :: string
  fo_failure_type :: string
  fo_status :: op_status
  fo_entity_type :: "string option"
  fo_entity_id :: "string option"
  fo_entity_refs :: payload
  fo_user_id :: "int option"
  fo_snapshot_data :: payload
  fo_error_code :: string
  fo_error_message :: string
  fo_retry_count :: int
  fo_max_retries :: int
  fo_last_retry_at :: "instant option"
  fo_request_data :: payload
  fo_response_data :: payload
  fo_metadata :: payload
  fo_resolved_at :: "instant option"
  fo_resolved_by_id :: "int option"
  fo_resolution_type :: string
  fo_resolution_note :: string
  fo_next_action_hint :: string
  fo_recommended_action :: string
  fo_created_at :: "instant option"
  fo_updated_at :: "instant option"
  fo_expires_at :: "instant option"

datatype compressed_status = ACTIVE | STALE | COMPRESSED_ARCHIVED

record compressed_entry =
  ce_id :: string
  ce_domain :: string
  ce_failure_type :: string
  ce_error_code :: string
  ce_count :: int
  ce_first_seen :: instant
  ce_last_seen :: instant
  ce_sample_error_message :: string
  ce_sample_context :: payload
  ce_status :: compressed_status
  ce_compressed_at :: instant
  ce_stale_at :: "instant option"
  ce_archived_at :: "instant option"

record dlq =
  storage :: "(string, failed_op) dict"
  next_id :: nat
  index_by_status :: "(op_status, string set) dict"
  index_by_domain :: "(string, string set) dict"
  index_by_status_domain :: "(op_status \<times> string, string set) dict"
  compressed_storage :: "(string, compressed_entry) dict"

definition empty_dlq :: dlq where
  "empty_dlq = \<lparr>storage = [], next_id = 1, index_by_status = [], index_by_domain = [],
     index_by_status_domain = [], compressed_storage = []\<rparr>"

definition terminal_statuses :: "op_status set" where
  "terminal_statuses = {RESOLVED, REJECTED, ARCHIVED}"

definition eviction_protected_statuses :: "op_status set" where
  "eviction_protected_statuses = {REPLAYING, REVIEWING}"

definition non_evictable_statuses :: "op_status set" where
  "non_evictable_statuses = terminal_statuses \<union> eviction_protected_statuses"

text \<open>\<open>x or y\<close> on strings and on optional ids: an empty string and a zero are falsy.\<close>

definition str_or :: "string \<Rightarrow> string \<Rightarrow> string" where
  "str_or x y = (if x = [] then y else x)"

definition id_or :: "int option \<Rightarrow> int option \<Rightarrow> int option" where
  "id_or x y = (if x = None \<or> x = Some 0 then y else x)"

section \<open>Indexes\<close>

definition index_add :: "'k \<Rightarrow> string \<Rightarrow> ('k, string set) dict \<Rightarrow> ('k, string set) dict" where
  "index_add k eid d = dict_set k (insert eid (dict_get_or d k {})) d"

definition index_discard :: "'k \<Rightarrow> string \<Rightarrow> ('k, string set) dict \<Rightarrow> ('k, string set) dict" where
  "index_discard k eid d = (case dict_get d k of None \<Rightarrow> d | Some S \<Rightarrow> dict_set k (S - {eid}) d)"

definition add_to_index :: "string \<Rightarrow> op_status \<Rightarrow> string \<Rightarrow> dlq \<Rightarrow> dlq" where
  "add_to_index eid st dm q =
     q\<lparr>index_by_status := index_add st eid (index_by_status q),
       index_by_domain := index_add dm eid (index_by_domain q),
       index_by_status_domain := index_add (st, dm) eid (index_by_status_domain q)\<rparr>"

definition remove_from_index :: "string \<Rightarrow> op_status \<Rightarrow> string \<Rightarrow> dlq \<Rightarrow> dlq" where
  "remove_from_index eid st dm q =
     q\<lparr>index_by_status := index_discard st eid (index_by_status q),
       index_by_domain := index_discard dm eid (index_by_domain q),
       index_by_status_domain := index_discard (st, dm) eid (index_by_status_domain q)\<rparr>"

definition update_index_status :: "string \<Rightarrow> op_status \<Rightarrow> op_status \<Rightarrow> string \<Rightarrow> dlq \<Rightarrow> dlq" where
  "update_index_status eid old new dm q = add_to_index eid new dm (remove_from_index eid old dm q)"

section \<open>Creating and reading\<close>

text \<open>What the caller of \<open>create\<close> supplies.\<close>

record new_op =
  no_domain :: string
  no_failure_type :: string
  no_error_message :: string
  no_error_code :: string
  no_entity_type :: "string option"
  no_entity_id :: "string option"
  no_entity_refs :: payload
  no_user_id :: "int option"
  no_snapshot_data :: payload
  no_request_data :: payload
  no_response_data :: payload
  no_metadata :: payload
  no_retry_count :: int
  no_max_retries :: int
  no_next_action_hint :: string
  no_recommended_action :: string
  no_expires_at :: "instant option"

definition dlq_create :: "instant \<Rightarrow> new_op \<Rightarrow> dlq \<Rightarrow> failed_op \<times> dlq" where
  "dlq_create now n q =
     (let eid = nat_str (next_id q);
          entry = \<lparr>fo_id = eid, fo_domain = no_domain n, fo_failure_type = no_failure_type n,
             fo_status = PENDING, fo_entity_type = no_entity_type n, fo_entity_id = no_entity_id n,
             fo_entity_refs = no_entity_refs n, fo_user_id = no_user_id n,
             fo_snapshot_data = no_snapshot_data n, fo_error_code = no_error_code n,
             fo_error_message = no_error_message n, fo_retry_count = no_retry_count n,
             fo_max_retries = no_max_retries n, fo_last_retry_at = None,
             fo_request_data = no_request_data n, fo_response_data = no_response_data n,
             fo_metadata = no_metadata n, fo_resolved_at = None, fo_resolved_by_id = None,
             fo_resolution_type = [], fo_resolution_note = [],
             fo_next_action_hint = no_next_action_hint n,
             fo_recommended_action = no_recommended_action n, fo_created_at = Some now,
             fo_updated_at = Some now, fo_expires_at = no_expires_at n\<rparr>;
          q1 = add_to_index eid PENDING (no_domain n) (q\<lparr>storage := dict_set eid entry (storage q)\<rparr>)
      in (entry, q1\<lparr>next_id := next_id q + 1\<rparr>))"

text \<open>\<open>_copy_with_updates\<close>: the updates and a fresh \<open>updated_at\<close>.\<close>

definition copy_with_updates :: "instant \<Rightarrow> (failed_op \<Rightarrow> failed_op) \<Rightarrow> failed_op \<Rightarrow> failed_op" where
  "copy_with_updates now f e = (f e)\<lparr>fo_updated_at := Some now\<rparr>"

definition dlq_get_by_id :: "string \<Rightarrow> dlq \<Rightarrow> failed_op option" where
  "dlq_get_by_id eid q = dict_get (storage q) eid"

text \<open>The entries of a list of ids, in that order, skipping ids that are not stored.\<close>

definition entries_of :: "dlq \<Rightarrow> string list \<Rightarrow> failed_op list" where
  "entries_of q ids = List.map_filter (\<lambda>i. dict_get (storage q) i) ids"

definition dlq_get_pending_by_domain :: "(string set \<Rightarrow> string list) \<Rightarrow> string \<Rightarrow> int \<Rightarrow> dlq \<Rightarrow> failed_op list" where
  "dlq_get_pending_by_domain it dm limit q =
     take (nat limit) (entries_of q (it (dict_get_or (index_by_status_domain q) (PENDING, dm) {})))"

definition dlq_get_pending_count_by_domain :: "string \<Rightarrow> dlq \<Rightarrow> nat" where
  "dlq_get_pending_count_by_domain dm q = card (dict_get_or (index_by_status_domain q) (PENDING, dm) {})"

section \<open>Status changes\<close>

record resolution =
  rs_type :: string
  rs_note :: string
  rs_by :: "int option"
  rs_action :: string

definition no_resolution :: resolution where
  "no_resolution = \<lparr>rs_type = [], rs_note = [], rs_by = None, rs_action = []\<rparr>"

definition dlq_update_status :: "instant \<Rightarrow> string \<Rightarrow> op_status \<Rightarrow> resolution \<Rightarrow> dlq \<Rightarrow> bool \<times> dlq" where
  "dlq_update_status now eid st rs q =
     (case dict_get (storage q) eid of
        None \<Rightarrow> (False, q)
      | Some e \<Rightarrow>
          let u = copy_with_updates now (\<lambda>e. e\<lparr>fo_status := st,
                      fo_resolved_at := if st = RESOLVED then Some now else fo_resolved_at e,
                      fo_resolved_by_id := id_or (rs_by rs) (fo_resolved_by_id e),
                      fo_resolution_type := str_or (rs_type rs) (fo_resolution_type e),
                      fo_resolution_note := str_or (rs_note rs) (fo_resolution_note e),
                      fo_recommended_action := str_or (rs_action rs) (fo_recommended_action e)\<rparr>) e;
              q1 = q\<lparr>storage := dict_set eid u (storage q)\<rparr>
          in (True, if fo_status e \<noteq> st then update_index_status eid (fo_status e) st (fo_domain e) q1 else q1))"

definition dlq_increment_retry_count :: "instant \<Rightarrow> string \<Rightarrow> dlq \<Rightarrow> bool \<times> dlq" where
  "dlq_increment_retry_count now eid q =
     (case dict_get (storage q) eid of
        None \<Rightarrow> (False, q)
      | Some e \<Rightarrow>
          (True, q\<lparr>storage := dict_set eid
             (copy_with_updates now (\<lambda>e. e\<lparr>fo_retry_count := fo_retry_count e + 1, fo_last_retry_at := Some now\<rparr>) e)
             (storage q)\<rparr>))"

definition dlq_mark_as_resolved :: "instant \<Rightarrow> string \<Rightarrow> string \<Rightarrow> string \<Rightarrow> int option \<Rightarrow> dlq \<Rightarrow> bool \<times> dlq" where
  "dlq_mark_as_resolved now eid rtype note by =
     dlq_update_status now eid RESOLVED \<lparr>rs_type = rtype, rs_note = note, rs_by = by, rs_action = []\<rparr>"

fun dlq_bulk_update_status :: "instant \<Rightarrow> string list \<Rightarrow> op_status \<Rightarrow> dlq \<Rightarrow> nat \<times> dlq" where
  "dlq_bulk_update_status now [] st q = (0, q)"
| "dlq_bulk_update_status now (eid # ids) st q =
     (let (ok, q1) = dlq_update_status now eid st no_resolution q;
          (n, q2) = dlq_bulk_update_status now ids st q1
      in (if ok then n + 1 else n, q2))"

section \<open>Queries\<close>

definition dlq_get_expired_operations :: "instant \<Rightarrow> int \<Rightarrow> dlq \<Rightarrow> failed_op list" where
  "dlq_get_expired_operations before limit q =
     slice_to limit (filter (\<lambda>e. case fo_expires_at e of None \<Rightarrow> False | Some t \<Rightarrow> t < before) (map snd (storage q)))"

definition dlq_find_expired :: "instant \<Rightarrow> dlq \<Rightarrow> failed_op list" where
  "dlq_find_expired now q =
     filter (\<lambda>e. case fo_expires_at e of None \<Rightarrow> False | Some t \<Rightarrow> t < now) (map snd (storage q))"

text \<open>A filter argument that is \<open>None\<close> or the empty string is no filter where the source tests its truth.\<close>

definition truthy :: "string option \<Rightarrow> bool" where
  "truthy x \<longleftrightarrow> x \<noteq> None \<and> x \<noteq> Some []"

definition dlq_find_by_status ::
    "(string set \<Rightarrow> string list) \<Rightarrow> op_status \<Rightarrow> string option \<Rightarrow> string option \<Rightarrow> int \<Rightarrow> dlq \<Rightarrow> failed_op list" where
  "dlq_find_by_status it st dm ft limit q =
     (let ids = (if truthy dm then dict_get_or (index_by_status_domain q) (st, the dm) {}
                 else dict_get_or (index_by_status q) st {})
      in take (nat limit) (filter (\<lambda>e. \<not> truthy ft \<or> fo_failure_type e = the ft) (entries_of q (it ids))))"

definition dlq_select_for_find ::
    "(string set \<Rightarrow> string list) \<Rightarrow> op_status option \<Rightarrow> string option \<Rightarrow> string option \<Rightarrow> dlq \<Rightarrow> failed_op list" where
  "dlq_select_for_find it st dm ft q =
     (let entries = (case (st, dm) of
            (Some s, Some d) \<Rightarrow> entries_of q (it (dict_get_or (index_by_status_domain q) (s, d) {}))
          | (Some s, None) \<Rightarrow> entries_of q (it (dict_get_or (index_by_status q) s {}))
          | (None, Some d) \<Rightarrow> entries_of q (it (dict_get_or (index_by_domain q) d {}))
          | (None, None) \<Rightarrow> map snd (storage q))
      in case ft of None \<Rightarrow> entries | Some f \<Rightarrow> filter (\<lambda>e. fo_failure_type e = f) entries)"

text \<open>A stable sort in descending order, and \<open>xs[a : b]\<close> for bounds that are not negative.\<close>

definition created_or :: "instant \<Rightarrow> failed_op \<Rightarrow> instant" where
  "created_or now e = (case fo_created_at e of None \<Rightarrow> now | Some t \<Rightarrow> t)"

definition slice :: "int \<Rightarrow> int \<Rightarrow> 'a list \<Rightarrow> 'a list" where
  "slice a b xs = drop (nat a) (take (nat b) xs)"

definition dlq_find ::
    "(string set \<Rightarrow> string list) \<Rightarrow> instant \<Rightarrow> op_status option \<Rightarrow> string option \<Rightarrow> string option \<Rightarrow> int \<Rightarrow> int \<Rightarrow> dlq
       \<Rightarrow> failed_op list" where
  "dlq_find it now st dm ft offset limit q =
     slice offset (offset + limit) (sort_key (\<lambda>e. - created_or now e) (dlq_select_for_find it st dm ft q))"

definition dlq_count ::
    "(string set \<Rightarrow> string list) \<Rightarrow> op_status option \<Rightarrow> string option \<Rightarrow> string option \<Rightarrow> dlq \<Rightarrow> nat" where
  "dlq_count it st dm ft q = length (dlq_select_for_find it st dm ft q)"

definition dlq_count_created_in_window :: "instant \<Rightarrow> instant \<Rightarrow> dlq \<Rightarrow> nat" where
  "dlq_count_created_in_window a b q =
     length (filter (\<lambda>e. case fo_created_at e of None \<Rightarrow> False | Some t \<Rightarrow> a \<le> t \<and> t \<le> b) (map snd (storage q)))"

text \<open>
  The selection of replayable entries.  A position is the creation instant and the id; a cursor is the
  position it encodes.  (The source encodes the instant as seconds with six decimals, and compares
  the seconds as a float rounded to the microsecond; for instants up to the year 2242 the
  floats are less than a microsecond apart, so the comparison is that of the instants.)
\<close>

type_synonym position = "instant \<times> string"

definition replay_cursor_position :: "instant \<Rightarrow> string \<Rightarrow> position" where
  "replay_cursor_position t eid = (t, eid)"

record page =
  pg_entries :: "failed_op list"
  pg_next_cursor :: "position option"
  pg_scan_exhausted :: bool

definition source_of :: "failed_op \<Rightarrow> pyval option" where
  "source_of e = dict_get (fo_metadata e) ''source''"

text \<open>The pass over the pending ids: the entries past the cursor with their positions.\<close>

definition examined :: "dlq \<Rightarrow> position option \<Rightarrow> string list \<Rightarrow> (position \<times> failed_op) list" where
  "examined q after ids =
     filter (\<lambda>(p, e). case after of None \<Rightarrow> True | Some f \<Rightarrow> \<not> p \<le> f)
       (List.map_filter (\<lambda>e. map_option (\<lambda>t. (replay_cursor_position t (fo_id e), e)) (fo_created_at e))
         (entries_of q ids))"

fun highest :: "(position \<times> failed_op) option \<Rightarrow> (position \<times> failed_op) list \<Rightarrow> (position \<times> failed_op) option" where
  "highest best [] = best"
| "highest None (x # xs) = highest (Some x) xs"
| "highest (Some b) (x # xs) = highest (Some (if fst x > fst b then x else b)) xs"

definition dlq_find_replayable_page ::
    "(string set \<Rightarrow> string list) \<Rightarrow> int \<Rightarrow> string option \<Rightarrow> string option \<Rightarrow> string option \<Rightarrow> int \<Rightarrow> position option \<Rightarrow> dlq
       \<Rightarrow> page" where
  "dlq_find_replayable_page it cap dm ft source limit cursor q =
     (let ids = (if truthy dm then dict_get_or (index_by_status_domain q) (PENDING, the dm) {}
                 else dict_get_or (index_by_status q) PENDING {});
          seen = examined q cursor (it ids);
          matches = filter (\<lambda>(p, e). fo_retry_count e < cap \<and> (\<not> truthy ft \<or> fo_failure_type e = the ft)
                       \<and> (source = None \<or> source_of e = map_option PStr source)) seen;
          selected = take (nat limit) (sort_key fst matches);
          boundary = (if length matches > length selected \<and> selected \<noteq> [] then Some (last selected)
                      else highest None seen)
      in \<lparr>pg_entries = map snd selected, pg_next_cursor = map_option fst boundary, pg_scan_exhausted = False\<rparr>)"

definition dlq_find_sla_breached :: "(string set \<Rightarrow> string list) \<Rightarrow> instant \<Rightarrow> (string, int) dict \<Rightarrow> dlq \<Rightarrow> failed_op list" where
  "dlq_find_sla_breached it now thresholds q =
     filter (\<lambda>e. case fo_created_at e of
               None \<Rightarrow> False
             | Some t \<Rightarrow> now - t > dict_get_or thresholds (fo_domain e) (minutes (24 * 60)))
       (entries_of q (it (dict_get_or (index_by_status q) PENDING {})))"

text \<open>Faceted counts; an emptied index set is dropped.\<close>

definition facet :: "('k, string set) dict \<Rightarrow> ('k \<times> nat) list" where
  "facet d = map (\<lambda>(k, S). (k, card S)) (filter (\<lambda>(k, S). S \<noteq> {}) d)"

definition dlq_get_facet_counts ::
    "op_status option \<Rightarrow> string option \<Rightarrow> dlq \<Rightarrow> (op_status \<times> nat) list \<times> (string \<times> nat) list" where
  "dlq_get_facet_counts st dm q =
     ((case dm of
         None \<Rightarrow> facet (index_by_status q)
       | Some d \<Rightarrow> map (\<lambda>((s, _), n). (s, n)) (filter (\<lambda>((_, d'), _). d' = d) (facet (index_by_status_domain q)))),
      (case st of
         None \<Rightarrow> facet (index_by_domain q)
       | Some s \<Rightarrow> map (\<lambda>((_, d), n). (d, n)) (filter (\<lambda>((s', _), _). s' = s) (facet (index_by_status_domain q)))))"

section \<open>Replay\<close>

definition force_acquirable :: "op_status set" where
  "force_acquirable = {PENDING, REQUIRES_REVIEW}"

text \<open>\<open>metadata.get(k, 0) + n\<close> on the counters the acquisition keeps there.\<close>

definition counter_of :: "string \<Rightarrow> payload \<Rightarrow> int" where
  "counter_of k m = (case dict_get m k of Some (PInt n) \<Rightarrow> n | _ \<Rightarrow> 0)"

definition dlq_try_acquire_for_replay :: "instant \<Rightarrow> string \<Rightarrow> int \<Rightarrow> bool \<Rightarrow> dlq \<Rightarrow> failed_op option \<times> dlq" where
  "dlq_try_acquire_for_replay now eid cap force q =
     (case dict_get (storage q) eid of
        None \<Rightarrow> (None, q)
      | Some e \<Rightarrow>
          if force \<and> fo_status e \<notin> force_acquirable
             \<or> \<not> force \<and> (fo_status e \<noteq> PENDING \<or> fo_retry_count e \<ge> cap)
          then (None, q)
          else
            let u = (if force
                     then copy_with_updates now (\<lambda>e. e\<lparr>fo_status := REPLAYING, fo_retry_count := 1,
                            fo_last_retry_at := Some now,
                            fo_metadata :=
                              (let m = dict_set ''previous_total_retries''
                                         (PInt (counter_of ''previous_total_retries'' (fo_metadata e) + fo_retry_count e))
                                         (fo_metadata e)
                               in dict_set ''force_redrive_count'' (PInt (counter_of ''force_redrive_count'' m + 1)) m)\<rparr>) e
                     else copy_with_updates now (\<lambda>e. e\<lparr>fo_status := REPLAYING, fo_retry_count := fo_retry_count e + 1,
                            fo_last_retry_at := Some now\<rparr>) e)
            in (Some u, update_index_status eid (fo_status e) REPLAYING (fo_domain e)
                          (q\<lparr>storage := dict_set eid u (storage q)\<rparr>)))"

text \<open>\<open>{**a, **b}\<close>.\<close>

definition dict_merge :: "('k, 'v) dict \<Rightarrow> ('k, 'v) dict \<Rightarrow> ('k, 'v) dict" where
  "dict_merge a b = fold (\<lambda>(k, v) d. dict_set k v d) b a"

definition completed_status :: "bool \<Rightarrow> failed_op \<Rightarrow> op_status" where
  "completed_status ok e = (if ok then RESOLVED else if fo_retry_count e \<ge> fo_max_retries e then REQUIRES_REVIEW else PENDING)"

definition dlq_complete_replay ::
    "instant \<Rightarrow> string \<Rightarrow> bool \<Rightarrow> string \<Rightarrow> string \<Rightarrow> int option \<Rightarrow> payload \<Rightarrow> dlq \<Rightarrow> bool \<times> dlq" where
  "dlq_complete_replay now eid ok rtype note by details q =
     (case dict_get (storage q) eid of
        None \<Rightarrow> (False, q)
      | Some e \<Rightarrow>
          let new = completed_status ok e;
              u = copy_with_updates now (\<lambda>e. e\<lparr>fo_status := new,
                    fo_error_message := str_or note (fo_error_message e),
                    fo_metadata := dict_merge (fo_metadata e) details,
                    fo_resolved_at := (if ok then Some now else fo_resolved_at e),
                    fo_resolved_by_id := id_or by (fo_resolved_by_id e),
                    fo_resolution_type := str_or rtype (fo_resolution_type e),
                    fo_resolution_note := str_or note (fo_resolution_note e)\<rparr>) e;
              q1 = q\<lparr>storage := dict_set eid u (storage q)\<rparr>
          in (True, if fo_status e \<noteq> new then update_index_status eid (fo_status e) new (fo_domain e) q1 else q1))"

definition dlq_return_replay_attempt :: "string \<Rightarrow> int \<Rightarrow> dlq \<Rightarrow> bool \<times> dlq" where
  "dlq_return_replay_attempt eid acquired q =
     (case dict_get (storage q) eid of
        None \<Rightarrow> (False, q)
      | Some e \<Rightarrow>
          if fo_status e \<noteq> REPLAYING \<or> fo_retry_count e \<noteq> acquired then (False, q)
          else (True, q\<lparr>storage := dict_set eid (e\<lparr>fo_retry_count := acquired - 1\<rparr>) (storage q)\<rparr>))"

definition STALE_RELEASE_AT_CAP_NOTE :: string where
  "STALE_RELEASE_AT_CAP_NOTE = ''interrupted on its last allowed attempt''"

definition released_entry :: "instant \<Rightarrow> failed_op \<Rightarrow> failed_op" where
  "released_entry now e =
     (if fo_retry_count e \<ge> fo_max_retries e
      then copy_with_updates now (\<lambda>e. e\<lparr>fo_status := REQUIRES_REVIEW, fo_resolution_note := STALE_RELEASE_AT_CAP_NOTE\<rparr>) e
      else copy_with_updates now (\<lambda>e. e\<lparr>fo_status := PENDING\<rparr>) e)"

fun release_loop :: "instant \<Rightarrow> instant \<Rightarrow> (string \<times> failed_op) list \<Rightarrow> dlq \<Rightarrow> nat \<times> dlq" where
  "release_loop now cutoff [] q = (0, q)"
| "release_loop now cutoff ((eid, e) # es) q =
     (if fo_status e = REPLAYING \<and> (case fo_last_retry_at e of None \<Rightarrow> False | Some t \<Rightarrow> t < cutoff)
      then let u = released_entry now e;
               q1 = update_index_status eid (fo_status e) (fo_status u) (fo_domain e)
                      (q\<lparr>storage := dict_set eid u (storage q)\<rparr>);
               (n, q2) = release_loop now cutoff es q1
           in (n + 1, q2)
      else release_loop now cutoff es q)"

definition dlq_release_stale_replaying :: "instant \<Rightarrow> int \<Rightarrow> dlq \<Rightarrow> nat \<times> dlq" where
  "dlq_release_stale_replaying now older_than q = release_loop now (now - minutes older_than) (storage q) q"

definition dlq_clear :: "dlq \<Rightarrow> dlq" where
  "dlq_clear q = q\<lparr>storage := [], next_id := 1, index_by_status := [], index_by_domain := [],
     index_by_status_domain := []\<rparr>"

section \<open>Cleanup\<close>

definition older :: "instant option \<Rightarrow> instant \<Rightarrow> bool" where
  "older t cutoff = (case t of None \<Rightarrow> False | Some x \<Rightarrow> x < cutoff)"

definition days :: "int \<Rightarrow> int" where
  "days n = minutes (n * 24 * 60)"

fun archive_loop :: "instant \<Rightarrow> instant \<Rightarrow> (string \<times> failed_op) list \<Rightarrow> dlq \<Rightarrow> nat \<times> dlq" where
  "archive_loop now cutoff [] q = (0, q)"
| "archive_loop now cutoff ((eid, e) # es) q =
     (if fo_status e = RESOLVED \<and> older (fo_resolved_at e) cutoff
      then let q1 = update_index_status eid (fo_status e) ARCHIVED (fo_domain e)
                      (q\<lparr>storage := dict_set eid (copy_with_updates now (\<lambda>e. e\<lparr>fo_status := ARCHIVED\<rparr>) e) (storage q)\<rparr>);
               (n, q2) = archive_loop now cutoff es q1
           in (n + 1, q2)
      else archive_loop now cutoff es q)"

definition dlq_archive_old_resolved :: "instant \<Rightarrow> int \<Rightarrow> dlq \<Rightarrow> nat \<times> dlq" where
  "dlq_archive_old_resolved now older_than q = archive_loop now (now - days older_than) (storage q) q"

definition drop_entry :: "string \<Rightarrow> failed_op \<Rightarrow> dlq \<Rightarrow> dlq" where
  "drop_entry eid e q = remove_from_index eid (fo_status e) (fo_domain e) (q\<lparr>storage := dict_del eid (storage q)\<rparr>)"

text \<open>The \<open>ValueError\<close> names the first id that is not archived; what was purged before it stays purged.\<close>

fun purge_by_ids :: "string list \<Rightarrow> dlq \<Rightarrow> (string + nat) \<times> dlq" where
  "purge_by_ids [] q = (Inr 0, q)"
| "purge_by_ids (eid # ids) q =
     (case dict_get (storage q) eid of
        None \<Rightarrow> purge_by_ids ids q
      | Some e \<Rightarrow>
          if fo_status e = ARCHIVED
          then let (r, q1) = purge_by_ids ids (drop_entry eid e q) in (map_sum (\<lambda>x. x) Suc r, q1)
          else (Inl eid, q))"

definition purge_older_than :: "instant \<Rightarrow> int \<Rightarrow> dlq \<Rightarrow> nat \<times> dlq" where
  "purge_older_than now older_than q =
     (let doomed = filter (\<lambda>(eid, e). fo_status e = ARCHIVED \<and> older (fo_updated_at e) (now - days older_than)) (storage q)
      in (length doomed, fold (\<lambda>(eid, e). drop_entry eid e) doomed q))"

datatype purge_error = Both_Arguments | Not_Archived string

definition dlq_purge_archived ::
    "instant \<Rightarrow> string list option \<Rightarrow> int option \<Rightarrow> dlq \<Rightarrow> (purge_error + nat) \<times> dlq" where
  "dlq_purge_archived now ids older_than q =
     (case (ids, older_than) of
        (Some _, Some _) \<Rightarrow> (Inl Both_Arguments, q)
      | (Some is, None) \<Rightarrow> (let (r, q1) = purge_by_ids is q in (map_sum Not_Archived (\<lambda>n. n) r, q1))
      | (None, Some n) \<Rightarrow> (let (k, q1) = purge_older_than now n q in (Inr k, q1))
      | (None, None) \<Rightarrow> (Inr 0, q))"

definition dlq_count_archived_older_than :: "instant \<Rightarrow> int \<Rightarrow> dlq \<Rightarrow> nat" where
  "dlq_count_archived_older_than now older_than q =
     length (filter (\<lambda>e. fo_status e = ARCHIVED \<and> older (fo_resolved_at e) (now - days older_than)) (map snd (storage q)))"

section \<open>Size limit and eviction\<close>

definition dlq_count_all :: "dlq \<Rightarrow> int" where
  "dlq_count_all q = int (length (storage q))
     - (\<Sum>st \<leftarrow> [RESOLVED, REJECTED, ARCHIVED]. int (card (dict_get_or (index_by_status q) st {})))"

definition dlq_count_by_domain :: "(string set \<Rightarrow> string list) \<Rightarrow> string \<Rightarrow> dlq \<Rightarrow> nat" where
  "dlq_count_by_domain it dm q =
     length (filter (\<lambda>e. fo_status e \<notin> terminal_statuses) (entries_of q (it (dict_get_or (index_by_domain q) dm {}))))"

text \<open>The ids with their entries, in iteration order, of the ids that are stored.\<close>

definition pairs_of :: "dlq \<Rightarrow> string list \<Rightarrow> (string \<times> failed_op) list" where
  "pairs_of q ids = List.map_filter (\<lambda>i. map_option (Pair i) (dict_get (storage q) i)) ids"

definition dlq_get_oldest_ids ::
    "(string set \<Rightarrow> string list) \<Rightarrow> instant \<Rightarrow> int \<Rightarrow> string option \<Rightarrow> dlq \<Rightarrow> string list" where
  "dlq_get_oldest_ids it now count dm q =
     (let entries = (if truthy dm then pairs_of q (it (dict_get_or (index_by_domain q) (the dm) {})) else storage q);
          evictable = filter (\<lambda>(eid, e). fo_status e \<notin> non_evictable_statuses) entries
      in map fst (slice_to count (sort_key (\<lambda>(eid, e). created_or now e) evictable)))"

definition dlq_delete :: "string \<Rightarrow> dlq \<Rightarrow> bool \<times> dlq" where
  "dlq_delete eid q = (case dict_get (storage q) eid of None \<Rightarrow> (False, q) | Some e \<Rightarrow> (True, drop_entry eid e q))"

text \<open>The second half of \<open>evict_oldest\<close>, under the lock taken again.\<close>

fun evict_ids :: "string list \<Rightarrow> dlq \<Rightarrow> nat \<times> dlq" where
  "evict_ids [] q = (0, q)"
| "evict_ids (eid # ids) q =
     (case dict_get (storage q) eid of
        None \<Rightarrow> evict_ids ids q
      | Some e \<Rightarrow>
          if fo_status e \<in> eviction_protected_statuses then evict_ids ids q
          else let (n, q1) = evict_ids ids (drop_entry eid e q) in (n + 1, q1))"

definition dlq_evict_oldest :: "(string set \<Rightarrow> string list) \<Rightarrow> instant \<Rightarrow> int \<Rightarrow> string option \<Rightarrow> dlq \<Rightarrow> nat \<times> dlq" where
  "dlq_evict_oldest it now count dm q = evict_ids (dlq_get_oldest_ids it now count dm q) q"

section \<open>Compressed summaries\<close>

definition dlq_store_compressed_entry :: "compressed_entry \<Rightarrow> dlq \<Rightarrow> dlq" where
  "dlq_store_compressed_entry c q = q\<lparr>compressed_storage := dict_set (ce_id c) c (compressed_storage q)\<rparr>"

text \<open>The last step of \<open>compress_and_evict_oldest\<close>, under the lock taken again.\<close>

fun delete_ids :: "string list \<Rightarrow> dlq \<Rightarrow> nat \<times> dlq" where
  "delete_ids [] q = (0, q)"
| "delete_ids (eid # ids) q =
     (case dict_get (storage q) eid of
        None \<Rightarrow> delete_ids ids q
      | Some e \<Rightarrow> let (n, q1) = delete_ids ids (drop_entry eid e q) in (n + 1, q1))"

text \<open>The summaries come from the compression module of another package (\<open>None\<close> when it is not installed).
  \<open>between\<close> is what other threads do after the ids were chosen and before the originals are deleted.\<close>

definition dlq_compress_and_evict_oldest ::
    "(string set \<Rightarrow> string list) \<Rightarrow> (failed_op list \<Rightarrow> compressed_entry list option) \<Rightarrow> (dlq \<Rightarrow> dlq) \<Rightarrow> instant \<Rightarrow> int
       \<Rightarrow> string option \<Rightarrow> dlq \<Rightarrow> nat \<times> dlq" where
  "dlq_compress_and_evict_oldest it compress between now count dm q =
     (let ids = dlq_get_oldest_ids it now count dm q;
          entries = entries_of q ids
      in if ids = [] \<or> entries = [] then (0, q)
         else case compress entries of
                None \<Rightarrow> (0, q)
              | Some summaries \<Rightarrow>
                  delete_ids ids (between (fold dlq_store_compressed_entry summaries q)))"

definition dlq_get_compressed_entries ::
    "string option \<Rightarrow> compressed_status option \<Rightarrow> int \<Rightarrow> dlq \<Rightarrow> compressed_entry list" where
  "dlq_get_compressed_entries dm st limit q =
     slice_to limit (filter (\<lambda>c. st = None \<or> st = Some (ce_status c)) (filter (\<lambda>c. \<not> truthy dm \<or> ce_domain c = the dm)
       (sort_key (\<lambda>c. - ce_compressed_at c) (map snd (compressed_storage q)))))"

definition dlq_get_compressed_entry :: "string \<Rightarrow> dlq \<Rightarrow> compressed_entry option" where
  "dlq_get_compressed_entry cid q = dict_get (compressed_storage q) cid"

definition dlq_get_compressed_entries_before ::
    "compressed_status \<Rightarrow> instant \<Rightarrow> int \<Rightarrow> int \<Rightarrow> instant option \<Rightarrow> dlq \<Rightarrow> compressed_entry list" where
  "dlq_get_compressed_entries_before st before limit offset after q =
     slice offset (offset + limit) (sort_key ce_compressed_at
       (filter (\<lambda>c. ce_status c = st \<and> ce_compressed_at c < before
                  \<and> (case after of None \<Rightarrow> True | Some a \<Rightarrow> ce_compressed_at c \<ge> a)) (map snd (compressed_storage q))))"

definition dlq_update_compressed_status :: "instant \<Rightarrow> string \<Rightarrow> compressed_status \<Rightarrow> dlq \<Rightarrow> bool \<times> dlq" where
  "dlq_update_compressed_status now cid st q =
     (case dict_get (compressed_storage q) cid of
        None \<Rightarrow> (False, q)
      | Some c \<Rightarrow>
          let c1 = c\<lparr>ce_status := st\<rparr>;
              c2 = (if st = STALE then c1\<lparr>ce_stale_at := Some now\<rparr>
                    else if st = COMPRESSED_ARCHIVED then c1\<lparr>ce_archived_at := Some now\<rparr> else c1)
          in (True, q\<lparr>compressed_storage := dict_set cid c2 (compressed_storage q)\<rparr>))"

end
