(* ===== verification/Dlq_Invariant.thy ===== *)
theory Dlq_Invariant
  imports Dlq_Repo "HOL-Library.Multiset"
begin

text \<open>
  Runs of the dead letter queue.  The indexes mirror the storage after every operation; every
  operation is a sequence of changes to single entries, and all but three of them keep the retry
  counts.  From these: queries through an index agree with a scan, one holder per entry, and the replay budget.
\<close>

section \<open>The indexes mirror the storage\<close>

definition ids_where :: "dlq \<Rightarrow> (failed_op \<Rightarrow> bool) \<Rightarrow> string set" where
  "ids_where q P = {eid. \<exists>e. dict_get (storage q) eid = Some e \<and> P e}"

definition indexes_exact :: "dlq \<Rightarrow> bool" where
  "indexes_exact q \<longleftrightarrow>
     (\<forall>st. dict_get_or (index_by_status q) st {} = ids_where q (\<lambda>e. fo_status e = st))
     \<and> (\<forall>d. dict_get_or (index_by_domain q) d {} = ids_where q (\<lambda>e. fo_domain e = d))
     \<and> (\<forall>st d. dict_get_or (index_by_status_domain q) (st, d) {} = ids_where q (\<lambda>e. fo_status e = st \<and> fo_domain e = d))"

definition dlq_inv :: "dlq \<Rightarrow> bool" where
  "dlq_inv q \<longleftrightarrow> dict_wf (storage q) \<and> indexes_exact q
     \<and> dict_all (\<lambda>eid e. fo_id e = eid \<and> (\<exists>n < next_id q. eid = nat_str n)) (storage q)"

lemma index_add_get [simp]:
  "dict_get_or (index_add k eid d) k' {} = (if k' = k then insert eid (dict_get_or d k {}) else dict_get_or d k' {})"
  by (simp add: index_add_def dict_simps)

lemma index_discard_get [simp]:
  "dict_get_or (index_discard k eid d) k' {} = (if k' = k then dict_get_or d k {} - {eid} else dict_get_or d k' {})"
  by (auto simp: index_discard_def dict_get_or_def dict_simps split: option.splits)

lemma index_frames [simp]:
  "storage (add_to_index eid st dm q) = storage q" "next_id (add_to_index eid st dm q) = next_id q"
  "storage (remove_from_index eid st dm q) = storage q" "next_id (remove_from_index eid st dm q) = next_id q"
  "storage (update_index_status eid st st' dm q) = storage q" "next_id (update_index_status eid st st' dm q) = next_id q"
  by (simp_all add: add_to_index_def remove_from_index_def update_index_status_def)

text \<open>An entry changed in place, in another status, dropped, added.\<close>

lemma dlq_inv_put:
  assumes "dlq_inv q" and "dict_get (storage q) eid = Some e"
    and "fo_id u = fo_id e" and "fo_domain u = fo_domain e" and "fo_status u = fo_status e"
  shows "dlq_inv (q\<lparr>storage := dict_set eid u (storage q)\<rparr>)"
proof -
  have "ids_where (q\<lparr>storage := dict_set eid u (storage q)\<rparr>) P = ids_where q P" if "P u = P e" for P
    using assms(2) that by (auto simp: ids_where_def dict_simps split: if_splits)
  then have "indexes_exact (q\<lparr>storage := dict_set eid u (storage q)\<rparr>)"
    using assms(1,4,5) by (simp add: dlq_inv_def indexes_exact_def)
  moreover have "fo_id e = eid \<and> (\<exists>n < next_id q. eid = nat_str n)"
    using assms(1,2) by (auto simp: dlq_inv_def dest: dict_allD)
  ultimately show ?thesis using assms(1,3) by (auto simp: dlq_inv_def)
qed

lemma dlq_inv_move:
  assumes "dlq_inv q" and "dict_get (storage q) eid = Some e"
    and "fo_id u = fo_id e" and "fo_domain u = fo_domain e"
  shows "dlq_inv (update_index_status eid (fo_status e) (fo_status u) (fo_domain e) (q\<lparr>storage := dict_set eid u (storage q)\<rparr>))"
proof -
  let ?q = "q\<lparr>storage := dict_set eid u (storage q)\<rparr>"
  have w: "ids_where (update_index_status eid a b c ?q) P = (if P u then insert eid (ids_where q P - {eid}) else ids_where q P - {eid})" for a b c P
    by (auto simp: ids_where_def dict_simps split: if_splits)
  have e: "eid \<in> ids_where q P \<longleftrightarrow> P e" for P using assms(2) by (simp add: ids_where_def)
  have x: "dict_get_or (index_by_status q) st {} = ids_where q (\<lambda>e. fo_status e = st)"
      "dict_get_or (index_by_domain q) d {} = ids_where q (\<lambda>e. fo_domain e = d)"
      "dict_get_or (index_by_status_domain q) (st, d) {} = ids_where q (\<lambda>e. fo_status e = st \<and> fo_domain e = d)" for st d
    using assms(1) by (simp_all add: dlq_inv_def indexes_exact_def)
  have "indexes_exact (update_index_status eid (fo_status e) (fo_status u) (fo_domain e) ?q)"
    unfolding indexes_exact_def w
    by (auto simp: update_index_status_def add_to_index_def remove_from_index_def x e assms(4))
  moreover have "fo_id e = eid \<and> (\<exists>n < next_id q. eid = nat_str n)"
    using assms(1,2) by (auto simp: dlq_inv_def dest: dict_allD)
  ultimately show ?thesis using assms(1,3) by (auto simp: dlq_inv_def)
qed

lemma dlq_inv_drop:
  assumes "dlq_inv q" and "dict_get (storage q) eid = Some e"
  shows "dlq_inv (drop_entry eid e q)"
proof -
  have w: "ids_where (drop_entry eid e q) P = ids_where q P - {eid}" for P
    by (auto simp: ids_where_def drop_entry_def dict_simps split: if_splits)
  have e: "eid \<in> ids_where q P \<longleftrightarrow> P e" for P using assms(2) by (simp add: ids_where_def)
  have x: "dict_get_or (index_by_status q) st {} = ids_where q (\<lambda>e. fo_status e = st)"
      "dict_get_or (index_by_domain q) d {} = ids_where q (\<lambda>e. fo_domain e = d)"
      "dict_get_or (index_by_status_domain q) (st, d) {} = ids_where q (\<lambda>e. fo_status e = st \<and> fo_domain e = d)" for st d
    using assms(1) by (simp_all add: dlq_inv_def indexes_exact_def)
  have "indexes_exact (drop_entry eid e q)"
    unfolding indexes_exact_def w by (auto simp: drop_entry_def remove_from_index_def x e)
  then show ?thesis using assms(1) by (auto simp: dlq_inv_def drop_entry_def)
qed

lemma dlq_inv_create:
  assumes "dlq_inv q"
  shows "dlq_inv (snd (dlq_create now n q))"
proof -
  let ?eid = "nat_str (next_id q)"
  define u where "u = fst (dlq_create now n q)"
  have u: "fo_id u = ?eid" "fo_status u = PENDING" "fo_domain u = no_domain n"
    by (simp_all add: u_def dlq_create_def Let_def)
  have s: "snd (dlq_create now n q) = (add_to_index ?eid PENDING (no_domain n) (q\<lparr>storage := dict_set ?eid u (storage q)\<rparr>))\<lparr>next_id := next_id q + 1\<rparr>"
    by (simp add: u_def dlq_create_def Let_def)
  have fresh: "dict_get (storage q) ?eid = None"
    using assms by (cases "dict_get (storage q) ?eid") (auto simp: dlq_inv_def dest!: dict_allD)
  have w: "ids_where (snd (dlq_create now n q)) P = (if P u then insert ?eid (ids_where q P) else ids_where q P)" for P
    unfolding s using fresh by (auto simp: ids_where_def dict_simps split: if_splits)
  have x: "dict_get_or (index_by_status q) st {} = ids_where q (\<lambda>e. fo_status e = st)"
      "dict_get_or (index_by_domain q) d {} = ids_where q (\<lambda>e. fo_domain e = d)"
      "dict_get_or (index_by_status_domain q) (st, d) {} = ids_where q (\<lambda>e. fo_status e = st \<and> fo_domain e = d)" for st d
    using assms by (simp_all add: dlq_inv_def indexes_exact_def)
  have "indexes_exact (snd (dlq_create now n q))"
    unfolding indexes_exact_def w unfolding s by (auto simp: add_to_index_def x u)
  moreover have "dict_all (\<lambda>eid e. fo_id e = eid \<and> (\<exists>n < next_id q + 1. eid = nat_str n)) (storage q)"
    using assms unfolding dlq_inv_def dict_all_def by (meson less_add_one less_trans)
  ultimately show ?thesis
    using assms u unfolding s dlq_inv_def by (auto intro!: dict_all_set)
qed

lemma dlq_inv_empty [simp]: "dlq_inv empty_dlq"
  by (simp add: dlq_inv_def indexes_exact_def empty_dlq_def ids_where_def dict_simps)

section \<open>Runs\<close>

datatype dlq_op =
    Create instant new_op
  | Set_Status instant string op_status resolution
  | Increment_Retry instant string
  | Bulk_Status instant "string list" op_status
  | Acquire instant string int bool
  | Complete instant string bool string string "int option" payload
  | Give_Back string int
  | Release_Stale instant int
  | Archive instant int
  | Purge instant "string list option" "int option"
  | Delete string
  | Evict "string list"
  | Delete_Compressed "string list"
  | Store_Summary compressed_entry
  | Summary_Status instant string compressed_status
  | Clear

fun dlq_step :: "dlq_op \<Rightarrow> dlq \<Rightarrow> dlq" where
  "dlq_step (Create now n) q = snd (dlq_create now n q)"
| "dlq_step (Set_Status now eid st rs) q = snd (dlq_update_status now eid st rs q)"
| "dlq_step (Increment_Retry now eid) q = snd (dlq_increment_retry_count now eid q)"
| "dlq_step (Bulk_Status now ids st) q = snd (dlq_bulk_update_status now ids st q)"
| "dlq_step (Acquire now eid cap force) q = snd (dlq_try_acquire_for_replay now eid cap force q)"
| "dlq_step (Complete now eid ok rtype note by details) q = snd (dlq_complete_replay now eid ok rtype note by details q)"
| "dlq_step (Give_Back eid n) q = snd (dlq_return_replay_attempt eid n q)"
| "dlq_step (Release_Stale now m) q = snd (dlq_release_stale_replaying now m q)"
| "dlq_step (Archive now d) q = snd (dlq_archive_old_resolved now d q)"
| "dlq_step (Purge now ids d) q = snd (dlq_purge_archived now ids d q)"
| "dlq_step (Delete eid) q = snd (dlq_delete eid q)"
| "dlq_step (Evict ids) q = snd (evict_ids ids q)"
| "dlq_step (Delete_Compressed ids) q = snd (delete_ids ids q)"
| "dlq_step (Store_Summary c) q = dlq_store_compressed_entry c q"
| "dlq_step (Summary_Status now cid st) q = snd (dlq_update_compressed_status now cid st q)"
| "dlq_step Clear q = dlq_clear q"

fun dlq_run :: "dlq_op list \<Rightarrow> dlq \<Rightarrow> dlq" where
  "dlq_run [] q = q"
| "dlq_run (x # xs) q = dlq_run xs (dlq_step x q)"

lemma copy_frames [simp]:
  "fo_id (copy_with_updates now f e) = fo_id (f e)" "fo_domain (copy_with_updates now f e) = fo_domain (f e)"
  "fo_status (copy_with_updates now f e) = fo_status (f e)" "fo_retry_count (copy_with_updates now f e) = fo_retry_count (f e)"
  "fo_max_retries (copy_with_updates now f e) = fo_max_retries (f e)" "fo_created_at (copy_with_updates now f e) = fo_created_at (f e)"
  by (simp_all add: copy_with_updates_def)

lemma dlq_inv_compressed [simp]: "dlq_inv (q\<lparr>compressed_storage := c\<rparr>) = dlq_inv q"
  by (simp add: dlq_inv_def indexes_exact_def ids_where_def)

text \<open>What an operation does, one entry at a time; with \<open>k\<close> false it keeps the retry count.\<close>

inductive entry_step :: "bool \<Rightarrow> dlq \<Rightarrow> dlq \<Rightarrow> bool" for k where
  put: "dict_get (storage q) eid = Some e \<Longrightarrow> fo_id u = fo_id e \<Longrightarrow> fo_domain u = fo_domain e \<Longrightarrow> fo_status u = fo_status e \<Longrightarrow>
    k \<or> fo_retry_count u = fo_retry_count e \<Longrightarrow> q' = q\<lparr>storage := dict_set eid u (storage q)\<rparr> \<Longrightarrow> entry_step k q q'"
| move: "dict_get (storage q) eid = Some e \<Longrightarrow> fo_id u = fo_id e \<Longrightarrow> fo_domain u = fo_domain e \<Longrightarrow>
    k \<or> fo_retry_count u = fo_retry_count e \<Longrightarrow>
    q' = update_index_status eid (fo_status e) (fo_status u) (fo_domain e) (q\<lparr>storage := dict_set eid u (storage q)\<rparr>) \<Longrightarrow>
    entry_step k q q'"
| drop: "dict_get (storage q) eid = Some e \<Longrightarrow> q' = drop_entry eid e q \<Longrightarrow> entry_step k q q'"

abbreviation entry_steps :: "bool \<Rightarrow> dlq \<Rightarrow> dlq \<Rightarrow> bool" where
  "entry_steps k \<equiv> (entry_step k)\<^sup>*\<^sup>*"

lemma entry_step_inv: "entry_step k q q' \<Longrightarrow> dlq_inv q \<Longrightarrow> dlq_inv q'"
  by (induction rule: entry_step.induct) (auto intro: dlq_inv_put dlq_inv_move dlq_inv_drop)

lemma entry_steps_inv: "entry_steps k q q' \<Longrightarrow> dlq_inv q \<Longrightarrow> dlq_inv q'"
  by (induction rule: rtranclp_induct) (auto dest: entry_step_inv)

lemma entry_step_next_id: "entry_step k q q' \<Longrightarrow> next_id q' = next_id q"
  by (induction rule: entry_step.induct) (auto simp: drop_entry_def)

text \<open>A method that reads one entry and writes it back, in its own status or in another one.\<close>

lemma entry_stepI:
  assumes "dict_get (storage q) eid = Some e" and "fo_id u = fo_id e" and "fo_domain u = fo_domain e"
    and "k \<or> fo_retry_count u = fo_retry_count e"
    and "q' = (if fo_status e \<noteq> fo_status u
               then update_index_status eid (fo_status e) (fo_status u) (fo_domain e) (q\<lparr>storage := dict_set eid u (storage q)\<rparr>)
               else q\<lparr>storage := dict_set eid u (storage q)\<rparr>)"
  shows "entry_steps k q q'"
proof (cases "fo_status e = fo_status u")
  case True
  then show ?thesis using assms by (intro r_into_rtranclp put [OF assms(1), of u]) auto
next
  case False
  then show ?thesis using assms by (intro r_into_rtranclp move [OF assms(1), of u]) auto
qed

lemma update_status_steps: "entry_steps False q (snd (dlq_update_status now eid st rs q))"
proof (cases "dict_get (storage q) eid")
  case (Some e)
  let ?u = "the (dict_get (storage (snd (dlq_update_status now eid st rs q))) eid)"
  show ?thesis
    by (rule entry_stepI [OF Some, where u = ?u]) (simp_all add: dlq_update_status_def Some Let_def dict_simps)
qed (simp add: dlq_update_status_def)

lemma increment_steps: "entry_steps True q (snd (dlq_increment_retry_count now eid q))"
proof (cases "dict_get (storage q) eid")
  case (Some e)
  let ?u = "the (dict_get (storage (snd (dlq_increment_retry_count now eid q))) eid)"
  show ?thesis
    by (rule entry_stepI [OF Some, where u = ?u]) (simp_all add: dlq_increment_retry_count_def Some Let_def dict_simps)
qed (simp add: dlq_increment_retry_count_def)

lemma complete_steps: "entry_steps False q (snd (dlq_complete_replay now eid ok rtype note by details q))"
proof (cases "dict_get (storage q) eid")
  case (Some e)
  let ?u = "the (dict_get (storage (snd (dlq_complete_replay now eid ok rtype note by details q))) eid)"
  show ?thesis
    by (rule entry_stepI [OF Some, where u = ?u]) (simp_all add: dlq_complete_replay_def Some Let_def dict_simps)
qed (simp add: dlq_complete_replay_def)

lemma give_back_steps: "entry_steps True q (snd (dlq_return_replay_attempt eid n q))"
proof (cases "dict_get (storage q) eid")
  case (Some e)
  let ?q = "snd (dlq_return_replay_attempt eid n q)"
  show ?thesis
  proof (cases "fo_status e \<noteq> REPLAYING \<or> fo_retry_count e \<noteq> n")
    case False
    show ?thesis
      by (rule entry_stepI [OF Some, where u = "the (dict_get (storage ?q) eid)"])
        (use False in \<open>simp_all add: dlq_return_replay_attempt_def Some dict_simps\<close>)
  qed (auto simp: dlq_return_replay_attempt_def Some)
qed (simp add: dlq_return_replay_attempt_def)

lemma acquire_steps: "entry_steps True q (snd (dlq_try_acquire_for_replay now eid cap force q))"
proof (cases "dict_get (storage q) eid")
  case (Some e)
  let ?r = "dlq_try_acquire_for_replay now eid cap force q"
  show ?thesis
  proof (cases "fst ?r")
    case None
    then have "snd ?r = q" by (auto simp: dlq_try_acquire_for_replay_def Let_def split: option.splits if_splits)
    then show ?thesis by simp
  next
    case (Some u)
    have "fo_id u = fo_id e \<and> fo_domain u = fo_domain e \<and> fo_status u = REPLAYING \<and> fo_status e \<noteq> REPLAYING
        \<and> snd ?r = update_index_status eid (fo_status e) REPLAYING (fo_domain e) (q\<lparr>storage := dict_set eid u (storage q)\<rparr>)"
      using Some \<open>dict_get (storage q) eid = Some e\<close>
      by (auto simp: dlq_try_acquire_for_replay_def force_acquirable_def Let_def split: if_splits)
    then show ?thesis by (intro entry_stepI [OF \<open>dict_get (storage q) eid = Some e\<close>, where u = u]) auto
  qed
qed (simp add: dlq_try_acquire_for_replay_def)

lemma delete_steps: "entry_steps False q (snd (dlq_delete eid q))"
  by (auto simp: dlq_delete_def split: option.splits intro!: r_into_rtranclp drop)

lemma bulk_steps: "entry_steps False q (snd (dlq_bulk_update_status now ids st q))"
proof (induction ids arbitrary: q)
  case (Cons eid ids)
  show ?case using rtranclp_trans [OF update_status_steps Cons.IH] by (simp add: split_def Let_def)
qed simp

lemma evict_steps: "entry_steps False q (snd (evict_ids ids q))"
proof (induction ids arbitrary: q)
  case (Cons eid ids)
  show ?case
    using Cons converse_rtranclp_into_rtranclp [OF drop Cons.IH]
    by (auto simp: split_def Let_def split: option.splits)
qed simp

lemma delete_ids_steps: "entry_steps False q (snd (delete_ids ids q))"
proof (induction ids arbitrary: q)
  case (Cons eid ids)
  show ?case
    using Cons converse_rtranclp_into_rtranclp [OF drop Cons.IH]
    by (auto simp: split_def Let_def split: option.splits)
qed simp

lemma purge_ids_steps: "entry_steps False q (snd (purge_by_ids ids q))"
proof (induction ids arbitrary: q)
  case (Cons eid ids)
  show ?case
    using Cons converse_rtranclp_into_rtranclp [OF drop Cons.IH]
    by (auto simp: split_def Let_def split: option.splits)
qed simp

text \<open>The loops over a snapshot of the storage: what they have not reached yet is still as they saw it.\<close>

definition current :: "(string \<times> failed_op) list \<Rightarrow> dlq \<Rightarrow> bool" where
  "current es q \<longleftrightarrow> distinct (map fst es) \<and> (\<forall>(eid, e) \<in> set es. dict_get (storage q) eid = Some e)"

lemma current_storage: "dlq_inv q \<Longrightarrow> current (filter P (storage q)) q"
  by (auto simp: current_def dlq_inv_def dict_wf_mem dict_wf_def distinct_map_filter simp flip: dict_wf_mem)

lemma current_hd: "current ((eid, e) # es) q \<Longrightarrow> dict_get (storage q) eid = Some e"
  by (simp add: current_def)

lemma current_tl:
  assumes "current ((eid, e) # es) q" and "\<And>i. i \<noteq> eid \<Longrightarrow> dict_get (storage q') i = dict_get (storage q) i"
  shows "current es q'"
proof -
  have "i \<noteq> eid" if "(i, f) \<in> set es" for i f
    using assms(1) that by (force simp: current_def)
  then show ?thesis using assms by (auto simp: current_def)
qed

lemma release_steps: "current es q \<Longrightarrow> entry_steps False q (snd (release_loop now cutoff es q))"
proof (induction es arbitrary: q)
  case (Cons x es)
  obtain eid e where x: "x = (eid, e)" by force
  let ?u = "released_entry now e"
  let ?q = "update_index_status eid (fo_status e) (fo_status ?u) (fo_domain e) (q\<lparr>storage := dict_set eid ?u (storage q)\<rparr>)"
  have "entry_step False q ?q"
    by (rule move [OF current_hd [OF Cons.prems [unfolded x]], of ?u]) (simp_all add: released_entry_def)
  moreover have "current es ?q" "current es q" using Cons.prems unfolding x by (auto simp: dict_simps intro: current_tl)
  ultimately have "entry_steps False q (snd (release_loop now cutoff es ?q))" "entry_steps False q (snd (release_loop now cutoff es q))"
    using Cons.IH by (blast intro: converse_rtranclp_into_rtranclp)+
  then show ?case by (auto simp: x split_def Let_def)
qed simp

lemma archive_steps: "current es q \<Longrightarrow> entry_steps False q (snd (archive_loop now cutoff es q))"
proof (induction es arbitrary: q)
  case (Cons x es)
  obtain eid e where x: "x = (eid, e)" by force
  let ?u = "copy_with_updates now (\<lambda>e. e\<lparr>fo_status := ARCHIVED\<rparr>) e"
  let ?q = "update_index_status eid (fo_status e) ARCHIVED (fo_domain e) (q\<lparr>storage := dict_set eid ?u (storage q)\<rparr>)"
  have "entry_step False q ?q"
    by (rule move [OF current_hd [OF Cons.prems [unfolded x]], of ?u]) simp_all
  moreover have "current es ?q" "current es q" using Cons.prems unfolding x by (auto simp: dict_simps intro: current_tl)
  ultimately have "entry_steps False q (snd (archive_loop now cutoff es ?q))" "entry_steps False q (snd (archive_loop now cutoff es q))"
    using Cons.IH by (blast intro: converse_rtranclp_into_rtranclp)+
  then show ?case by (auto simp: x split_def Let_def)
qed simp

lemma drop_storage: "storage (drop_entry eid e q) = dict_del eid (storage q)"
  by (simp add: drop_entry_def)

lemma purge_steps: "current es q \<Longrightarrow> entry_steps False q (fold (\<lambda>(eid, e). drop_entry eid e) es q)"
proof (induction es arbitrary: q)
  case (Cons x es)
  obtain eid e where x: "x = (eid, e)" by force
  have "entry_step False q (drop_entry eid e q)"
    by (rule drop [OF current_hd [OF Cons.prems [unfolded x]]]) simp
  moreover have "current es (drop_entry eid e q)" using Cons.prems unfolding x by (auto simp: drop_storage dict_simps intro: current_tl)
  ultimately show ?case using Cons.IH by (auto simp: x intro: converse_rtranclp_into_rtranclp)
qed simp


lemma purge_archived_steps: "dlq_inv q \<Longrightarrow> entry_steps False q (snd (dlq_purge_archived now ids d q))"
  using purge_ids_steps [of q] purge_steps [OF current_storage]
  by (auto simp: dlq_purge_archived_def purge_older_than_def split_def Let_def split: option.splits)

lemma compressed_frames:
  "snd (dlq_update_compressed_status now cid st q) = q\<lparr>compressed_storage := compressed_storage (snd (dlq_update_compressed_status now cid st q))\<rparr>"
  "dlq_store_compressed_entry c q = q\<lparr>compressed_storage := compressed_storage (dlq_store_compressed_entry c q)\<rparr>"
  by (simp_all add: dlq_update_compressed_status_def dlq_store_compressed_entry_def Let_def split: option.splits)

text \<open>Which operations may change a retry count, and which make or reset entries.\<close>

fun counts :: "dlq_op \<Rightarrow> bool" where
  "counts (Increment_Retry _ _) = True"
| "counts (Acquire _ _ _ _) = True"
| "counts (Give_Back _ _) = True"
| "counts _ = False"

fun on_entries :: "dlq_op \<Rightarrow> bool" where
  "on_entries (Create _ _) = False"
| "on_entries (Store_Summary _) = False"
| "on_entries (Summary_Status _ _ _) = False"
| "on_entries Clear = False"
| "on_entries _ = True"

lemma dlq_step_entries: "dlq_inv q \<Longrightarrow> on_entries x \<Longrightarrow> entry_steps (counts x) q (dlq_step x q)"
proof (cases x)
  case (Release_Stale now m)
  assume "dlq_inv q"
  then show ?thesis using current_storage [of q "\<lambda>_. True"] Release_Stale
    by (simp add: dlq_release_stale_replaying_def release_steps)
next
  case (Archive now d)
  assume "dlq_inv q"
  then show ?thesis using current_storage [of q "\<lambda>_. True"] Archive
    by (simp add: dlq_archive_old_resolved_def archive_steps)
qed (simp_all add: update_status_steps increment_steps bulk_steps acquire_steps complete_steps give_back_steps
       purge_archived_steps delete_steps evict_steps delete_ids_steps)

lemma dlq_step_inv: "dlq_inv q \<Longrightarrow> dlq_inv (dlq_step x q)"
proof (cases "on_entries x")
  case True
  assume "dlq_inv q"
  then show ?thesis using dlq_step_entries [OF _ True] entry_steps_inv by blast
next
  case False
  assume "dlq_inv q"
  then show ?thesis using False
  proof (cases x)
    case Clear
    then show ?thesis by (simp add: dlq_clear_def dlq_inv_def indexes_exact_def ids_where_def dict_simps)
  next
    case (Summary_Status now cid st)
    then show ?thesis using \<open>dlq_inv q\<close> by (simp, subst compressed_frames, simp)
  next
    case (Store_Summary c)
    then show ?thesis using \<open>dlq_inv q\<close> by (simp, subst compressed_frames, simp)
  qed (simp_all add: dlq_inv_create)
qed

lemma dlq_run_inv: "dlq_inv q \<Longrightarrow> dlq_inv (dlq_run xs q)"
  by (induction xs arbitrary: q) (simp_all add: dlq_step_inv)

text \<open>An operation to run the examples on.\<close>

definition sample_op :: new_op where
  "sample_op = \<lparr>no_domain = ''payment'', no_failure_type = ''timeout'', no_error_message = [], no_error_code = [],
     no_entity_type = None, no_entity_id = None, no_entity_refs = [], no_user_id = None, no_snapshot_data = [],
     no_request_data = [], no_response_data = [], no_metadata = [], no_retry_count = 0, no_max_retries = 3,
     no_next_action_hint = [], no_recommended_action = [], no_expires_at = None\<rparr>"

section \<open>Queries through an index\<close>

text \<open>An iteration order of finite sets: each element once.\<close>

definition enumerates :: "(string set \<Rightarrow> string list) \<Rightarrow> bool" where
  "enumerates it \<longleftrightarrow> (\<forall>S. finite S \<longrightarrow> distinct (it S) \<and> set (it S) = S)"

lemma enumerates_sorted: "enumerates sorted_list_of_set"
  by (simp add: enumerates_def)

lemma mset_map_filter_cong: "mset xs = mset ys \<Longrightarrow> mset (List.map_filter f xs) = mset (List.map_filter f ys)"
proof -
  have "mset (List.map_filter f zs) = image_mset (the \<circ> f) (filter_mset (\<lambda>x. f x \<noteq> None) (mset zs))" for zs
    by (induction zs) (auto simp: map_filter_simps split: option.splits)
  then show "mset xs = mset ys \<Longrightarrow> mset (List.map_filter f xs) = mset (List.map_filter f ys)" by simp
qed

lemma map_filter_keys:
  "(\<And>k v. (k, v) \<in> set xs \<Longrightarrow> f k = Some v) \<Longrightarrow> List.map_filter f (map fst xs) = map snd xs"
proof (induction xs)
  case (Cons x xs)
  obtain k v where x: "x = (k, v)" by force
  have "f k = Some v" using Cons.prems x by simp
  moreover have "List.map_filter f (map fst xs) = map snd xs" using Cons by simp
  ultimately show ?case by (simp add: x map_filter_simps)
qed (simp add: map_filter_simps)

lemma ids_where_storage: "dict_wf (storage q) \<Longrightarrow> ids_where q P = fst ` set (filter (\<lambda>(_, e). P e) (storage q))"
  by (force simp: ids_where_def simp flip: dict_wf_mem)

lemma it_ids_where:
  assumes "dict_wf (storage q)" and "enumerates it"
  shows "mset (it (ids_where q P)) = mset (map fst (filter (\<lambda>(_, e). P e) (storage q)))"
proof -
  have "distinct (map fst (filter (\<lambda>(_, e). P e) (storage q)))"
    using assms(1) by (simp add: dict_wf_def distinct_map_filter)
  then show ?thesis
    using assms(2) unfolding ids_where_storage [OF assms(1)] enumerates_def
    by (subst set_eq_iff_mset_eq_distinct [symmetric]) (metis List.finite_set finite_imageI, assumption, metis List.finite_set finite_imageI set_map)
qed

lemma entries_of_index:
  assumes "dict_wf (storage q)" and "enumerates it"
  shows "mset (entries_of q (it (ids_where q P))) = mset (filter P (map snd (storage q)))"
proof -
  let ?xs = "filter (\<lambda>(_, e). P e) (storage q)"
  have "mset (entries_of q (it (ids_where q P))) = mset (List.map_filter (dict_get (storage q)) (map fst ?xs))"
    unfolding entries_of_def by (rule mset_map_filter_cong [OF it_ids_where [OF assms]])
  also have "List.map_filter (dict_get (storage q)) (map fst ?xs) = map snd ?xs"
    using assms(1) by (intro map_filter_keys) (auto simp: dict_wf_mem)
  also have "map snd ?xs = filter P (map snd (storage q))"
    by (simp add: filter_map comp_def split_def)
  finally show ?thesis .
qed

lemma dlq_index_entries:
  assumes "dlq_inv q" and "enumerates it"
  shows "mset (entries_of q (it (dict_get_or (index_by_status q) st {}))) = mset (filter (\<lambda>e. fo_status e = st) (map snd (storage q)))"
    and "mset (entries_of q (it (dict_get_or (index_by_domain q) d {}))) = mset (filter (\<lambda>e. fo_domain e = d) (map snd (storage q)))"
    and "mset (entries_of q (it (dict_get_or (index_by_status_domain q) (st, d) {})))
       = mset (filter (\<lambda>e. fo_status e = st \<and> fo_domain e = d) (map snd (storage q)))"
  using assms entries_of_index [of q it] by (simp_all add: dlq_inv_def indexes_exact_def)

text \<open>A filter argument that is absent accepts everything.\<close>

definition matches :: "'a option \<Rightarrow> 'a \<Rightarrow> bool" where
  "matches f x = (case f of None \<Rightarrow> True | Some y \<Rightarrow> x = y)"

text \<open>(C26) After any sequence of repository operations, in any iteration order of the index sets, a filtered
  query answered through the indexes returns exactly the stored entries that match the filters, each once.\<close>

theorem find_agrees_with_scan:
  assumes "enumerates it"
  shows "mset (dlq_select_for_find it st dm ft (dlq_run xs empty_dlq)) =
      mset (filter (\<lambda>e. matches st (fo_status e) \<and> matches dm (fo_domain e) \<and> matches ft (fo_failure_type e))
              (map snd (storage (dlq_run xs empty_dlq))))"
proof -
  define q where "q = dlq_run xs empty_dlq"
  have i: "dlq_inv q" by (simp add: q_def dlq_run_inv)
  show ?thesis
    unfolding q_def [symmetric] dlq_select_for_find_def Let_def
    by (cases st; cases dm; cases ft)
      (simp_all add: matches_def dlq_index_entries [OF i assms] filter_filter_mset del: mset_map)
qed

theorem find_agrees_with_scan_witness:
  "enumerates sorted_list_of_set
   \<and> mset (dlq_select_for_find sorted_list_of_set (Some PENDING) (Some ''payment'') None (dlq_run [Create 0 sample_op] empty_dlq))
     = {#fst (dlq_create 0 sample_op empty_dlq)#}"
proof
  show e: "enumerates sorted_list_of_set" by (rule enumerates_sorted)
  show "mset (dlq_select_for_find sorted_list_of_set (Some PENDING) (Some ''payment'') None (dlq_run [Create 0 sample_op] empty_dlq))
     = {#fst (dlq_create 0 sample_op empty_dlq)#}"
    unfolding find_agrees_with_scan [OF e]
    by (simp add: matches_def dlq_create_def empty_dlq_def sample_op_def Let_def add_to_index_def)
qed

section \<open>One holder\<close>

text \<open>A worker's attempt: its clock reading and whether it is an operator's forced redrive.\<close>

definition replay_attempt :: "string \<Rightarrow> int \<Rightarrow> instant \<times> bool \<Rightarrow> dlq \<Rightarrow> bool \<times> dlq" where
  "replay_attempt eid cap w q = map_prod (\<lambda>r. r \<noteq> None) (\<lambda>q. q) (dlq_try_acquire_for_replay (fst w) eid cap (snd w) q)"

definition acquirable :: "string \<Rightarrow> int \<Rightarrow> dlq \<Rightarrow> bool" where
  "acquirable eid cap q = (case dict_get (storage q) eid of None \<Rightarrow> False | Some e \<Rightarrow> fo_status e = PENDING \<and> fo_retry_count e < cap)"

definition held :: "string \<Rightarrow> dlq \<Rightarrow> bool" where
  "held eid q = (case dict_get (storage q) eid of None \<Rightarrow> False | Some e \<Rightarrow> fo_status e = REPLAYING)"

interpretation replay: single_winner "replay_attempt eid cap" "acquirable eid cap" "held eid" for eid cap
proof
  fix r i assume "acquirable eid cap r"
  then obtain e where "dict_get (storage r) eid = Some e" "fo_status e = PENDING" "fo_retry_count e < cap"
    by (auto simp: acquirable_def split: option.splits)
  then show "fst (replay_attempt eid cap i r) \<and> held eid (snd (replay_attempt eid cap i r))"
    by (simp add: replay_attempt_def dlq_try_acquire_for_replay_def force_acquirable_def held_def Let_def dict_simps)
next
  fix r i assume "held eid r"
  then obtain e where "dict_get (storage r) eid = Some e" "fo_status e = REPLAYING"
    by (auto simp: held_def split: option.splits)
  then show "\<not> fst (replay_attempt eid cap i r) \<and> held eid (snd (replay_attempt eid cap i r))"
    by (simp add: replay_attempt_def dlq_try_acquire_for_replay_def force_acquirable_def held_def)
qed

text \<open>(C14) Of any number of workers and operators that race for one replayable entry, exactly the first to get
  the lock takes it, and every later attempt is refused while it is held.\<close>

theorem one_replay_holder:
  assumes "acquirable eid cap q"
  shows "fst (run_actions (map (replay_attempt eid cap) (w # ws)) q) = True # replicate (length ws) False"
  using assms by (rule replay.first_wins)

theorem one_replay_holder_witness:
  "acquirable (nat_str 1) 3 (dlq_run [Create 0 sample_op] empty_dlq)
   \<and> fst (run_actions (map (replay_attempt (nat_str 1) 3) [(1, False), (2, True), (2, False)]) (dlq_run [Create 0 sample_op] empty_dlq))
     = [True, False, False]"
proof
  show a: "acquirable (nat_str 1) 3 (dlq_run [Create 0 sample_op] empty_dlq)" by code_simp
  show "fst (run_actions (map (replay_attempt (nat_str 1) 3) [(1, False), (2, True), (2, False)]) (dlq_run [Create 0 sample_op] empty_dlq))
     = [True, False, False]"
    using one_replay_holder [OF a, of "(1, False)" "[(2, True), (2, False)]"] by (simp add: numeral_eq_Suc)
qed

section \<open>The replay budget\<close>

text \<open>The net number of attempts a run spends on an entry: acquisitions that succeeded less attempts given back.\<close>

fun spends :: "string \<Rightarrow> dlq_op \<Rightarrow> dlq \<Rightarrow> int" where
  "spends eid (Acquire now i cap force) q =
     (if i = eid \<and> fst (dlq_try_acquire_for_replay now i cap force q) \<noteq> None then 1 else 0)"
| "spends eid (Give_Back i n) q = (if i = eid \<and> fst (dlq_return_replay_attempt i n q) then - 1 else 0)"
| "spends eid _ q = 0"

fun spent_in :: "string \<Rightarrow> dlq_op list \<Rightarrow> dlq \<Rightarrow> int" where
  "spent_in eid [] q = 0"
| "spent_in eid (x # xs) q = spends eid x q + spent_in eid xs (dlq_step x q)"

text \<open>The automatic operations: no forced redrive, no reset, and every acquisition under the cap \<open>C\<close>.\<close>

fun automatic :: "int \<Rightarrow> dlq_op \<Rightarrow> bool" where
  "automatic C (Acquire _ _ cap force) = (\<not> force \<and> cap \<le> C)"
| "automatic C Clear = False"
| "automatic C _ = True"

definition retries_left :: "int \<Rightarrow> string \<Rightarrow> dlq \<Rightarrow> int" where
  "retries_left C eid q = (case dict_get (storage q) eid of None \<Rightarrow> 0 | Some e \<Rightarrow> max 0 (C - fo_retry_count e))"

definition issued :: "string \<Rightarrow> dlq \<Rightarrow> bool" where
  "issued eid q \<longleftrightarrow> (\<exists>n < next_id q. eid = nat_str n)"

lemma entry_step_left:
  "entry_step False q q' \<Longrightarrow> retries_left C eid q' \<le> retries_left C eid q"
  by (induction rule: entry_step.induct) (auto simp: retries_left_def drop_entry_def dict_simps)

lemma entry_steps_left: "entry_steps False q q' \<Longrightarrow> retries_left C eid q' \<le> retries_left C eid q"
proof (induction rule: rtranclp_induct)
  case (step y z)
  then show ?case using entry_step_left [of y z C eid] by simp
qed simp

lemma entry_steps_next_id: "entry_steps k q q' \<Longrightarrow> next_id q' = next_id q"
  by (induction rule: rtranclp_induct) (auto dest: entry_step_next_id)

lemma step_budget:
  assumes "dlq_inv q" and "automatic C x" and "issued eid q"
  shows "spends eid x q + retries_left C eid (dlq_step x q) \<le> retries_left C eid q"
proof (cases "on_entries x \<and> \<not> counts x")
  case True
  then have "entry_steps False q (dlq_step x q)" using dlq_step_entries [OF assms(1), of x] by (cases "counts x") auto
  moreover have "spends eid x q = 0" using True by (cases x) auto
  ultimately show ?thesis by (simp add: entry_steps_left)
next
  case False
  then show ?thesis
  proof (cases x)
    case (Create now n)
    have "eid \<noteq> nat_str (next_id q)" using assms(3) by (auto simp: issued_def)
    then show ?thesis using Create by (simp add: retries_left_def dlq_create_def Let_def dict_simps)
  next
    case (Acquire now i cap force)
    then show ?thesis using assms(2)
      by (auto simp: retries_left_def dlq_try_acquire_for_replay_def Let_def dict_simps split: option.splits)
  next
    case (Give_Back i n)
    then show ?thesis
      by (auto simp: retries_left_def dlq_return_replay_attempt_def dict_simps split: option.splits)
  next
    case (Increment_Retry now i)
    then show ?thesis
      by (auto simp: retries_left_def dlq_increment_retry_count_def dict_simps split: option.splits)
  next
    case (Store_Summary c)
    then show ?thesis by (simp add: retries_left_def dlq_store_compressed_entry_def)
  next
    case (Summary_Status now cid st)
    then show ?thesis by (simp add: retries_left_def dlq_update_compressed_status_def Let_def split: option.splits)
  qed (use assms(2) in auto)
qed

lemma step_issued:
  assumes "dlq_inv q" and "automatic C x" and "issued eid q"
  shows "issued eid (dlq_step x q)"
proof (cases "on_entries x")
  case True
  then show ?thesis using entry_steps_next_id [OF dlq_step_entries [OF assms(1) True]] assms(3) by (simp add: issued_def)
next
  case False
  then show ?thesis using assms(2,3)
    by (cases x) (auto simp: issued_def dlq_create_def Let_def dlq_store_compressed_entry_def dlq_update_compressed_status_def
        split: option.splits intro: less_SucI)
qed

lemma retries_left_nonneg: "0 \<le> retries_left C eid q"
  by (simp add: retries_left_def split: option.splits)

lemma run_budget:
  assumes "dlq_inv q" and "list_all (automatic C) xs" and "issued eid q"
  shows "spent_in eid xs q \<le> retries_left C eid q"
  using assms
proof (induction xs arbitrary: q)
  case (Cons x xs)
  then have "spent_in eid xs (dlq_step x q) \<le> retries_left C eid (dlq_step x q)"
    using dlq_step_inv step_issued by auto
  then show ?case using step_budget [of q C x eid] Cons.prems by simp
qed (simp add: retries_left_nonneg)

text \<open>(C13) Over any sequence of automatic operations, however the workers, the stale release, the sweeps and the
  cleanup interleave, the replay attempts an entry costs net of those given back never exceed the
  replay cap less the count it was created with.\<close>

theorem replay_budget:
  assumes "list_all (automatic C) xs"
  shows "spent_in (fo_id (fst (dlq_create now n (dlq_run ws empty_dlq)))) xs (snd (dlq_create now n (dlq_run ws empty_dlq)))
      \<le> max 0 (C - no_retry_count n)"
proof -
  define q where "q = dlq_run ws empty_dlq"
  let ?eid = "fo_id (fst (dlq_create now n q))" and ?q = "snd (dlq_create now n q)"
  have "dlq_inv ?q" using dlq_step_inv [of q "Create now n"] dlq_run_inv by (simp add: q_def)
  moreover have "issued ?eid ?q" by (auto simp: issued_def dlq_create_def Let_def)
  ultimately have "spent_in ?eid xs ?q \<le> retries_left C ?eid ?q" using assms run_budget by blast
  also have "retries_left C ?eid ?q = max 0 (C - no_retry_count n)"
    by (simp add: retries_left_def dlq_create_def Let_def dict_simps)
  finally show ?thesis by (simp add: q_def)
qed

theorem replay_budget_witness:
  "list_all (automatic 2) [Acquire 1 (nat_str 1) 2 False, Give_Back (nat_str 1) 1, Complete 2 (nat_str 1) False [] [] None [],
       Acquire 3 (nat_str 1) 2 False]
   \<and> spent_in (fo_id (fst (dlq_create 0 sample_op (dlq_run [] empty_dlq))))
       [Acquire 1 (nat_str 1) 2 False, Give_Back (nat_str 1) 1, Complete 2 (nat_str 1) False [] [] None [], Acquire 3 (nat_str 1) 2 False]
       (snd (dlq_create 0 sample_op (dlq_run [] empty_dlq))) \<le> 2"
proof
  show a: "list_all (automatic 2) [Acquire 1 (nat_str 1) 2 False, Give_Back (nat_str 1) 1, Complete 2 (nat_str 1) False [] [] None [],
       Acquire 3 (nat_str 1) 2 False]" by simp
  show "spent_in (fo_id (fst (dlq_create 0 sample_op (dlq_run [] empty_dlq))))
       [Acquire 1 (nat_str 1) 2 False, Give_Back (nat_str 1) 1, Complete 2 (nat_str 1) False [] [] None [], Acquire 3 (nat_str 1) 2 False]
       (snd (dlq_create 0 sample_op (dlq_run [] empty_dlq))) \<le> 2"
    using replay_budget [OF a, of 0 sample_op "[]"] by (simp add: sample_op_def)
qed

end
