(* ===== verification/Dlq_Selection.thy ===== *)
theory Dlq_Selection
  imports Dlq_Invariant
begin

text \<open>
  What the dead letter queue selects: the pages of replayable entries, the ids an eviction chooses, what happens to an
  entry that is acquired while an eviction or a compression is under way, and the preview of a purge.
\<close>

section \<open>Pages of replayable entries\<close>

definition past :: "position option \<Rightarrow> position \<Rightarrow> bool" where
  "past c p = (case c of None \<Rightarrow> True | Some f \<Rightarrow> \<not> p \<le> f)"

definition positioned :: "failed_op list \<Rightarrow> (position \<times> failed_op) list" where
  "positioned es = List.map_filter (\<lambda>e. map_option (\<lambda>t. (replay_cursor_position t (fo_id e), e)) (fo_created_at e)) es"

definition replay_match :: "int \<Rightarrow> string option \<Rightarrow> string option \<Rightarrow> string option \<Rightarrow> failed_op \<Rightarrow> bool" where
  "replay_match cap dm ft source e \<longleftrightarrow> fo_status e = PENDING \<and> (truthy dm \<longrightarrow> fo_domain e = the dm) \<and> fo_retry_count e < cap
     \<and> (\<not> truthy ft \<or> fo_failure_type e = the ft) \<and> (source = None \<or> source_of e = map_option PStr source)"

text \<open>What a selection can return, oldest first.\<close>

definition replayable :: "int \<Rightarrow> string option \<Rightarrow> string option \<Rightarrow> string option \<Rightarrow> dlq \<Rightarrow> (position \<times> failed_op) list" where
  "replayable cap dm ft source q = sort_key fst (filter (\<lambda>(p, e). replay_match cap dm ft source e) (positioned (map snd (storage q))))"

lemma mset_positioned_cong: "mset es = mset fs \<Longrightarrow> mset (positioned es) = mset (positioned fs)"
  unfolding positioned_def by (rule mset_map_filter_cong)

lemma positioned_mem: "(p, e) \<in> set (positioned es) \<longleftrightarrow> e \<in> set es \<and> (\<exists>t. fo_created_at e = Some t \<and> p = (t, fo_id e))"
  by (induction es) (auto simp: positioned_def map_filter_simps replay_cursor_position_def split: option.splits)

lemma positioned_filter: "positioned (filter P es) = filter (\<lambda>(p, e). P e) (positioned es)"
  by (induction es) (auto simp: positioned_def map_filter_simps split: option.splits)

lemma distinct_positioned:
  "\<forall>(k, e) \<in> set d. fo_id e = k \<Longrightarrow> distinct (map fst d) \<Longrightarrow> distinct (map fst (positioned (map snd d)))"
proof (induction d)
  case (Cons x d)
  obtain k e where x: "x = (k, e)" by force
  have "(t, k) \<notin> fst ` set (positioned (map snd d))" for t
  proof
    assume "(t, k) \<in> fst ` set (positioned (map snd d))"
    then obtain f where "f \<in> snd ` set d" "fo_id f = k" by (force simp: positioned_mem)
    then show False using Cons.prems x by force
  qed
  moreover have "positioned (map snd (x # d)) =
      (case fo_created_at e of None \<Rightarrow> [] | Some t \<Rightarrow> [((t, fo_id e), e)]) @ positioned (map snd d)"
    by (simp add: x positioned_def map_filter_simps replay_cursor_position_def split: option.splits)
  moreover have "fo_id e = k" using Cons.prems x by simp
  ultimately show ?case using Cons by (auto split: option.splits)
qed (simp add: positioned_def map_filter_simps)

lemma positions_distinct: "dlq_inv q \<Longrightarrow> distinct (map fst (positioned (map snd (storage q))))"
  by (rule distinct_positioned) (auto simp: dlq_inv_def dict_wf_mem dict_wf_def dest: dict_allD simp flip: dict_wf_mem)

lemma pending_seen:
  assumes "dlq_inv q" and "enumerates it"
  shows "mset (examined q c (it (if truthy dm then dict_get_or (index_by_status_domain q) (PENDING, the dm) {}
                 else dict_get_or (index_by_status q) PENDING {}))) =
      mset (filter (\<lambda>(p, e). past c p \<and> fo_status e = PENDING \<and> (truthy dm \<longrightarrow> fo_domain e = the dm)) (positioned (map snd (storage q))))"
    (is "mset (examined q c (it ?S)) = mset (filter ?P ?ps)")
proof -
  let ?Q = "\<lambda>e. fo_status e = PENDING \<and> (truthy dm \<longrightarrow> fo_domain e = the dm)"
  have "mset (entries_of q (it ?S)) = mset (filter ?Q (map snd (storage q)))"
    using dlq_index_entries [OF assms] by (auto simp del: mset_map mset_filter)
  then have "mset (positioned (entries_of q (it ?S))) = mset (positioned (filter ?Q (map snd (storage q))))"
    by (rule mset_positioned_cong)
  then have "mset (positioned (entries_of q (it ?S))) = mset (filter (\<lambda>(p, e). ?Q e) ?ps)"
    by (simp only: positioned_filter)
  moreover have "examined q c (it ?S) = filter (\<lambda>(p, e). past c p) (positioned (entries_of q (it ?S)))"
    by (simp only: examined_def positioned_def past_def)
  ultimately show ?thesis
    by (simp add: filter_filter_mset split_def conj_ac)
qed

lemma highest_Some:
  "\<exists>r \<in> set (b # xs). highest (Some b) xs = Some r \<and> (\<forall>x \<in> set (b # xs). fst x \<le> fst r)"
proof (induction xs arbitrary: b)
  case (Cons x xs)
  obtain r where r: "r \<in> set ((if fst x > fst b then x else b) # xs)" "highest (Some (if fst x > fst b then x else b)) xs = Some r"
      "\<forall>y \<in> set ((if fst x > fst b then x else b) # xs). fst y \<le> fst r"
    using Cons.IH by blast
  then show ?case by (intro bexI [of _ r]) (auto split: if_splits)
qed simp

lemma highest_None: "highest None xs = None \<longleftrightarrow> xs = []"
proof (cases xs)
  case (Cons x ys)
  then show ?thesis using highest_Some [of x ys] by (metis highest.simps(2) list.distinct(1) option.distinct(1))
qed simp

lemma highest_max:
  assumes "highest None xs = Some r"
  shows "r \<in> set xs \<and> (\<forall>x \<in> set xs. fst x \<le> fst r)"
proof (cases xs)
  case (Cons x ys)
  then show ?thesis using highest_Some [of x ys] assms by (metis highest.simps(2) option.inject)
qed (use assms in simp)

text \<open>The page is the next slice of the list.\<close>

lemma page_matches:
  assumes "dlq_inv q" and "enumerates it"
  shows "sort_key fst (filter (\<lambda>(p, e). fo_retry_count e < cap \<and> (\<not> truthy ft \<or> fo_failure_type e = the ft)
             \<and> (source = None \<or> source_of e = map_option PStr source))
           (examined q c (it (if truthy dm then dict_get_or (index_by_status_domain q) (PENDING, the dm) {}
                              else dict_get_or (index_by_status q) PENDING {}))))
       = filter (past c \<circ> fst) (replayable cap dm ft source q)"
    (is "sort_key fst (filter ?P ?seen) = filter _ ?R")
proof (rule sort_key_inj_key_eq)
  have "filter (past c \<circ> fst) ?R = sort_key fst (filter (past c \<circ> fst) (filter (\<lambda>(p, e). replay_match cap dm ft source e) (positioned (map snd (storage q)))))"
    by (simp only: replayable_def filter_sort)
  then show "mset (filter ?P ?seen) = mset (filter (past c \<circ> fst) ?R)"
    using pending_seen [OF assms, of c dm]
    by (simp add: filter_filter_mset replay_match_def split_def comp_def conj_ac)
  have "set ?seen \<subseteq> set (positioned (map snd (storage q)))"
    using mset_eq_setD [OF pending_seen [OF assms, of c dm]] by auto
  moreover have "set (filter ?P ?seen) \<subseteq> set ?seen" by (rule filter_is_subset)
  ultimately show "inj_on fst (set (filter ?P ?seen))"
    using inj_on_subset [OF positions_distinct [OF assms(1), unfolded distinct_map, THEN conjunct2]] by blast
  show "sorted (map fst (filter (past c \<circ> fst) ?R))"
    by (simp add: replayable_def sorted_filter)
qed

lemma page_entries:
  assumes "dlq_inv q" and "enumerates it"
  shows "pg_entries (dlq_find_replayable_page it cap dm ft source limit c q) =
      map snd (take (nat limit) (filter (past c \<circ> fst) (replayable cap dm ft source q)))"
  by (simp only: dlq_find_replayable_page_def Let_def page.select_convs page_matches [OF assms])

lemma sorted_split:
  assumes "sorted (map fst xs)" and "distinct (map fst xs)" and "n < length xs"
  shows "filter (\<lambda>x. \<not> fst x \<le> fst (xs ! n)) xs = drop (Suc n) xs"
proof -
  have "fst x \<le> fst (xs ! n)" if "x \<in> set (take (Suc n) xs)" for x
    using that assms(1,3) by (force simp: in_set_conv_nth sorted_iff_nth_mono)
  then have "filter (\<lambda>x. \<not> fst x \<le> fst (xs ! n)) (take (Suc n) xs) = []"
    by (simp add: filter_empty_conv)
  moreover have "filter (\<lambda>x. \<not> fst x \<le> fst (xs ! n)) (drop (Suc n) xs) = drop (Suc n) xs"
  proof (rule filter_True, rule ballI)
    fix x assume "x \<in> set (drop (Suc n) xs)"
    then obtain i where i: "Suc n + i < length xs" "x = xs ! (Suc n + i)"
      by (metis add.commute in_set_conv_nth length_drop less_diff_conv nth_drop assms(3) Suc_leI)
    then have "fst (xs ! n) \<le> fst x" using assms(1) by (simp add: sorted_iff_nth_mono)
    moreover have "map fst xs ! n \<noteq> map fst xs ! (Suc n + i)"
      using i(1) assms(2,3) by (subst nth_eq_iff_index_eq) auto
    ultimately show "\<not> fst x \<le> fst (xs ! n)" using i by simp
  qed
  ultimately show ?thesis by (metis append_take_drop_id filter_append self_append_conv2)
qed

lemma replayable_wf:
  assumes "dlq_inv q"
  shows "sorted (map fst (replayable cap dm ft source q))" and "distinct (map fst (replayable cap dm ft source q))"
  using distinct_map_filter [OF positions_distinct [OF assms]]
  by (simp_all add: replayable_def distinct_map del: set_filter)

text \<open>The cursor of a page is past it: following it continues with what the page left out.\<close>

lemma page_cursor:
  fixes c :: "position option" and cap :: int and dm ft source :: "string option"
  assumes "dlq_inv q" and "enumerates it" and "0 < limit"
  defines "pg \<equiv> dlq_find_replayable_page it cap dm ft source limit c q"
    and "rest \<equiv> filter (past c \<circ> fst) (replayable cap dm ft source q)"
  shows "pg_next_cursor pg = None \<Longrightarrow> rest = []"
    and "pg_next_cursor pg = Some p \<Longrightarrow> past c p \<and> filter (past (Some p) \<circ> fst) (replayable cap dm ft source q) = drop (nat limit) rest"
proof -
  define ids where "ids = (if truthy dm then dict_get_or (index_by_status_domain q) (PENDING, the dm) {} else dict_get_or (index_by_status q) PENDING {})"
  define seen where "seen = examined q c (it ids)"
  define ms where "ms = filter (\<lambda>(p, e). fo_retry_count e < cap \<and> (\<not> truthy ft \<or> fo_failure_type e = the ft)
                       \<and> (source = None \<or> source_of e = map_option PStr source)) seen"
  have r: "sort_key fst ms = rest"
    using page_matches [OF assms(1,2)] by (simp add: ms_def seen_def ids_def rest_def)
  have len: "length ms = length rest" unfolding r [symmetric] by simp
  have sub: "set rest \<subseteq> set seen" unfolding r [symmetric] by (auto simp: ms_def)
  have pg: "pg_next_cursor pg = map_option fst (if length ms > length (take (nat limit) rest) \<and> take (nat limit) rest \<noteq> []
      then Some (last (take (nat limit) rest)) else highest None seen)"
    unfolding pg_def dlq_find_replayable_page_def Let_def page.select_convs
    by (simp only: r [unfolded ms_def seen_def ids_def] ms_def seen_def ids_def)
  have past_seen: "past c (fst x)" if "x \<in> set seen" for x
    using that by (auto simp: seen_def examined_def past_def split: option.splits)
  show "pg_next_cursor pg = None \<Longrightarrow> rest = []"
    using sub by (auto simp: pg highest_None split: if_splits)
  assume p: "pg_next_cursor pg = Some p"
  have wf: "sorted (map fst rest)" "distinct (map fst rest)"
    using replayable_wf [OF assms(1), of cap dm ft source] by (simp_all add: rest_def sorted_filter distinct_map_filter)
  have after: "filter (past (Some p) \<circ> fst) (replayable cap dm ft source q) = filter (\<lambda>x. \<not> fst x \<le> p) rest" if "past c p"
    unfolding rest_def filter_filter
  proof (rule filter_cong [OF refl])
    fix x show "(past (Some p) \<circ> fst) x = ((past c \<circ> fst) x \<and> \<not> fst x \<le> p)"
      using that by (cases c) (auto simp: past_def)
  qed
  show "past c p \<and> filter (past (Some p) \<circ> fst) (replayable cap dm ft source q) = drop (nat limit) rest"
  proof (cases "length ms > length (take (nat limit) rest) \<and> take (nat limit) rest \<noteq> []")
    case True
    then have l: "nat limit < length rest" using len by (auto simp: min_def split: if_splits)
    then have n: "nat limit - 1 < length rest" by simp
    have "length (take (nat limit) rest) = nat limit" using l by simp
    then have "last (take (nat limit) rest) = rest ! (nat limit - 1)"
      using True assms(3) by (subst last_conv_nth) auto
    then have "p = fst (rest ! (nat limit - 1))"
      using p unfolding pg if_P [OF True] by simp
    moreover have "past c (fst (rest ! (nat limit - 1)))" using n sub past_seen by (meson nth_mem subsetD)
    ultimately show ?thesis using after sorted_split [OF wf n] assms(3) by simp
  next
    case False
    then obtain x where x: "highest None seen = Some x" "p = fst x" using p unfolding pg if_not_P [OF False] by auto
    have "past c p" using highest_max [OF x(1)] x(2) past_seen by blast
    moreover have "filter (\<lambda>x. \<not> fst x \<le> p) rest = []"
      using highest_max [OF x(1)] x(2) sub by (auto simp: filter_empty_conv)
    moreover have "drop (nat limit) rest = []" using False len assms(3) by (cases "rest = []") auto
    ultimately show ?thesis using after by simp
  qed
qed



text \<open>(C25) A page of the replay selection is the next slice, oldest first, of the entries that can be replayed and lie
  past the cursor; its own cursor lies past the old one and leads exactly to what the page left out.
  So following the cursors visits every replayable entry exactly once.\<close>

theorem page_is_next_slice:
  assumes "enumerates it" and "0 < limit"
    and "replayable cap dm ft source (dlq_run xs empty_dlq) = R"
    and "dlq_find_replayable_page it cap dm ft source limit c (dlq_run xs empty_dlq) = pg"
  shows "pg_entries pg = map snd (take (nat limit) (filter (past c \<circ> fst) R))
    \<and> (case pg_next_cursor pg of
         None \<Rightarrow> filter (past c \<circ> fst) R = []
       | Some p \<Rightarrow> past c p \<and> filter (past (Some p) \<circ> fst) R = drop (nat limit) (filter (past c \<circ> fst) R))"
proof -
  have i: "dlq_inv (dlq_run xs empty_dlq)" by (simp add: dlq_run_inv)
  show ?thesis
    using page_entries [OF i assms(1)] page_cursor [OF i assms(1,2)] assms(3,4) by (auto split: option.split)
qed

theorem page_is_next_slice_witness:
  "enumerates sorted_list_of_set \<and> (0::int) < 1
   \<and> length (pg_entries (dlq_find_replayable_page sorted_list_of_set 3 None None None 1 None
        (dlq_run [Create 0 sample_op, Create 1 sample_op] empty_dlq))) = 1"
proof (intro conjI)
  show e: "enumerates sorted_list_of_set" by (rule enumerates_sorted)
  show n: "(0::int) < 1" by simp
  have "length (replayable 3 None None None (dlq_run [Create 0 sample_op, Create 1 sample_op] empty_dlq)) = 2"
    by (simp add: replayable_def positioned_def map_filter_simps replay_match_def truthy_def dlq_create_def empty_dlq_def sample_op_def
        Let_def add_to_index_def)
  moreover have "past None = (\<lambda>_. True)" by (simp add: past_def fun_eq_iff)
  ultimately show "length (pg_entries (dlq_find_replayable_page sorted_list_of_set 3 None None None 1 None
        (dlq_run [Create 0 sample_op, Create 1 sample_op] empty_dlq))) = 1"
    using page_is_next_slice [OF e n refl refl, where cap = 3 and dm = None and ft = None and source = None and xs = "[Create 0 sample_op, Create 1 sample_op]" and c = None] by (simp add: comp_def)
qed

section \<open>Eviction\<close>

lemma drop_get: "dict_get (storage (drop_entry i e q)) eid = (if eid = i then None else dict_get (storage q) eid)"
  by (simp add: drop_entry_def dict_simps)

lemma evict_ids_get:
  "dict_get (storage (snd (evict_ids ids q))) eid =
     (case dict_get (storage q) eid of None \<Rightarrow> None
      | Some e \<Rightarrow> if eid \<in> set ids \<and> fo_status e \<notin> eviction_protected_statuses then None else Some e)"
  by (induction ids arbitrary: q) (auto simp: drop_get split_def Let_def split: option.splits)

lemma delete_ids_get:
  "dict_get (storage (snd (delete_ids ids q))) eid = (if eid \<in> set ids then None else dict_get (storage q) eid)"
  by (induction ids arbitrary: q) (auto simp: drop_get split_def Let_def split: option.splits)

lemma evict_ids_count:
  "distinct ids \<Longrightarrow> (\<forall>i \<in> set ids. \<exists>e. dict_get (storage q) i = Some e \<and> fo_status e \<notin> eviction_protected_statuses) \<Longrightarrow>
   fst (evict_ids ids q) = length ids"
proof (induction ids arbitrary: q)
  case (Cons i ids)
  then obtain e where e: "dict_get (storage q) i = Some e" "fo_status e \<notin> eviction_protected_statuses" by auto
  have "fst (evict_ids ids (drop_entry i e q)) = length ids"
    using Cons.prems by (intro Cons.IH) (auto simp: drop_get)
  then show ?case using e by (simp add: split_def Let_def)
qed simp

text \<open>The pairs the eviction chooses from.\<close>

lemma pairs_of_index:
  assumes "dict_wf (storage q)" and "enumerates it"
  shows "mset (pairs_of q (it (ids_where q P))) = mset (filter (\<lambda>(_, e). P e) (storage q))"
proof -
  let ?xs = "filter (\<lambda>(_, e). P e) (storage q)" and ?f = "\<lambda>i. map_option (Pair i) (dict_get (storage q) i)"
  have "mset (pairs_of q (it (ids_where q P))) = mset (List.map_filter ?f (map fst ?xs))"
    unfolding pairs_of_def by (rule mset_map_filter_cong [OF it_ids_where [OF assms]])
  also have "List.map_filter ?f (map fst (map (\<lambda>x. (fst x, x)) ?xs)) = map snd (map (\<lambda>x. (fst x, x)) ?xs)"
    using assms(1) by (intro map_filter_keys) (auto simp: dict_wf_mem)
  then have "List.map_filter ?f (map fst ?xs) = ?xs" by (simp add: comp_def)
  finally show ?thesis .
qed

definition in_domain :: "string option \<Rightarrow> failed_op \<Rightarrow> bool" where
  "in_domain dm e \<longleftrightarrow> (truthy dm \<longrightarrow> fo_domain e = the dm)"

definition evictable :: "string option \<Rightarrow> failed_op \<Rightarrow> bool" where
  "evictable dm e \<longleftrightarrow> in_domain dm e \<and> fo_status e \<notin> non_evictable_statuses"

lemma oldest_ids_of:
  assumes "dlq_inv q" and "enumerates it"
  obtains xs where "dlq_get_oldest_ids it now n dm q = map fst (slice_to n (sort_key (\<lambda>(eid, e). created_or now e) xs))"
    and "mset xs = mset (filter (\<lambda>(_, e). evictable dm e) (storage q))"
proof
  let ?es = "if truthy dm then pairs_of q (it (dict_get_or (index_by_domain q) (the dm) {})) else storage q"
  let ?xs = "filter (\<lambda>(eid, e). fo_status e \<notin> non_evictable_statuses) ?es"
  show "dlq_get_oldest_ids it now n dm q = map fst (slice_to n (sort_key (\<lambda>(eid, e). created_or now e) ?xs))"
    by (simp add: dlq_get_oldest_ids_def Let_def)
  have "mset ?es = mset (filter (\<lambda>(_, e). in_domain dm e) (storage q))"
    using assms pairs_of_index [of q it "\<lambda>e. fo_domain e = the dm"]
    by (auto simp: dlq_inv_def indexes_exact_def in_domain_def simp del: mset_filter)
  then show "mset ?xs = mset (filter (\<lambda>(_, e). evictable dm e) (storage q))"
    by (simp add: filter_filter_mset evictable_def split_def conj_commute)
qed

lemma evict_oldest_inv:
  fixes now :: instant and dm :: "string option"
  assumes "dlq_inv q" and "enumerates it" and "0 \<le> n"
  defines "r \<equiv> dlq_evict_oldest it now n dm q"
  shows "fst r = min (nat n) (length (filter (evictable dm) (map snd (storage q))))"
    and "dict_get (storage q) eid = Some e \<Longrightarrow> dict_get (storage (snd r)) eid \<noteq> Some e \<Longrightarrow>
      dict_get (storage (snd r)) eid = None \<and> evictable dm e
      \<and> (\<forall>i f. dict_get (storage (snd r)) i = Some f \<longrightarrow> evictable dm f \<longrightarrow> created_or now e \<le> created_or now f)"
proof -
  obtain xs where ids: "dlq_get_oldest_ids it now n dm q = map fst (slice_to n (sort_key (\<lambda>(eid, e). created_or now e) xs))"
    and xs: "mset xs = mset (filter (\<lambda>(_, e). evictable dm e) (storage q))"
    using oldest_ids_of [OF assms(1,2)] by blast
  define ys where "ys = sort_key (\<lambda>(eid, e). created_or now e) xs"
  define zs where "zs = take (nat n) ys"
  have r: "r = evict_ids (map fst zs) q"
    using assms(3) by (simp add: r_def dlq_evict_oldest_def ids ys_def zs_def slice_to_def)
  have mem: "(k, f) \<in> set ys \<longleftrightarrow> dict_get (storage q) k = Some f \<and> evictable dm f" for k f
    using assms(1) mset_eq_setD [OF xs] by (auto simp: ys_def dlq_inv_def dict_wf_mem)
  have "mset (map fst ys) = mset (map fst (filter (\<lambda>(_, e). evictable dm e) (storage q)))"
    using xs by (simp add: ys_def)
  then have dist: "distinct (map fst ys)"
    using assms(1) by (metis dict_wf_def distinct_map_filter dlq_inv_def mset_eq_imp_distinct_iff)
  have zsub: "set zs \<subseteq> set ys" by (simp add: zs_def set_take_subset)
  have le: "created_or now (snd x) \<le> created_or now (snd y)" if "x \<in> set zs" "y \<in> set (drop (nat n) ys)" for x y
  proof -
    have "sorted (map (\<lambda>(eid, e). created_or now e) (zs @ drop (nat n) ys))" by (simp add: zs_def ys_def)
    then show ?thesis using that by (force simp: sorted_append split_def)
  qed
  have prot: "fo_status f \<notin> eviction_protected_statuses" if "evictable dm f" for f
    using that by (simp add: evictable_def non_evictable_statuses_def)
  have "distinct (map fst zs)" using dist by (simp add: zs_def take_map [symmetric] distinct_take)
  moreover have "\<exists>e. dict_get (storage q) i = Some e \<and> fo_status e \<notin> eviction_protected_statuses" if i: "i \<in> set (map fst zs)" for i
  proof -
    obtain f where "(i, f) \<in> set ys" using i zsub by auto
    then show ?thesis using mem prot by blast
  qed
  ultimately have "fst r = length zs" unfolding r by (simp add: evict_ids_count)
  moreover have "length ys = length (filter (evictable dm) (map snd (storage q)))"
    using mset_eq_length [OF xs] by (simp add: ys_def filter_map comp_def split_def)
  ultimately show "fst r = min (nat n) (length (filter (evictable dm) (map snd (storage q))))"
    by (simp add: zs_def min.commute)
  assume e: "dict_get (storage q) eid = Some e" "dict_get (storage (snd r)) eid \<noteq> Some e"
  then have "eid \<in> set (map fst zs)" and none: "dict_get (storage (snd r)) eid = None"
    by (auto simp: r evict_ids_get split: if_splits)
  then have ez: "(eid, e) \<in> set zs" and ev: "evictable dm e" using e(1) zsub mem by fastforce+
  have "created_or now e \<le> created_or now f" if f: "dict_get (storage (snd r)) i = Some f" "evictable dm f" for i f
  proof -
    have q: "dict_get (storage q) i = Some f" using f(1) by (auto simp: r evict_ids_get split: option.splits if_splits)
    then have "(i, f) \<in> set ys" using mem f(2) by simp
    moreover have "i \<notin> set (map fst zs)"
      using f(1) q prot [OF f(2)] unfolding r evict_ids_get by (auto split: if_splits)
    then have "(i, f) \<notin> set zs" by force
    ultimately have "(i, f) \<in> set (drop (nat n) ys)" by (metis Un_iff append_take_drop_id set_append zs_def)
    then show ?thesis using le [OF ez] by fastforce
  qed
  then show "dict_get (storage (snd r)) eid = None \<and> evictable dm e
      \<and> (\<forall>i f. dict_get (storage (snd r)) i = Some f \<longrightarrow> evictable dm f \<longrightarrow> created_or now e \<le> created_or now f)"
    using none ev by blast
qed

text \<open>A size-limit eviction removes exactly the asked number of evictable entries (or all there are), never one
  that is in flight or finished, and none younger than an evictable entry it leaves.\<close>

theorem eviction_oldest_first:
  assumes "enumerates it" and "0 \<le> n"
    and "dlq_run xs empty_dlq = q" and "dlq_evict_oldest it now n dm q = (k, q')"
  shows "k = min (nat n) (length (filter (evictable dm) (map snd (storage q))))
    \<and> (\<forall>eid e. dict_get (storage q) eid = Some e \<longrightarrow> dict_get (storage q') eid \<noteq> Some e \<longrightarrow>
         dict_get (storage q') eid = None \<and> evictable dm e
         \<and> (\<forall>i f. dict_get (storage q') i = Some f \<longrightarrow> evictable dm f \<longrightarrow> created_or now e \<le> created_or now f))"
proof -
  have "dlq_inv q" using dlq_run_inv [OF dlq_inv_empty, of xs] assms(3) by simp
  from evict_oldest_inv [OF this assms(1,2), where now = now and dm = dm] show ?thesis using assms(4) by simp
qed

theorem eviction_oldest_first_witness:
  "enumerates sorted_list_of_set \<and> (0::int) \<le> 1
   \<and> fst (dlq_evict_oldest sorted_list_of_set 9 1 None (dlq_run [Create 0 sample_op, Create 1 sample_op] empty_dlq)) = 1"
proof (intro conjI)
  show e: "enumerates sorted_list_of_set" by (rule enumerates_sorted)
  show n: "(0::int) \<le> 1" by simp
  show "fst (dlq_evict_oldest sorted_list_of_set 9 1 None (dlq_run [Create 0 sample_op, Create 1 sample_op] empty_dlq)) = 1"
    using eviction_oldest_first [OF e n refl prod.collapse [symmetric], where xs = "[Create 0 sample_op, Create 1 sample_op]" and now = 9 and dm = None]
    by (simp add: dlq_create_def empty_dlq_def sample_op_def Let_def add_to_index_def evictable_def in_domain_def
        truthy_def non_evictable_statuses_def terminal_statuses_def eviction_protected_statuses_def)
qed

section \<open>In-flight entries\<close>

text \<open>What the eviction and the compression do with the ids they chose once the lock is taken again.\<close>

text \<open>The eviction checks each chosen entry again once it holds the lock: an entry that a worker acquired in
  between is kept.\<close>

theorem eviction_spares_in_flight:
  "held eid q \<Longrightarrow> dict_get (storage (snd (evict_ids ids q))) eid = dict_get (storage q) eid"
  by (auto simp: held_def evict_ids_get eviction_protected_statuses_def split: option.splits)

theorem eviction_spares_in_flight_witness:
  "held (nat_str 1) (dlq_run [Create 0 sample_op, Acquire 1 (nat_str 1) 3 False] empty_dlq)
   \<and> dict_get (storage (snd (evict_ids [nat_str 1] (dlq_run [Create 0 sample_op, Acquire 1 (nat_str 1) 3 False] empty_dlq)))) (nat_str 1)
     = dict_get (storage (dlq_run [Create 0 sample_op, Acquire 1 (nat_str 1) 3 False] empty_dlq)) (nat_str 1)"
proof
  show a: "held (nat_str 1) (dlq_run [Create 0 sample_op, Acquire 1 (nat_str 1) 3 False] empty_dlq)" by code_simp
  show "dict_get (storage (snd (evict_ids [nat_str 1] (dlq_run [Create 0 sample_op, Acquire 1 (nat_str 1) 3 False] empty_dlq)))) (nat_str 1)
     = dict_get (storage (dlq_run [Create 0 sample_op, Acquire 1 (nat_str 1) 3 False] empty_dlq)) (nat_str 1)"
    by (rule eviction_spares_in_flight [OF a])
qed

lemma store_summaries_get [simp]: "storage (fold dlq_store_compressed_entry cs q) = storage q"
  by (induction cs arbitrary: q) (simp_all add: dlq_store_compressed_entry_def)

text \<open>The compression does not check again: an entry that a worker acquired after the ids were chosen is deleted
  while its replay runs.\<close>

theorem compression_drops_in_flight:
  assumes "eid \<in> set (dlq_get_oldest_ids it now n dm q)" and "entries_of q (dlq_get_oldest_ids it now n dm q) \<noteq> []"
    and "compress (entries_of q (dlq_get_oldest_ids it now n dm q)) = Some summaries"
  shows "dict_get (storage (snd (dlq_compress_and_evict_oldest it compress
            (\<lambda>q. snd (dlq_try_acquire_for_replay now eid cap False q)) now n dm q))) eid = None"
  using assms by (auto simp: dlq_compress_and_evict_oldest_def Let_def delete_ids_get)

theorem compression_drops_in_flight_witness:
  "dict_get (storage (snd (dlq_compress_and_evict_oldest (\<lambda>_. []) (\<lambda>_. Some [])
      (\<lambda>q. snd (dlq_try_acquire_for_replay 9 (nat_str 1) 3 False q)) 9 1 None (dlq_run [Create 0 sample_op] empty_dlq)))) (nat_str 1) = None"
proof (rule compression_drops_in_flight)
  show "nat_str 1 \<in> set (dlq_get_oldest_ids (\<lambda>_. []) 9 1 None (dlq_run [Create 0 sample_op] empty_dlq))" by code_simp
  show "entries_of (dlq_run [Create 0 sample_op] empty_dlq) (dlq_get_oldest_ids (\<lambda>_. []) 9 1 None (dlq_run [Create 0 sample_op] empty_dlq)) \<noteq> []"
    by (simp add: dlq_get_oldest_ids_def truthy_def dlq_create_def empty_dlq_def sample_op_def Let_def add_to_index_def
        non_evictable_statuses_def terminal_statuses_def eviction_protected_statuses_def slice_to_def entries_of_def map_filter_simps)
qed simp

section \<open>The cleanup preview\<close>

text \<open>The preview of a purge and the purge disagree: an entry resolved long ago and archived recently is counted
  by the preview, which goes by the time of resolution, and kept by the purge, which goes by the last update.\<close>

theorem purge_preview_overcounts:
  "dlq_count_archived_older_than (days 32) 30
      (dlq_run [Create 0 sample_op, Set_Status 0 (nat_str 1) RESOLVED no_resolution, Archive (days 31) 30] empty_dlq) = 1
   \<and> fst (dlq_purge_archived (days 32) None (Some 30)
      (dlq_run [Create 0 sample_op, Set_Status 0 (nat_str 1) RESOLVED no_resolution, Archive (days 31) 30] empty_dlq)) = Inr 0"
  by code_simp

end
