(* ===== verification/Domain_Names.thy ===== *)
theory Domain_Names
  imports Py_Values "HOL-Library.Sublist"
begin

text \<open>
  Names: the validated form of a domain and the form a dead letter is stored under
  (\<open>utils/domain_validation.py\<close>), its metric label (\<open>metrics/registry.py\<close>), and the composite names of
  cell-scoped breakers (\<open>core/cb_namespace.py\<close>).  A string is a list of characters with code points
  below 256.
\<close>

section \<open>Python string methods\<close>

definition code :: "char \<Rightarrow> nat" where
  "code c = of_char c"

definition lower_char :: "char \<Rightarrow> char" where
  "lower_char c = (if 65 \<le> code c \<and> code c \<le> 90 \<or> 192 \<le> code c \<and> code c \<le> 222 \<and> code c \<noteq> 215
                   then char_of (code c + 32) else c)"

definition py_lower :: "string \<Rightarrow> string" where
  "py_lower s = map lower_char s"

definition py_space :: "char \<Rightarrow> bool" where
  "py_space c \<longleftrightarrow> 9 \<le> code c \<and> code c \<le> 13 \<or> 28 \<le> code c \<and> code c \<le> 32 \<or> code c = 133 \<or> code c = 160"

definition py_strip :: "string \<Rightarrow> string" where
  "py_strip s = rev (dropWhile py_space (rev (dropWhile py_space s)))"

section \<open>Validated domains\<close>

definition FALLBACK_DOMAIN :: string where
  "FALLBACK_DOMAIN = ''OTHER_DOMAIN''"

definition MAX_DOMAIN_LENGTH :: nat where
  "MAX_DOMAIN_LENGTH = 64"

definition is_lower :: "char \<Rightarrow> bool" where
  "is_lower c \<longleftrightarrow> 97 \<le> code c \<and> code c \<le> 122"

definition is_ident :: "char \<Rightarrow> bool" where
  "is_ident c \<longleftrightarrow> is_lower c \<or> 48 \<le> code c \<and> code c \<le> 57 \<or> c = CHR ''_''"

text \<open>The rest of a segment that has begun; a dot begins the next one, which is not empty.\<close>

fun in_segment :: "string \<Rightarrow> bool" where
  "in_segment [] = True"
| "in_segment [c] = is_ident c"
| "in_segment (c # d # s) = (if is_ident c then in_segment (d # s) else c = CHR ''.'' \<and> is_ident d \<and> in_segment s)"

definition segmented :: "string \<Rightarrow> bool" where
  "segmented s = (case s of [] \<Rightarrow> False | c # cs \<Rightarrow> is_lower c \<and> in_segment cs)"

text \<open>The pattern ends in \<open>$\<close>, which also matches just before a newline at the end.\<close>

definition domain_pattern :: "string \<Rightarrow> bool" where
  "domain_pattern s \<longleftrightarrow> segmented s \<or> s \<noteq> [] \<and> code (last s) = 10 \<and> segmented (butlast s)"

datatype domain_reject_reason = TOO_LONG | EMPTY | INVALID_CHARSET | NOT_STRING

definition validate_and_normalize_domain :: "pyval \<Rightarrow> domain_reject_reason + string" where
  "validate_and_normalize_domain d =
     (case d of
        PStr s \<Rightarrow>
          let n = py_lower s
          in if n = [] \<or> py_strip n = [] then Inl EMPTY
             else if length n > MAX_DOMAIN_LENGTH then Inl TOO_LONG
             else if \<not> domain_pattern n then Inl INVALID_CHARSET
             else Inr n
      | _ \<Rightarrow> Inl NOT_STRING)"

section \<open>Labels\<close>

definition UNKNOWN_LABEL_VALUE :: string where
  "UNKNOWN_LABEL_VALUE = ''unknown''"

definition label_safe :: "char \<Rightarrow> bool" where
  "label_safe c \<longleftrightarrow> is_ident c \<or> 65 \<le> code c \<and> code c \<le> 90"

definition sanitize_label_value :: "string \<Rightarrow> string" where
  "sanitize_label_value v =
     (if v = [] \<or> py_strip v = [] then UNKNOWN_LABEL_VALUE
      else take 128 (map (\<lambda>c. if label_safe c then c else CHR ''_'') (py_strip v)))"

definition canonicalize_domain_label :: "pyval \<Rightarrow> string" where
  "canonicalize_domain_label d =
     (case d of PStr s \<Rightarrow> sanitize_label_value (py_lower (py_strip s)) | _ \<Rightarrow> UNKNOWN_LABEL_VALUE)"

definition NON_REGISTRABLE_DOMAIN_LABELS :: "string set" where
  "NON_REGISTRABLE_DOMAIN_LABELS = {UNKNOWN_LABEL_VALUE, ''other_domain'', ''default''}"

definition resolve_stored_domain :: "pyval \<Rightarrow> string" where
  "resolve_stored_domain d =
     (case validate_and_normalize_domain d of
        Inr n \<Rightarrow> n
      | Inl _ \<Rightarrow>
          let canonical = canonicalize_domain_label d
          in if canonical \<in> NON_REGISTRABLE_DOMAIN_LABELS then FALLBACK_DOMAIN
             else case validate_and_normalize_domain (PStr canonical) of Inr n \<Rightarrow> n | Inl _ \<Rightarrow> FALLBACK_DOMAIN)"

section \<open>Composite breaker names\<close>

definition COMPOSITE_KEY_SEPARATOR :: string where
  "COMPOSITE_KEY_SEPARATOR = ''::''"

definition make_cell_scoped_cb_name :: "string \<Rightarrow> string \<Rightarrow> string" where
  "make_cell_scoped_cb_name service_name cell_id = service_name @ COMPOSITE_KEY_SEPARATOR @ cell_id"

text \<open>\<open>s.split(sep, 1)\<close>: what is before and after the first occurrence, if there is one.\<close>

fun split_once :: "string \<Rightarrow> string \<Rightarrow> (string \<times> string) option" where
  "split_once sep [] = (if sep = [] then Some ([], []) else None)"
| "split_once sep (c # s) =
     (if prefix sep (c # s) then Some ([], drop (length sep) (c # s))
      else map_option (\<lambda>(a, b). (c # a, b)) (split_once sep s))"

definition parse_composite_cb_name :: "string \<Rightarrow> string \<times> string" where
  "parse_composite_cb_name n = (case split_once COMPOSITE_KEY_SEPARATOR n of Some p \<Rightarrow> p | None \<Rightarrow> (n, []))"

section \<open>The stored form\<close>

lemma lower_ident [simp]: "is_ident c \<Longrightarrow> lower_char c = c"
  by (auto simp: is_ident_def is_lower_def lower_char_def code_def)

lemma in_segment_chars: "in_segment s \<Longrightarrow> c \<in> set s \<Longrightarrow> is_ident c \<or> c = CHR ''.''"
  by (induction s rule: in_segment.induct) (auto split: if_splits)

lemma domain_pattern_lower: "domain_pattern s \<Longrightarrow> py_lower s = s"
proof -
  have dot: "lower_char (CHR ''.'') = CHR ''.''" by (simp add: lower_char_def code_def)
  have nl: "lower_char c = c" if "code c = 10" for c using that by (simp add: lower_char_def)
  have seg: "lower_char c = c" if st: "segmented t" and ct: "c \<in> set t" for t c
  proof -
    obtain a u where t: "t = a # u" "is_lower a" "in_segment u"
      using st by (cases t) (simp_all add: segmented_def)
    have "is_ident a" using t(2) by (simp add: is_ident_def)
    then show ?thesis using ct t in_segment_chars [OF t(3), of c] dot by auto
  qed
  show "domain_pattern s \<Longrightarrow> py_lower s = s"
    unfolding domain_pattern_def
  proof (elim disjE conjE)
    assume "segmented s"
    then show ?thesis by (simp add: py_lower_def map_idI seg)
  next
    assume "s \<noteq> []" "code (last s) = 10" "segmented (butlast s)"
    then show ?thesis using seg nl by (simp add: py_lower_def) (metis append_butlast_last_id map_append map_idI list.simps(8,9))
  qed
qed

lemma validate_idem:
  assumes "validate_and_normalize_domain d = Inr n"
  shows "validate_and_normalize_domain (PStr n) = Inr n"
  using assms domain_pattern_lower [of n]
  by (auto simp: validate_and_normalize_domain_def Let_def split: pyval.splits if_splits)

lemma resolve_stored_valid:
  assumes "resolve_stored_domain d \<noteq> FALLBACK_DOMAIN"
  shows "validate_and_normalize_domain (PStr (resolve_stored_domain d)) = Inr (resolve_stored_domain d)"
  using assms by (auto simp: resolve_stored_domain_def Let_def split: sum.splits if_splits dest: validate_idem)

lemma resolve_valid: "validate_and_normalize_domain (PStr s) = Inr n \<Longrightarrow> resolve_stored_domain (PStr s) = n"
  by (simp add: resolve_stored_domain_def)

text \<open>The form a dead letter is stored under is a fixed point: a name that has a domain identity of its own is
  projected onto a valid domain, and projecting that again gives it back.\<close>

theorem stored_form_is_stable:
  assumes "resolve_stored_domain d \<noteq> FALLBACK_DOMAIN"
  shows "validate_and_normalize_domain (PStr (resolve_stored_domain d)) = Inr (resolve_stored_domain d)
    \<and> resolve_stored_domain (PStr (resolve_stored_domain d)) = resolve_stored_domain d"
  using resolve_stored_valid [OF assms] by (simp add: resolve_valid)

theorem stored_form_is_stable_witness:
  "resolve_stored_domain (PStr '' Payment-API'') = ''payment_api''
   \<and> validate_and_normalize_domain (PStr ''payment_api'') = Inr ''payment_api'' \<and> resolve_stored_domain (PStr ''payment_api'') = ''payment_api''"
proof -
  have r: "resolve_stored_domain (PStr '' Payment-API'') = ''payment_api''" by code_simp
  moreover have "resolve_stored_domain (PStr '' Payment-API'') \<noteq> FALLBACK_DOMAIN" by code_simp
  ultimately show ?thesis using stored_form_is_stable [of "PStr '' Payment-API''"] by simp
qed

text \<open>A domain with a newline at its end passes the validation and is stored under its own name, beside the
  domain without it.\<close>

theorem trailing_newline_admitted:
  "resolve_stored_domain (PStr (''payment'' @ [CHR 0x0A])) = ''payment'' @ [CHR 0x0A]
   \<and> resolve_stored_domain (PStr ''payment'') = ''payment''"
  by code_simp

section \<open>Splitting composite names\<close>

lemma split_once_Some: "split_once sep s = Some (a, b) \<Longrightarrow> s = a @ sep @ b"
proof (induction sep s arbitrary: a b rule: split_once.induct)
  case (2 sep c s)
  then show ?case by (auto split: if_splits elim!: prefixE)
qed (auto split: if_splits)

lemma split_once_None: "sep \<noteq> [] \<Longrightarrow> split_once sep s = None \<longleftrightarrow> \<not> sublist sep s"
  by (induction sep s rule: split_once.induct) (auto simp: sublist_Cons_right)

lemma split_made_name: "split_once ''::'' (s @ ''::'' @ t) = Some (s, t) \<longleftrightarrow> \<not> sublist ''::'' (s @ '':'')"
proof (induction s)
  case (Cons x s)
  have "prefix ''::'' (x # s @ ''::'' @ t) \<longleftrightarrow> prefix ''::'' (x # s @ '':'')" by (cases s) auto
  then show ?case using Cons.IH by (auto simp: sublist_Cons_right)
qed (simp add: sublist_Cons_right)

text \<open>(C39) A composite breaker name is taken apart into the service and the cell it was made of exactly when the
  service name does not contain the separator and does not end in half of it; and what is taken apart
  makes the name again.\<close>

theorem composite_name_roundtrip:
  "(parse_composite_cb_name (make_cell_scoped_cb_name s t) = (s, t) \<longleftrightarrow> \<not> sublist ''::'' (s @ '':''))
   \<and> (sublist ''::'' n \<longrightarrow> make_cell_scoped_cb_name (fst (parse_composite_cb_name n)) (snd (parse_composite_cb_name n)) = n)"
proof
  have "sublist ''::'' (s @ ''::'' @ t)" by (rule sublist_appendI)
  then have "split_once ''::'' (s @ ''::'' @ t) \<noteq> None" using split_once_None [of "''::''" "s @ ''::'' @ t"] by blast
  then show "parse_composite_cb_name (make_cell_scoped_cb_name s t) = (s, t) \<longleftrightarrow> \<not> sublist ''::'' (s @ '':'')"
    using split_made_name [of s t]
    by (auto simp: parse_composite_cb_name_def make_cell_scoped_cb_name_def COMPOSITE_KEY_SEPARATOR_def)
  show "sublist ''::'' n \<longrightarrow> make_cell_scoped_cb_name (fst (parse_composite_cb_name n)) (snd (parse_composite_cb_name n)) = n"
    using split_once_None [of "''::''" n] split_once_Some [of "''::''" n]
    by (auto simp: parse_composite_cb_name_def make_cell_scoped_cb_name_def COMPOSITE_KEY_SEPARATOR_def)
qed

theorem composite_name_roundtrip_witness:
  "parse_composite_cb_name (make_cell_scoped_cb_name ''payment_api'' ''cell-3'') = (''payment_api'', ''cell-3'')
   \<and> sublist ''::'' ''payment_api::cell-3''
   \<and> make_cell_scoped_cb_name (fst (parse_composite_cb_name ''payment_api::cell-3'')) (snd (parse_composite_cb_name ''payment_api::cell-3''))
     = ''payment_api::cell-3''"
proof -
  have "\<not> sublist ''::'' (''payment_api'' @ '':'')" by (simp add: sublist_Cons_right)
  moreover have "sublist ''::'' ''payment_api::cell-3''" by (simp add: sublist_Cons_right)
  ultimately show ?thesis
    using composite_name_roundtrip [of "''payment_api''" "''cell-3''" "''payment_api::cell-3''"] by simp
qed

end
