(* ===== verification/Memory_Cache.thy ===== *)
theory Memory_Cache
  imports Py_Values Domain_Names
begin

text \<open>
  The in-memory cache (\<open>adapters/cache/memory_adapter.py\<close>): values with an expiry, the atomic
  operations the idempotency gate builds on, and the named locks.  Every method runs under the
  adapter's lock (the locks under the registry lock), so it is one function of the state.  The clock is
  the argument \<open>now\<close>; a time to live is a number of microseconds.
\<close>

section \<open>State\<close>

record cache_entry =
  ca_value :: pyval
  ca_expires :: "instant option"

record cache =
  key_prefix :: string
  cache_store :: "(string, cache_entry) dict"

definition empty_cache :: "string \<Rightarrow> cache" where
  "empty_cache p = \<lparr>key_prefix = p, cache_store = []\<rparr>"

definition make_key :: "cache \<Rightarrow> string \<Rightarrow> string" where
  "make_key c k = key_prefix c @ k"

definition entry_expired :: "instant \<Rightarrow> cache_entry \<Rightarrow> bool" where
  "entry_expired now e = (case ca_expires e of None \<Rightarrow> False | Some t \<Rightarrow> now > t)"

definition expires_after :: "instant \<Rightarrow> int option \<Rightarrow> instant option" where
  "expires_after now ttl = map_option (\<lambda>d. now + d) ttl"

definition put_entry :: "instant \<Rightarrow> string \<Rightarrow> pyval \<Rightarrow> int option \<Rightarrow> cache \<Rightarrow> cache" where
  "put_entry now k v ttl c =
     c\<lparr>cache_store := dict_set (make_key c k) \<lparr>ca_value = v, ca_expires = expires_after now ttl\<rparr> (cache_store c)\<rparr>"

text \<open>The entry a key has that is not expired.\<close>

definition live_entry :: "instant \<Rightarrow> string \<Rightarrow> cache \<Rightarrow> cache_entry option" where
  "live_entry now k c =
     (case dict_get (cache_store c) (make_key c k) of None \<Rightarrow> None | Some e \<Rightarrow> if entry_expired now e then None else Some e)"

section \<open>Basic operations\<close>

text \<open>A read drops an entry it finds expired.\<close>

definition drop_expired :: "instant \<Rightarrow> string \<Rightarrow> cache \<Rightarrow> cache" where
  "drop_expired now k c =
     (case dict_get (cache_store c) (make_key c k) of
        Some e \<Rightarrow> if entry_expired now e then c\<lparr>cache_store := dict_del (make_key c k) (cache_store c)\<rparr> else c
      | None \<Rightarrow> c)"

definition cache_get :: "instant \<Rightarrow> string \<Rightarrow> cache \<Rightarrow> pyval option \<times> cache" where
  "cache_get now k c = (map_option ca_value (live_entry now k c), drop_expired now k c)"

definition cache_set :: "instant \<Rightarrow> string \<Rightarrow> pyval \<Rightarrow> int option \<Rightarrow> cache \<Rightarrow> cache" where
  "cache_set = put_entry"

definition cache_delete :: "string \<Rightarrow> cache \<Rightarrow> bool \<times> cache" where
  "cache_delete k c =
     (if dict_get (cache_store c) (make_key c k) \<noteq> None
      then (True, c\<lparr>cache_store := dict_del (make_key c k) (cache_store c)\<rparr>) else (False, c))"

definition cache_exists :: "instant \<Rightarrow> string \<Rightarrow> cache \<Rightarrow> bool \<times> cache" where
  "cache_exists now k c = (live_entry now k c \<noteq> None, drop_expired now k c)"

definition cleanup_expired :: "instant \<Rightarrow> cache \<Rightarrow> nat \<times> cache" where
  "cleanup_expired now c =
     (let gone = filter (\<lambda>(k, e). case ca_expires e of None \<Rightarrow> False | Some t \<Rightarrow> t < now) (cache_store c)
      in (length gone, c\<lparr>cache_store := fold (\<lambda>(k, e). dict_del k) gone (cache_store c)\<rparr>))"

section \<open>Atomic operations\<close>

text \<open>\<open>int(s)\<close> on a string: surrounding white space, a sign, digits with single underscores between them.\<close>

definition is_digit :: "char \<Rightarrow> bool" where
  "is_digit c \<longleftrightarrow> 48 \<le> code c \<and> code c \<le> 57"

fun digit_groups :: "string \<Rightarrow> string option" where
  "digit_groups [] = None"
| "digit_groups [c] = (if is_digit c then Some [c] else None)"
| "digit_groups (c # d # s) =
     (if \<not> is_digit c then None
      else if d = CHR ''_'' then map_option ((#) c) (digit_groups s)
      else map_option ((#) c) (digit_groups (d # s)))"

definition py_int_of_str :: "string \<Rightarrow> int option" where
  "py_int_of_str s =
     (case py_strip s of
        [] \<Rightarrow> None
      | c # cs \<Rightarrow>
          if c = CHR ''-'' then map_option (\<lambda>d. - int (str_nat d)) (digit_groups cs)
          else if c = CHR ''+'' then map_option (\<lambda>d. int (str_nat d)) (digit_groups cs)
          else map_option (\<lambda>d. int (str_nat d)) (digit_groups (c # cs)))"

text \<open>\<open>int(v)\<close>; \<open>None\<close> is the exception.\<close>

fun py_int :: "pyval \<Rightarrow> int option" where
  "py_int (PInt n) = Some n"
| "py_int (PBool b) = Some (if b then 1 else 0)"
| "py_int (PFloat x) = Some (if 0 \<le> x then \<lfloor>x\<rfloor> else \<lceil>x\<rceil>)"
| "py_int (PStr s) = py_int_of_str s"
| "py_int _ = None"

definition cache_incr :: "instant \<Rightarrow> string \<Rightarrow> int \<Rightarrow> cache \<Rightarrow> int option \<times> cache" where
  "cache_incr now k amount c =
     (case live_entry now k c of
        None \<Rightarrow> (Some amount, put_entry now k (PInt amount) None c)
      | Some e \<Rightarrow>
          case py_int (ca_value e) of
            None \<Rightarrow> (None, c)
          | Some n \<Rightarrow> (Some (n + amount),
                       c\<lparr>cache_store := dict_set (make_key c k) (e\<lparr>ca_value := PInt (n + amount)\<rparr>) (cache_store c)\<rparr>))"

definition cache_decr :: "instant \<Rightarrow> string \<Rightarrow> int \<Rightarrow> cache \<Rightarrow> int option \<times> cache" where
  "cache_decr now k amount = cache_incr now k (- amount)"

definition cache_expire :: "instant \<Rightarrow> string \<Rightarrow> int \<Rightarrow> cache \<Rightarrow> bool \<times> cache" where
  "cache_expire now k ttl c =
     (case live_entry now k c of
        None \<Rightarrow> (False, c)
      | Some e \<Rightarrow> (True, c\<lparr>cache_store := dict_set (make_key c k) (e\<lparr>ca_expires := Some (now + ttl)\<rparr>) (cache_store c)\<rparr>))"

definition cache_ttl :: "instant \<Rightarrow> string \<Rightarrow> cache \<Rightarrow> int option \<times> cache" where
  "cache_ttl now k c =
     ((case live_entry now k c of
         None \<Rightarrow> Some (- 2)
       | Some e \<Rightarrow> map_option (\<lambda>t. max 0 ((t - now) div 1000000)) (ca_expires e)),
      drop_expired now k c)"

definition cache_setnx :: "instant \<Rightarrow> string \<Rightarrow> pyval \<Rightarrow> int option \<Rightarrow> cache \<Rightarrow> bool \<times> cache" where
  "cache_setnx now k v ttl c = (if live_entry now k c \<noteq> None then (False, c) else (True, put_entry now k v ttl c))"

text \<open>\<open>==\<close> on values: numbers compare by value whatever their type, a NaN equals nothing.\<close>

fun num_of :: "pyval \<Rightarrow> rat option" where
  "num_of (PInt n) = Some (of_int n)"
| "num_of (PBool b) = Some (if b then 1 else 0)"
| "num_of (PFloat x) = Some x"
| "num_of _ = None"

definition py_eq :: "pyval \<Rightarrow> pyval \<Rightarrow> bool" where
  "py_eq v w = (case (num_of v, num_of w) of (Some x, Some y) \<Rightarrow> x = y | _ \<Rightarrow> v = w \<and> v \<noteq> PNaN)"

fun dict_of :: "pyval \<Rightarrow> payload option" where
  "dict_of (PDict d) = Some d"
| "dict_of _ = None"

text \<open>\<open>d.get(f)\<close>, with \<open>None\<close> for a missing field.\<close>

definition field_of :: "payload \<Rightarrow> string \<Rightarrow> pyval" where
  "field_of d f = dict_get_or d f PNone"

definition cache_cas_dict_field ::
    "instant \<Rightarrow> string \<Rightarrow> string \<Rightarrow> pyval \<Rightarrow> payload \<Rightarrow> int option \<Rightarrow> cache \<Rightarrow> bool \<times> cache" where
  "cache_cas_dict_field now k f expected new ttl c =
     (case Option.bind (live_entry now k c) (dict_of \<circ> ca_value) of
        None \<Rightarrow> (False, c)
      | Some d \<Rightarrow> if \<not> py_eq (field_of d f) expected then (False, c) else (True, put_entry now k (PDict new) ttl c))"

text \<open>\<open>v < t\<close> for the start time of a claim; comparing a value that is no number raises, which no claim record does.\<close>

definition started_before :: "payload \<Rightarrow> instant \<Rightarrow> bool" where
  "started_before d t = (case num_of (dict_get_or d ''started_at'' (PInt 0)) of Some x \<Rightarrow> x < of_int t | None \<Rightarrow> False)"

definition cache_cas_takeover :: "instant \<Rightarrow> string \<Rightarrow> payload \<Rightarrow> instant \<Rightarrow> int option \<Rightarrow> cache \<Rightarrow> bool \<times> cache" where
  "cache_cas_takeover now k new stale_before ttl c =
     (case Option.bind (live_entry now k c) (dict_of \<circ> ca_value) of
        None \<Rightarrow> (False, c)
      | Some d \<Rightarrow>
          if field_of d ''status'' = PStr ''failed'' \<or> field_of d ''status'' = PStr ''executing'' \<and> started_before d stale_before
          then (True, put_entry now k (PDict new) ttl c)
          else (False, c))"

section \<open>Bulk and list operations\<close>

definition cache_mget :: "instant \<Rightarrow> string list \<Rightarrow> cache \<Rightarrow> (string, pyval) dict" where
  "cache_mget now ks c =
     fold (\<lambda>k r. case live_entry now k c of None \<Rightarrow> r | Some e \<Rightarrow> dict_set k (ca_value e) r) ks []"

definition cache_mset :: "instant \<Rightarrow> (string \<times> pyval) list \<Rightarrow> int option \<Rightarrow> cache \<Rightarrow> cache" where
  "cache_mset now kvs ttl c = fold (\<lambda>(k, v). put_entry now k v ttl) kvs c"

fun cache_mdelete :: "string list \<Rightarrow> cache \<Rightarrow> nat \<times> cache" where
  "cache_mdelete [] c = (0, c)"
| "cache_mdelete (k # ks) c =
     (let (ok, c1) = cache_delete k c; (n, c2) = cache_mdelete ks c1 in (if ok then n + 1 else n, c2))"

text \<open>\<open>xs[a:]\<close> and \<open>xs[a:b]\<close>; a negative bound counts from the end.\<close>

definition slice_pos :: "int \<Rightarrow> 'a list \<Rightarrow> nat" where
  "slice_pos a xs = (if a \<ge> 0 then nat a else nat (int (length xs) + a))"

definition slice_from :: "int \<Rightarrow> 'a list \<Rightarrow> 'a list" where
  "slice_from a xs = drop (slice_pos a xs) xs"

definition slice_between :: "int \<Rightarrow> int \<Rightarrow> 'a list \<Rightarrow> 'a list" where
  "slice_between a b xs = drop (slice_pos a xs) (take (slice_pos b xs) xs)"

fun list_of :: "pyval \<Rightarrow> pyval list option" where
  "list_of (PList xs) = Some xs"
| "list_of _ = None"

definition cache_push_limit :: "instant \<Rightarrow> string \<Rightarrow> pyval \<Rightarrow> int \<Rightarrow> int option \<Rightarrow> cache \<Rightarrow> nat \<times> cache" where
  "cache_push_limit now k v max_len ttl c =
     (let xs = (case Option.bind (live_entry now k c) (list_of \<circ> ca_value) of None \<Rightarrow> [] | Some xs \<Rightarrow> xs) @ [v];
          kept = (if int (length xs) > max_len then slice_from (- max_len) xs else xs)
      in (length xs, put_entry now k (PList kept) ttl c))"

definition cache_list_range :: "instant \<Rightarrow> string \<Rightarrow> int \<Rightarrow> int \<Rightarrow> cache \<Rightarrow> pyval list" where
  "cache_list_range now k a b c =
     (case Option.bind (live_entry now k c) (list_of \<circ> ca_value) of
        None \<Rightarrow> []
      | Some xs \<Rightarrow> if b = - 1 then slice_from a xs else slice_between a (b + 1) xs)"

section \<open>Named locks\<close>

text \<open>The registry holds the lock object that was acquired last; a lock is told apart by its owner id.\<close>

record cache_lock =
  lk_owner :: string
  lk_expires :: instant

type_synonym locks = "(string, cache_lock) dict"

definition lock_expired :: "instant \<Rightarrow> cache_lock \<Rightarrow> bool" where
  "lock_expired now l \<longleftrightarrow> now > lk_expires l"

text \<open>One turn of the loop of \<open>acquire\<close>, which a non-blocking attempt makes once.\<close>

definition lock_acquire :: "instant \<Rightarrow> string \<Rightarrow> string \<Rightarrow> int \<Rightarrow> locks \<Rightarrow> bool \<times> locks" where
  "lock_acquire now n owner timeout ls =
     (case dict_get ls n of
        Some l \<Rightarrow> if lock_expired now l then (True, dict_set n \<lparr>lk_owner = owner, lk_expires = now + timeout\<rparr> (dict_del n ls)) else (False, ls)
      | None \<Rightarrow> (True, dict_set n \<lparr>lk_owner = owner, lk_expires = now + timeout\<rparr> ls))"

definition lock_release :: "string \<Rightarrow> string \<Rightarrow> locks \<Rightarrow> locks" where
  "lock_release n owner ls =
     (case dict_get ls n of Some l \<Rightarrow> if lk_owner l = owner then dict_del n ls else ls | None \<Rightarrow> ls)"

definition lock_locked :: "instant \<Rightarrow> string \<Rightarrow> locks \<Rightarrow> bool \<times> locks" where
  "lock_locked now n ls =
     (case dict_get ls n of
        None \<Rightarrow> (False, ls)
      | Some l \<Rightarrow> if lock_expired now l then (False, dict_del n ls) else (True, ls))"

definition lock_owned :: "instant \<Rightarrow> string \<Rightarrow> string \<Rightarrow> locks \<Rightarrow> bool \<times> locks" where
  "lock_owned now n owner ls =
     (case dict_get ls n of
        None \<Rightarrow> (False, ls)
      | Some l \<Rightarrow> if lock_expired now l then (False, dict_del n ls) else (lk_owner l = owner, ls))"

definition lock_extend :: "instant \<Rightarrow> string \<Rightarrow> string \<Rightarrow> int \<Rightarrow> locks \<Rightarrow> bool \<times> locks" where
  "lock_extend now n owner d ls =
     (case dict_get ls n of
        None \<Rightarrow> (False, ls)
      | Some l \<Rightarrow> if lock_expired now l \<or> lk_owner l \<noteq> owner then (False, ls)
                  else (True, dict_set n (l\<lparr>lk_expires := now + d\<rparr>) ls))"

section \<open>Clearing\<close>

definition cache_flush_all :: "cache \<times> locks \<Rightarrow> cache \<times> locks" where
  "cache_flush_all s =
     (let c = fst s in (c\<lparr>cache_store := filter (\<lambda>(k, e). \<not> prefix (key_prefix c) k) (cache_store c)\<rparr>, []))"

definition cache_clear_all :: "cache \<times> locks \<Rightarrow> cache \<times> locks" where
  "cache_clear_all s = ((fst s)\<lparr>cache_store := []\<rparr>, [])"

section \<open>Facts\<close>

lemma live_put [simp]: "live_entry now k (put_entry t k' v ttl c) =
    (if k = k' then (let e = \<lparr>ca_value = v, ca_expires = expires_after t ttl\<rparr> in if entry_expired now e then None else Some e)
     else live_entry now k c)"
  by (auto simp: live_entry_def put_entry_def make_key_def dict_simps Let_def)

lemma live_drop [simp]: "live_entry now k (drop_expired now k' c) = live_entry now k c"
  by (auto simp: live_entry_def drop_expired_def make_key_def dict_simps split: option.splits)

end
