(* ===== verification/Idempotency_Gate.thy ===== *)
theory Idempotency_Gate
  imports Memory_Cache
begin

text \<open>
  The idempotency gate (\<open>core/idempotency_gate.py\<close>) over the in-memory cache.  A check makes up to three
  atomic cache operations, and other processes run between them: \<open>gate_next\<close> is one operation, and
  \<open>check_and_acquire\<close> the whole check when nothing runs in between.  The clock a process reads may be ahead
  of or behind the cache's clock.
\<close>

section \<open>Records\<close>

datatype idempotency_decision = CONTINUE | SKIP | ABORT

record check_result =
  ck_decision :: idempotency_decision
  ck_cached_result :: "pyval option"
  ck_retry_count :: pyval
  ck_claim_id :: "string option"

definition verdict :: "idempotency_decision \<Rightarrow> check_result" where
  "verdict d = \<lparr>ck_decision = d, ck_cached_result = None, ck_retry_count = PInt 0, ck_claim_id = None\<rparr>"

record gate =
  gt_execution_ttl :: int
  gt_memory_ttl :: int
  gt_skew_tolerance :: int

definition IDEMPOTENCY_DEFAULT_TTL_SECONDS :: int where
  "IDEMPOTENCY_DEFAULT_TTL_SECONDS = 1800"

definition executing_record :: "instant \<Rightarrow> pyval \<Rightarrow> string \<Rightarrow> payload" where
  "executing_record t n claim =
     [(''status'', PStr ''executing''), (''started_at'', PInt t), (''retry_count'', n), (''claim_id'', PStr claim)]"

definition completed_record :: "instant \<Rightarrow> pyval \<Rightarrow> pyval \<Rightarrow> payload" where
  "completed_record t r n =
     [(''status'', PStr ''completed''), (''completed_at'', PInt t), (''result'', r), (''retry_count'', n)]"

definition failed_record :: "instant \<Rightarrow> string \<Rightarrow> pyval \<Rightarrow> payload" where
  "failed_record t err n =
     [(''status'', PStr ''failed''), (''failed_at'', PInt t), (''error'', PStr err), (''retry_count'', n)]"

section \<open>The check\<close>

definition stale_before :: "gate \<Rightarrow> instant \<Rightarrow> int \<Rightarrow> instant" where
  "stale_before g t ttl = t - ttl - gt_skew_tolerance g"

text \<open>\<open>existing.get("retry_count", 0) + 1\<close> on the counts the gate writes.\<close>

definition next_retry :: "payload \<Rightarrow> pyval" where
  "next_retry d = PInt ((case py_int (dict_get_or d ''retry_count'' (PInt 0)) of Some n \<Rightarrow> n | None \<Rightarrow> 0) + 1)"

text \<open>
  Where a check stands: before its first \<open>setnx\<close>; after it failed; after the read found nothing; about to
  take a record over, with the count and the threshold it will use; done.
\<close>

datatype check_phase =
    Begin
  | Exists
  | Vanished
  | Taking pyval instant
  | Decided check_result

text \<open>What a check does with the record it read.\<close>

definition judge_record :: "gate \<Rightarrow> instant \<Rightarrow> int \<Rightarrow> pyval \<Rightarrow> check_phase" where
  "judge_record g t ttl v =
     (case dict_of v of
        None \<Rightarrow> Decided (verdict ABORT)
      | Some d \<Rightarrow>
          let st = dict_get_or d ''status'' (PStr [])
          in if st = PStr ''completed''
             then Decided \<lparr>ck_decision = SKIP, ck_cached_result = dict_get d ''result'',
                           ck_retry_count = dict_get_or d ''retry_count'' (PInt 0), ck_claim_id = None\<rparr>
             else if st = PStr ''failed'' then Taking (next_retry d) (stale_before g t ttl)
             else if st = PStr ''executing''
             then if started_before d (stale_before g t ttl) then Taking (next_retry d) (stale_before g t ttl)
                  else Decided (verdict ABORT)
             else Decided (verdict ABORT))"

text \<open>
  The next cache operation of a check: \<open>t\<close> is what the process read from its clock when it began, \<open>t'\<close>
  what it reads now, \<open>now\<close> the cache's clock.
\<close>

definition won :: "pyval \<Rightarrow> string \<Rightarrow> check_phase" where
  "won n claim = Decided \<lparr>ck_decision = CONTINUE, ck_cached_result = None, ck_retry_count = n, ck_claim_id = Some claim\<rparr>"

fun gate_next ::
    "gate \<Rightarrow> instant \<Rightarrow> instant \<Rightarrow> instant \<Rightarrow> string \<Rightarrow> int \<Rightarrow> string \<Rightarrow> check_phase \<Rightarrow> cache \<Rightarrow> check_phase \<times> cache" where
  "gate_next g now t t' key ttl claim Begin c =
     (case cache_setnx now key (PDict (executing_record t (PInt 0) claim)) (Some ttl) c of
        (True, c1) \<Rightarrow> (won (PInt 0) claim, c1)
      | (False, c1) \<Rightarrow> (Exists, c1))"
| "gate_next g now t t' key ttl claim Exists c =
     (case cache_get now key c of
        (None, c1) \<Rightarrow> (Vanished, c1)
      | (Some v, c1) \<Rightarrow> (judge_record g t' ttl v, c1))"
| "gate_next g now t t' key ttl claim Vanished c =
     (case cache_setnx now key (PDict (executing_record t (PInt 0) claim)) (Some ttl) c of
        (True, c1) \<Rightarrow> (won (PInt 0) claim, c1)
      | (False, c1) \<Rightarrow> (Decided (verdict ABORT), c1))"
| "gate_next g now t t' key ttl claim (Taking n sb) c =
     (case cache_cas_takeover now key (executing_record t n claim) sb (Some ttl) c of
        (True, c1) \<Rightarrow> (won n claim, c1)
      | (False, c1) \<Rightarrow> (Decided (verdict ABORT), c1))"
| "gate_next g now t t' key ttl claim (Decided r) c = (Decided r, c)"

fun gate_steps ::
    "nat \<Rightarrow> gate \<Rightarrow> instant \<Rightarrow> string \<Rightarrow> int \<Rightarrow> string \<Rightarrow> check_phase \<Rightarrow> cache \<Rightarrow> check_phase \<times> cache" where
  "gate_steps 0 g now key ttl claim ph c = (ph, c)"
| "gate_steps (Suc n) g now key ttl claim ph c =
     (let (ph1, c1) = gate_next g now now now key ttl claim ph c in gate_steps n g now key ttl claim ph1 c1)"

text \<open>Three operations at most; a gate without a cache lets everything through.\<close>

definition check_and_acquire :: "gate \<Rightarrow> instant \<Rightarrow> string \<Rightarrow> int option \<Rightarrow> string \<Rightarrow> cache option \<Rightarrow> check_result \<times> cache option" where
  "check_and_acquire g now key ttl claim oc =
     (case oc of
        None \<Rightarrow> (verdict CONTINUE, None)
      | Some c \<Rightarrow>
          let eff = (case ttl of None \<Rightarrow> gt_execution_ttl g | Some d \<Rightarrow> if d = 0 then gt_execution_ttl g else d)
          in case gate_steps 3 g now key eff claim Begin c of
               (Decided r, c1) \<Rightarrow> (r, Some c1)
             | (_, c1) \<Rightarrow> (verdict ABORT, Some c1))"

section \<open>The marks\<close>

definition mark_guard :: "string option \<Rightarrow> string \<times> pyval" where
  "mark_guard claim = (case claim of Some cl \<Rightarrow> (''claim_id'', PStr cl) | None \<Rightarrow> (''status'', PStr ''executing''))"

definition memory_ttl :: "gate \<Rightarrow> int option \<Rightarrow> int" where
  "memory_ttl g ttl = (case ttl of None \<Rightarrow> gt_memory_ttl g | Some d \<Rightarrow> if d = 0 then gt_memory_ttl g else d)"

definition mark_completed ::
    "gate \<Rightarrow> instant \<Rightarrow> string \<Rightarrow> payload option \<Rightarrow> pyval \<Rightarrow> int option \<Rightarrow> string option \<Rightarrow> cache \<Rightarrow> bool \<times> cache" where
  "mark_completed g now key r n ttl claim c =
     cache_cas_dict_field now key (fst (mark_guard claim)) (snd (mark_guard claim))
       (completed_record now (PDict (case r of None \<Rightarrow> [] | Some d \<Rightarrow> d)) n) (Some (memory_ttl g ttl)) c"

definition mark_failed ::
    "gate \<Rightarrow> instant \<Rightarrow> string \<Rightarrow> string \<Rightarrow> pyval \<Rightarrow> int option \<Rightarrow> string option \<Rightarrow> cache \<Rightarrow> bool \<times> cache" where
  "mark_failed g now key err n ttl claim c =
     cache_cas_dict_field now key (fst (mark_guard claim)) (snd (mark_guard claim))
       (failed_record now err n) (Some (memory_ttl g ttl)) c"

definition gate_release :: "string \<Rightarrow> cache \<Rightarrow> cache" where
  "gate_release key c = snd (cache_delete key c)"

section \<open>A check decides\<close>

text \<open>A gate to run the examples on.\<close>

definition sample_gate :: gate where
  "sample_gate = \<lparr>gt_execution_ttl = 10, gt_memory_ttl = 20, gt_skew_tolerance = 1\<rparr>"

fun phase_rank :: "check_phase \<Rightarrow> nat" where
  "phase_rank Begin = 3"
| "phase_rank Exists = 2"
| "phase_rank Vanished = 1"
| "phase_rank (Taking _ _) = 1"
| "phase_rank (Decided _) = 0"

lemma judge_rank: "phase_rank (judge_record g t ttl v) \<le> 1"
  by (simp add: judge_record_def Let_def split: option.splits)

lemma gate_next_rank: "phase_rank (fst (gate_next g now t t' key ttl claim ph c)) \<le> phase_rank ph - 1"
  using judge_rank by (cases ph) (auto simp: won_def cache_get_def split: prod.splits bool.splits option.splits)

text \<open>The operations of one check, with what the other processes leave in the cache before each of them.\<close>

fun interfered :: "gate \<Rightarrow> string \<Rightarrow> int \<Rightarrow> string \<Rightarrow> instant \<Rightarrow> (instant \<times> instant \<times> cache) list \<Rightarrow> check_phase \<Rightarrow> check_phase" where
  "interfered g key ttl claim t [] ph = ph"
| "interfered g key ttl claim t ((now, t', c) # xs) ph =
     interfered g key ttl claim t xs (fst (gate_next g now t t' key ttl claim ph c))"

lemma interfered_rank: "phase_rank (interfered g key ttl claim t xs ph) \<le> phase_rank ph - length xs"
proof (induction xs arbitrary: ph)
  case (Cons x xs)
  obtain now t' c where x: "x = (now, t', c)" by (cases x) auto
  show ?case
    using Cons.IH [of "fst (gate_next g now t t' key ttl claim ph c)"] gate_next_rank [of g now t t' key ttl claim ph c]
    by (simp add: x)
qed simp



section \<open>What completed stays completed\<close>

lemma live_mono: "live_entry t k c = Some e \<Longrightarrow> (case ca_expires e of None \<Rightarrow> True | Some x \<Rightarrow> now \<le> x) \<Longrightarrow> live_entry now k c = Some e"
  by (auto simp: live_entry_def entry_expired_def split: option.splits if_splits)

lemma check_completed:
  assumes "live_entry now key c = Some e" and "ca_value e = PDict (completed_record T r n)"
  shows "check_and_acquire g now key ttl claim (Some c) =
      (\<lparr>ck_decision = SKIP, ck_cached_result = Some r, ck_retry_count = n, ck_claim_id = None\<rparr>, Some c)"
proof -
  have "drop_expired now key c = c"
    using assms(1) by (auto simp: drop_expired_def live_entry_def split: option.splits if_splits)
  moreover have "judge_record g t d (PDict (completed_record T r n)) =
      Decided \<lparr>ck_decision = SKIP, ck_cached_result = Some r, ck_retry_count = n, ck_claim_id = None\<rparr>" for t d
    by (simp add: judge_record_def completed_record_def Let_def dict_get_or_def)
  ultimately show ?thesis
    using assms by (simp add: check_and_acquire_def numeral_3_eq_3 cache_setnx_def cache_get_def Let_def)
qed

text \<open>(C28) Work that was marked completed is not run again: for as long as the memory window lasts every check of
  the key is told to skip, gets the stored result, and leaves the record as it is.\<close>

theorem completed_is_skipped:
  assumes "mark_completed g T key r n mttl claim c = (True, c')" and "now \<le> T + memory_ttl g mttl"
  shows "check_and_acquire g now key ttl claim' (Some c') =
      (\<lparr>ck_decision = SKIP, ck_cached_result = Some (PDict (case r of None \<Rightarrow> [] | Some d \<Rightarrow> d)), ck_retry_count = n, ck_claim_id = None\<rparr>, Some c')"
proof -
  let ?rec = "completed_record T (PDict (case r of None \<Rightarrow> [] | Some d \<Rightarrow> d)) n"
  have "c' = put_entry T key (PDict ?rec) (Some (memory_ttl g mttl)) c"
    using assms(1) by (auto simp: mark_completed_def cache_cas_dict_field_def split: option.splits if_splits)
  then have "live_entry now key c' = Some \<lparr>ca_value = PDict ?rec, ca_expires = Some (T + memory_ttl g mttl)\<rparr>"
    using assms(2) by (simp add: entry_expired_def expires_after_def)
  from check_completed [OF this] show ?thesis by simp
qed

theorem completed_is_skipped_witness:
  "\<exists>c c'. check_and_acquire sample_gate 0 ''k'' None ''a'' (Some (empty_cache [])) = (verdict CONTINUE\<lparr>ck_claim_id := Some ''a''\<rparr>, Some c)
     \<and> mark_completed sample_gate 3 ''k'' None (PInt 0) None (Some ''a'') c = (True, c')
     \<and> ck_decision (fst (check_and_acquire sample_gate 23 ''k'' None ''b'' (Some c'))) = SKIP"
proof -
  define c where "c = the (snd (check_and_acquire sample_gate 0 ''k'' None ''a'' (Some (empty_cache []))))"
  define c' where "c' = snd (mark_completed sample_gate 3 ''k'' None (PInt 0) None (Some ''a'') c)"
  have "check_and_acquire sample_gate 0 ''k'' None ''a'' (Some (empty_cache [])) = (verdict CONTINUE\<lparr>ck_claim_id := Some ''a''\<rparr>, Some c)"
    unfolding c_def by code_simp
  moreover have "fst (mark_completed sample_gate 3 ''k'' None (PInt 0) None (Some ''a'') c)"
    unfolding c_def by code_simp
  then have m: "mark_completed sample_gate 3 ''k'' None (PInt 0) None (Some ''a'') c = (True, c')"
    by (simp add: c'_def prod_eq_iff)
  moreover have "(23::int) \<le> 3 + memory_ttl sample_gate None" by (simp add: memory_ttl_def sample_gate_def)
  with completed_is_skipped [OF m, of 23 None "''b''"]
  have "ck_decision (fst (check_and_acquire sample_gate 23 ''k'' None ''b'' (Some c'))) = SKIP" by simp
  ultimately show ?thesis by blast
qed

section \<open>One claim at a time\<close>

text \<open>
  Processes that use the gate for one key.  A process is named by its claim id.  It reads a clock that
  is \<open>skew p\<close> ahead of the cache's; it begins a check, makes the operations of the check one by one, runs
  once it was told to continue, and ends with a mark that carries its claim id, or dies.  The rest of
  the system uses other keys.
\<close>

record gate_sys =
  sy_now :: instant
  sy_cache :: cache
  sy_checks :: "string \<Rightarrow> (instant \<times> check_phase) option"
  sy_running :: "string \<Rightarrow> instant option"

definition is_continue :: "check_phase \<Rightarrow> bool" where
  "is_continue ph = (case ph of Decided r \<Rightarrow> ck_decision r = CONTINUE | _ \<Rightarrow> False)"

inductive gate_step :: "gate \<Rightarrow> (string \<Rightarrow> int) \<Rightarrow> string \<Rightarrow> int \<Rightarrow> gate_sys \<Rightarrow> gate_sys \<Rightarrow> bool" for g skew key ttl where
  tick: "0 \<le> d \<Longrightarrow> gate_step g skew key ttl s (s\<lparr>sy_now := sy_now s + d\<rparr>)"
| begin_check: "sy_checks s p = None \<Longrightarrow>
    gate_step g skew key ttl s (s\<lparr>sy_checks := (sy_checks s)(p \<mapsto> (sy_now s, Begin))\<rparr>)"
| operate: "sy_checks s p = Some (b, ph) \<Longrightarrow> phase_rank ph > 0 \<Longrightarrow>
    gate_next g (sy_now s) (b + skew p) (sy_now s + skew p) key ttl p ph (sy_cache s) = (ph', c') \<Longrightarrow>
    gate_step g skew key ttl s
      (s\<lparr>sy_cache := c', sy_checks := (sy_checks s)(p \<mapsto> (b, ph')),
         sy_running := (if is_continue ph' then (sy_running s)(p \<mapsto> b) else sy_running s)\<rparr>)"
| complete: "sy_running s p = Some b \<Longrightarrow>
    gate_step g skew key ttl s (s\<lparr>sy_cache := snd (mark_completed g (sy_now s) key r n mttl (Some p) (sy_cache s)), sy_running := (sy_running s)(p := None)\<rparr>)"
| fail: "sy_running s p = Some b \<Longrightarrow>
    gate_step g skew key ttl s (s\<lparr>sy_cache := snd (mark_failed g (sy_now s) key err n mttl (Some p) (sy_cache s)), sy_running := (sy_running s)(p := None)\<rparr>)"
| die: "gate_step g skew key ttl s (s\<lparr>sy_running := (sy_running s)(p := None)\<rparr>)"
| elsewhere: "(\<And>t. live_entry t key c' = live_entry t key (sy_cache s)) \<Longrightarrow>
    gate_step g skew key ttl s (s\<lparr>sy_cache := c'\<rparr>)"

definition gate_start :: "instant \<Rightarrow> cache \<Rightarrow> gate_sys" where
  "gate_start now c = \<lparr>sy_now = now, sy_cache = c, sy_checks = (\<lambda>_. None), sy_running = (\<lambda>_. None)\<rparr>"

definition owns :: "string \<Rightarrow> int \<Rightarrow> (string \<Rightarrow> int) \<Rightarrow> gate_sys \<Rightarrow> string \<Rightarrow> instant \<Rightarrow> bool" where
  "owns key ttl skew s p b \<longleftrightarrow> (\<exists>n x. live_entry (sy_now s) key (sy_cache s) =
       Some \<lparr>ca_value = PDict (executing_record (b + skew p) n p), ca_expires = Some x\<rparr> \<and> b + ttl \<le> x)"

lemma record_fields [simp]:
  "field_of (executing_record t n p) ''status'' = PStr ''executing''"
  "field_of (executing_record t n p) ''claim_id'' = PStr p"
  "started_before (executing_record t n p) sb \<longleftrightarrow> t < sb"
  by (simp_all add: field_of_def executing_record_def dict_get_or_def started_before_def)

lemma py_eq_str [simp]: "py_eq (PStr a) (PStr b) \<longleftrightarrow> a = b"
  by (simp add: py_eq_def)

text \<open>An operation that wins leaves the process the owner, and no other owner was within its window.\<close>

lemma setnx_owner:
  assumes "cache_setnx (sy_now s) key (PDict (executing_record (b + skew p) n p)) (Some ttl) (sy_cache s) = (True, c')"
    and "b \<le> sy_now s" and "0 \<le> ttl"
  shows "owns key ttl skew (s\<lparr>sy_cache := c', sy_checks := f, sy_running := h\<rparr>) p b" and "\<not> owns key ttl skew s q b'"
  using assms by (auto simp: cache_setnx_def owns_def entry_expired_def expires_after_def split: if_splits)

lemma takeover_owner:
  assumes "cache_cas_takeover (sy_now s) key (executing_record (b + skew p) n p) sb (Some ttl) (sy_cache s) = (True, c')"
    and "b \<le> sy_now s" and "0 \<le> ttl"
  shows "owns key ttl skew (s\<lparr>sy_cache := c', sy_checks := f, sy_running := h\<rparr>) p b"
    and "sb \<le> sy_now s + skew p - ttl - tol \<Longrightarrow> skew p - skew q \<le> tol \<Longrightarrow> sy_now s \<le> b' + ttl \<Longrightarrow> \<not> owns key ttl skew s q b'"
  using assms by (auto simp: cache_cas_takeover_def owns_def entry_expired_def expires_after_def split: option.splits if_splits)

lemma mark_owner:
  assumes "cache_cas_dict_field now key ''claim_id'' (PStr p) new mttl (sy_cache s) = (ok, c')"
    and "owns key ttl skew s q b" and "q \<noteq> p" and "now = sy_now s"
  shows "c' = sy_cache s"
  using assms by (auto simp: cache_cas_dict_field_def owns_def split: option.splits if_splits)

lemma owns_frame: "sy_now s' = sy_now s \<Longrightarrow> sy_cache s' = sy_cache s \<Longrightarrow> owns key ttl skew s' p b = owns key ttl skew s p b"
  by (simp add: owns_def)


definition gate_inv :: "gate \<Rightarrow> (string \<Rightarrow> int) \<Rightarrow> string \<Rightarrow> int \<Rightarrow> gate_sys \<Rightarrow> bool" where
  "gate_inv g skew key ttl s \<longleftrightarrow>
     (\<forall>p b. sy_running s p = Some b \<longrightarrow> b \<le> sy_now s \<and> (sy_now s \<le> b + ttl \<longrightarrow> owns key ttl skew s p b))
     \<and> (\<forall>p. sy_checks s p = None \<longrightarrow> sy_running s p = None)
     \<and> (\<forall>p b ph. sy_checks s p = Some (b, ph) \<longrightarrow> b \<le> sy_now s
          \<and> (phase_rank ph > 0 \<longrightarrow> sy_running s p = None)
          \<and> (\<forall>n sb. ph = Taking n sb \<longrightarrow> sb \<le> sy_now s + skew p - ttl - gt_skew_tolerance g))"

lemma gate_invD:
  assumes "gate_inv g skew key ttl s"
  shows "sy_running s p = Some b \<Longrightarrow> b \<le> sy_now s"
    and "sy_running s p = Some b \<Longrightarrow> sy_now s \<le> b + ttl \<Longrightarrow> owns key ttl skew s p b"
    and "sy_checks s p = None \<Longrightarrow> sy_running s p = None"
    and "sy_checks s p = Some (b, ph) \<Longrightarrow> b \<le> sy_now s"
    and "sy_checks s p = Some (b, ph) \<Longrightarrow> phase_rank ph > 0 \<Longrightarrow> sy_running s p = None"
    and "sy_checks s p = Some (b, Taking n sb) \<Longrightarrow> sb \<le> sy_now s + skew p - ttl - gt_skew_tolerance g"
  using assms by (auto simp: gate_inv_def)

lemma gate_invI:
  assumes "\<And>p b. sy_running s p = Some b \<Longrightarrow> b \<le> sy_now s"
    and "\<And>p b. sy_running s p = Some b \<Longrightarrow> sy_now s \<le> b + ttl \<Longrightarrow> owns key ttl skew s p b"
    and "\<And>p. sy_checks s p = None \<Longrightarrow> sy_running s p = None"
    and "\<And>p b ph. sy_checks s p = Some (b, ph) \<Longrightarrow> b \<le> sy_now s"
    and "\<And>p b ph. sy_checks s p = Some (b, ph) \<Longrightarrow> phase_rank ph > 0 \<Longrightarrow> sy_running s p = None"
    and "\<And>p b n sb. sy_checks s p = Some (b, Taking n sb) \<Longrightarrow> sb \<le> sy_now s + skew p - ttl - gt_skew_tolerance g"
  shows "gate_inv g skew key ttl s"
  using assms unfolding gate_inv_def by blast

lemma is_continue_simps [simp]:
  "\<not> is_continue Begin" "\<not> is_continue Exists" "\<not> is_continue Vanished" "\<not> is_continue (Taking n sb)"
  "\<not> is_continue (Decided (verdict ABORT))" "is_continue (won n p)" "\<not> is_continue (judge_record g t ttl v)"
  by (auto simp: judge_record_def is_continue_def verdict_def won_def Let_def split: option.splits if_splits)

lemma judge_taking: "judge_record g t ttl v = Taking n sb \<Longrightarrow> sb = stale_before g t ttl"
  by (auto simp: judge_record_def Let_def split: option.splits if_splits)

lemma won_not_taking [simp]: "won n p \<noteq> Taking m sb" "Taking m sb \<noteq> won n p"
  by (simp_all add: won_def)

text \<open>What one operation does, by the phase it is made in.\<close>

lemma gate_next_wins:
  assumes "gate_next g now t t' key ttl p ph c = (ph', c')" and "is_continue ph'" and "phase_rank ph > 0"
  shows "(\<exists>n. cache_setnx now key (PDict (executing_record t n p)) (Some ttl) c = (True, c'))
    \<or> (\<exists>n sb. ph = Taking n sb \<and> cache_cas_takeover now key (executing_record t n p) sb (Some ttl) c = (True, c'))"
  using assms by (cases ph) (auto split: prod.splits bool.splits option.splits)

lemma gate_next_loses:
  assumes "gate_next g now t t' key ttl p ph c = (ph', c')" and "\<not> is_continue ph'" and "phase_rank ph > 0"
  shows "live_entry now key c' = live_entry now key c \<and> (\<forall>n sb. ph' = Taking n sb \<longrightarrow> sb = stale_before g t' ttl)"
proof (cases ph)
  case Begin
  then show ?thesis using assms by (auto simp: cache_setnx_def split: if_splits)
next
  case Exists
  then show ?thesis using assms by (auto simp: cache_get_def judge_taking split: option.splits)
next
  case Vanished
  then show ?thesis using assms by (auto simp: cache_setnx_def split: if_splits)
next
  case (Taking n sb)
  then show ?thesis using assms by (auto simp: cache_cas_takeover_def split: option.splits if_splits)
next
  case (Decided r)
  then show ?thesis using assms(3) by simp
qed

text \<open>An operation that does not win: the record stays, and the check has moved on.\<close>

lemma inv_lose:
  assumes "gate_inv g skew key ttl s" and "sy_checks s p = Some (b, ph)"
    and "\<And>t. live_entry (sy_now s) key c' = live_entry (sy_now s) key (sy_cache s)"
    and "\<And>n sb. ph' = Taking n sb \<Longrightarrow> sb \<le> sy_now s + skew p - ttl - gt_skew_tolerance g"
    and "sy_running s p = None"
  shows "gate_inv g skew key ttl (s\<lparr>sy_cache := c', sy_checks := (sy_checks s)(p \<mapsto> (b, ph'))\<rparr>)"
  using assms unfolding gate_inv_def owns_def by auto

lemma inv_win:
  assumes "gate_inv g skew key ttl s" and "sy_checks s p = Some (b, ph)"
    and "\<And>f h. owns key ttl skew (s\<lparr>sy_cache := c', sy_checks := f, sy_running := h\<rparr>) p b"
    and "\<And>q b'. sy_running s q = Some b' \<Longrightarrow> sy_now s \<le> b' + ttl \<Longrightarrow> \<not> owns key ttl skew s q b'"
  shows "gate_inv g skew key ttl (s\<lparr>sy_cache := c', sy_checks := (sy_checks s)(p \<mapsto> (b, Decided r)), sy_running := (sy_running s)(p \<mapsto> b)\<rparr>)"
  using assms gate_invD(2) [OF assms(1)] unfolding gate_inv_def by (auto split: if_splits)

lemma inv_mark:
  assumes "gate_inv g skew key ttl s"
    and "\<And>q b. owns key ttl skew s q b \<Longrightarrow> q \<noteq> p \<Longrightarrow> c' = sy_cache s"
  shows "gate_inv g skew key ttl (s\<lparr>sy_cache := c', sy_running := (sy_running s)(p := None)\<rparr>)"
proof -
  have "owns key ttl skew (s\<lparr>sy_cache := c', sy_running := (sy_running s)(p := None)\<rparr>) q b"
    if "owns key ttl skew s q b" "q \<noteq> p" for q b
    using that assms(2) [OF that] by (simp add: owns_def)
  then show ?thesis using assms(1) unfolding gate_inv_def by auto
qed

lemma gate_inv_step:
  assumes "gate_step g skew key ttl s s'" and "gate_inv g skew key ttl s" and "0 \<le> ttl" and "\<And>p q. skew p - skew q \<le> gt_skew_tolerance g"
  shows "gate_inv g skew key ttl s'"
  using assms(1)
proof cases
  case (tick d)
  have "owns key ttl skew s' p b" if "owns key ttl skew s p b" "sy_now s + d \<le> b + ttl" for p b
  proof -
    obtain n x where e: "live_entry (sy_now s) key (sy_cache s) =
       Some \<lparr>ca_value = PDict (executing_record (b + skew p) n p), ca_expires = Some x\<rparr>" "b + ttl \<le> x"
      using \<open>owns key ttl skew s p b\<close> unfolding owns_def by blast
    from live_mono [OF e(1), of "sy_now s + d"] e(2) \<open>sy_now s + d \<le> b + ttl\<close> show ?thesis
      unfolding owns_def tick(1) by auto
  qed
  note later = this
  show ?thesis
  proof (rule gate_invI)
    fix p b assume r: "sy_running s' p = Some b"
    show "b \<le> sy_now s'" using gate_invD(1) [OF assms(2), of p b] r tick by simp
    assume "sy_now s' \<le> b + ttl"
    then show "owns key ttl skew s' p b" using later gate_invD(2) [OF assms(2), of p b] r tick by simp
  next
    fix p b n sb assume "sy_checks s' p = Some (b, Taking n sb)"
    then show "sb \<le> sy_now s' + skew p - ttl - gt_skew_tolerance g"
      using gate_invD(6) [OF assms(2), of p b n sb] tick by simp
  next
    fix p b ph assume c: "sy_checks s' p = Some (b, ph)"
    then show "b \<le> sy_now s'" using gate_invD(4) [OF assms(2), of p b ph] tick by simp
    show "phase_rank ph > 0 \<Longrightarrow> sy_running s' p = None" using gate_invD(5) [OF assms(2), of p b ph] c tick by simp
  qed (use gate_invD(3) [OF assms(2)] tick in simp)
next
  case (begin_check p)
  then show ?thesis using assms(2) unfolding gate_inv_def by (auto simp: owns_def)
next
  case (operate p b ph ph' c')
  have r: "sy_running s p = None" using gate_invD(5) [OF assms(2) operate(2,3)] .
  have b: "b \<le> sy_now s" using gate_invD(4) [OF assms(2) operate(2)] .
  show ?thesis
  proof (cases "is_continue ph'")
    case True
    then obtain r' where r': "ph' = Decided r'" by (auto simp: is_continue_def split: check_phase.splits)
    have sb: "sb \<le> sy_now s + skew p - ttl - gt_skew_tolerance g" if "ph = Taking n sb" for n sb
      using gate_invD(6) [OF assms(2)] operate(2) that by blast
    have "owns key ttl skew (s\<lparr>sy_cache := c', sy_checks := f, sy_running := h\<rparr>) p b
        \<and> (sy_now s \<le> b' + ttl \<longrightarrow> \<not> owns key ttl skew s q b')" for f h q b'
      using gate_next_wins [OF operate(4) True operate(3)]
    proof (elim disjE exE conjE)
      fix n assume n: "cache_setnx (sy_now s) key (PDict (executing_record (b + skew p) n p)) (Some ttl) (sy_cache s) = (True, c')"
      show ?thesis using setnx_owner [where skew = skew, OF n b assms(3)] by simp
    next
      fix n sb assume n: "ph = Taking n sb" "cache_cas_takeover (sy_now s) key (executing_record (b + skew p) n p) sb (Some ttl) (sy_cache s) = (True, c')"
      show ?thesis using takeover_owner(1) [where skew = skew, OF n(2) b assms(3)] takeover_owner(2) [where skew = skew, OF n(2) b assms(3) sb [OF n(1)] assms(4)] by simp
    qed
    then have own: "owns key ttl skew (s\<lparr>sy_cache := c', sy_checks := f, sy_running := h\<rparr>) p b"
      and others: "sy_now s \<le> b' + ttl \<Longrightarrow> \<not> owns key ttl skew s q b'" for f h q b' by blast+
    show ?thesis using inv_win [OF assms(2) operate(2) own others, of r'] True unfolding operate(1) r' by simp
  next
    case False
    note lost = gate_next_loses [OF operate(4) False operate(3)]
    have live: "live_entry (sy_now s) key c' = live_entry (sy_now s) key (sy_cache s)" using lost ..
    have sb: "\<And>n sb. ph' = Taking n sb \<Longrightarrow> sb \<le> sy_now s + skew p - ttl - gt_skew_tolerance g"
      using lost by (auto simp: stale_before_def)
    show ?thesis using inv_lose [OF assms(2) operate(2) live sb r] False unfolding operate(1) by simp
  qed
next
  case (complete p b r n mttl)
  show ?thesis
    unfolding complete(1) mark_completed_def mark_guard_def option.case fst_conv snd_conv
    by (rule inv_mark [OF assms(2)]) (metis mark_owner prod.collapse)
next
  case (fail p b err n mttl)
  show ?thesis
    unfolding fail(1) mark_failed_def mark_guard_def option.case fst_conv snd_conv
    by (rule inv_mark [OF assms(2)]) (metis mark_owner prod.collapse)
next
  case (die p)
  then show ?thesis using assms(2) unfolding gate_inv_def by (auto simp: owns_def)
next
  case (elsewhere c')
  then show ?thesis using assms(2) unfolding gate_inv_def by (auto simp: owns_def)
qed

text \<open>(C27) At most one claim on a key is running within its execution window, whatever way the checks, marks and
  deaths of the processes interleave and however their clocks differ, as long as they differ by no more
  than the tolerance and every mark carries its claim id.\<close>

theorem one_running_claim:
  assumes "(gate_step g skew key ttl)\<^sup>*\<^sup>* (gate_start t0 c) s" and "0 \<le> ttl" and "\<And>p q. skew p - skew q \<le> gt_skew_tolerance g"
    and "sy_running s p = Some b" and "sy_now s \<le> b + ttl" and "sy_running s q = Some b'" and "sy_now s \<le> b' + ttl"
  shows "p = q"
proof -
  have "gate_inv g skew key ttl s"
    using assms(1)
  proof (induction rule: rtranclp_induct)
    case base
    show ?case by (rule gate_invI) (simp_all add: gate_start_def)
  next
    case (step y z)
    show ?case by (rule gate_inv_step [OF step(2,3) assms(2,3)])
  qed
  note owner = gate_invD(2) [OF this]
  have "owns key ttl skew s p b" using assms(4,5) by (rule owner)
  moreover have "owns key ttl skew s q b'" using assms(6,7) by (rule owner)
  ultimately show ?thesis by (auto simp: owns_def executing_record_def)
qed

theorem one_running_claim_witness:
  "\<exists>s. (gate_step sample_gate (\<lambda>_. 0) ''k'' 10)\<^sup>*\<^sup>* (gate_start 0 (empty_cache [])) s
     \<and> sy_running s ''a'' = Some 0 \<and> sy_now s \<le> 0 + 10 \<and> sy_running s ''b'' \<noteq> Some 0"
proof -
  define s0 where "s0 = gate_start 0 (empty_cache [])"
  define s1 where "s1 = s0\<lparr>sy_checks := (sy_checks s0)(''a'' \<mapsto> (sy_now s0, Begin))\<rparr>"
  obtain c' where c': "gate_next sample_gate 0 (0 + 0) (0 + 0) ''k'' 10 ''a'' Begin (empty_cache []) = (won (PInt 0) ''a'', c')"
    by (simp add: cache_setnx_def live_entry_def empty_cache_def)
  define s2 where "s2 = s1\<lparr>sy_cache := c', sy_checks := (sy_checks s1)(''a'' \<mapsto> (0, won (PInt 0) ''a'')),
      sy_running := (if is_continue (won (PInt 0) ''a'') then (sy_running s1)(''a'' \<mapsto> 0) else sy_running s1)\<rparr>"
  have n: "sy_now s0 = 0" "sy_now s1 = 0" "sy_now s2 = 0" "sy_cache s1 = empty_cache []" "sy_checks s0 ''a'' = None"
    by (simp_all add: s2_def s1_def s0_def gate_start_def)
  have s01: "gate_step sample_gate (\<lambda>_. 0) ''k'' 10 s0 s1" unfolding s1_def by (rule begin_check) (rule n)
  have s12: "gate_step sample_gate (\<lambda>_. 0) ''k'' 10 s1 s2"
    unfolding s2_def by (rule operate [where ph = Begin]) (simp_all only: n c' phase_rank.simps, simp_all add: s1_def n)
  have r: "(gate_step sample_gate (\<lambda>_. 0) ''k'' 10)\<^sup>*\<^sup>* (gate_start 0 (empty_cache [])) s2"
    unfolding s0_def [symmetric]
    by (rule converse_rtranclp_into_rtranclp [where r = "gate_step sample_gate (\<lambda>_. 0) ''k'' 10", OF s01]) (rule r_into_rtranclp, rule s12)
  have a: "sy_running s2 ''a'' = Some 0" by (simp add: s2_def)
  have "sy_running s2 ''b'' \<noteq> Some 0"
  proof
    assume b: "sy_running s2 ''b'' = Some 0"
    have "''a'' = ''b''"
      by (rule one_running_claim [OF r _ _ a _ b]) (simp_all add: n sample_gate_def)
    then show False by simp
  qed
  then show ?thesis using r a n(3) by (intro exI [of _ s2]) simp
qed


end
