(* ===== verification/Replay_Handlers.thy ===== *)
theory Replay_Handlers
  imports Dlq_Selection Idempotency_Gate
begin

text \<open>
  The results of a replay (\<open>services/replay_service/models.py\<close>) and the registry of replay handlers with the
  gate for truncated payloads (\<open>services/replay_service/handlers.py\<close>).

  A handler is code of the application.  What it says about an entry is a function of the entry; what it does is a
  function on the stores, which also stands for everything that other threads do while it runs.
\<close>

section \<open>Results\<close>

record replay_result =
  rr_success :: bool
  rr_dlq_id :: string
  rr_message :: string
  rr_error :: "string option"
  rr_data :: pyval
  rr_skipped :: bool
  rr_handler_ran :: bool
  rr_work_may_continue :: bool

definition result_succeeded :: "string \<Rightarrow> string \<Rightarrow> pyval \<Rightarrow> replay_result" where
  "result_succeeded eid message data =
     \<lparr>rr_success = True, rr_dlq_id = eid, rr_message = message, rr_error = None, rr_data = data, rr_skipped = False,
      rr_handler_ran = False, rr_work_may_continue = False\<rparr>"

definition result_failed :: "string \<Rightarrow> string \<Rightarrow> replay_result" where
  "result_failed eid err =
     \<lparr>rr_success = False, rr_dlq_id = eid, rr_message = [], rr_error = Some err, rr_data = PNone, rr_skipped = False,
      rr_handler_ran = False, rr_work_may_continue = False\<rparr>"

definition skipped_result :: "string \<Rightarrow> string \<Rightarrow> replay_result" where
  "skipped_result eid reason =
     \<lparr>rr_success = True, rr_dlq_id = eid, rr_message = (if reason \<noteq> [] then ''Skipped: '' @ reason else ''Skipped''),
      rr_error = None, rr_data = PDict [(''skip_reason'', PStr reason)], rr_skipped = True,
      rr_handler_ran = False, rr_work_may_continue = False\<rparr>"

text \<open>The answer of the governance checker, which is another package.\<close>

record governance_result =
  gv_allowed :: bool
  gv_block_reason :: "string option"
  gv_block_message :: string

definition opt_str :: "string option \<Rightarrow> pyval" where
  "opt_str x = (case x of None \<Rightarrow> PNone | Some s \<Rightarrow> PStr s)"

definition result_blocked :: "string \<Rightarrow> governance_result \<Rightarrow> replay_result" where
  "result_blocked eid g =
     \<lparr>rr_success = False, rr_dlq_id = eid, rr_message = [], rr_error = Some (gv_block_message g),
      rr_data = PDict [(''blocked'', PBool True), (''block_reason'', opt_str (gv_block_reason g))], rr_skipped = False,
      rr_handler_ran = False, rr_work_may_continue = False\<rparr>"

record batch_replay_result =
  br_total :: nat
  br_success_count :: nat
  br_failed_count :: nat
  br_skipped_count :: nat
  br_results :: "replay_result list"
  br_governance_blocked :: bool
  br_governance_block_reason :: string
  br_inflight_skipped :: bool
  br_capped :: bool
  br_lane_cursors :: "(string, position) dict"
  br_scan_exhausted_lanes :: "string list"
  br_deadline_cut_dlq_id :: "string option"
  br_ended_by_breaker_refusal :: bool
  br_priority_used :: bool
  br_domains_processed :: "string list option"

definition new_batch_result :: batch_replay_result where
  "new_batch_result =
     \<lparr>br_total = 0, br_success_count = 0, br_failed_count = 0, br_skipped_count = 0, br_results = [],
      br_governance_blocked = False, br_governance_block_reason = [], br_inflight_skipped = False, br_capped = False,
      br_lane_cursors = [], br_scan_exhausted_lanes = [], br_deadline_cut_dlq_id = None,
      br_ended_by_breaker_refusal = False, br_priority_used = False, br_domains_processed = None\<rparr>"

definition batch_scan_exhausted :: "batch_replay_result \<Rightarrow> bool" where
  "batch_scan_exhausted b \<longleftrightarrow> br_scan_exhausted_lanes b \<noteq> []"

section \<open>The stores\<close>

text \<open>The events of the replay service, with the part of their payload that its readers decide by.\<close>

datatype replay_event =
    DLQ_REPLAY_BLOCKED "string option" "string option"
  | DLQ_REPLAY_COMPLETED string string bool int
  | DLQ_REPLAY_FAILED string string int
  | DLQ_REPLAY_BATCH_COMPLETED string nat nat nat bool

text \<open>The dead letter queue, the cache provider (\<open>None\<close> when there is none) with its locks, and the bus.\<close>

record stores =
  st_dlq :: dlq
  st_cache :: "cache option"
  st_locks :: locks
  st_bus :: "replay_event list"

definition emit :: "replay_event \<Rightarrow> stores \<Rightarrow> stores" where
  "emit ev W = W\<lparr>st_bus := st_bus W @ [ev]\<rparr>"

definition on_dlq :: "(dlq \<Rightarrow> 'a \<times> dlq) \<Rightarrow> stores \<Rightarrow> 'a \<times> stores" where
  "on_dlq f W = (let (x, q) = f (st_dlq W) in (x, W\<lparr>st_dlq := q\<rparr>))"

section \<open>Handlers\<close>

text \<open>A raised exception: its type's name and its text.\<close>

datatype handler_end = Returned replay_result | Raised string string

text \<open>\<open>ho_work_continues\<close>: the work scope around the handler still held work when it was closed.\<close>

record handler_outcome =
  ho_end :: handler_end
  ho_work_continues :: bool

text \<open>\<open>hd_can_replay\<close> is \<open>Inl\<close> when \<open>can_replay\<close> raises, \<open>hd_failure_types\<close> is \<open>None\<close> when the property raises.\<close>

record handler =
  hd_domain :: string
  hd_can_replay :: "failed_op \<Rightarrow> (string \<times> string) + (bool \<times> string)"
  hd_replay :: "failed_op \<Rightarrow> stores \<Rightarrow> handler_outcome \<times> stores"
  hd_failure_types :: "pyval list option"

definition no_handler_text :: "string \<Rightarrow> string" where
  "no_handler_text dm = ''No replay handler registered for domain '' @ [CHR 0x27] @ dm @ [CHR 0x27]"

definition default_replay_handler :: "string \<Rightarrow> handler" where
  "default_replay_handler dm =
     \<lparr>hd_domain = dm,
      hd_can_replay = (\<lambda>e. Inr (False, no_handler_text dm)),
      hd_replay = (\<lambda>e W. (\<lparr>ho_end = Returned (result_failed (fo_id e)
          (no_handler_text dm @ ''. Please register a handler using register_replay_handler().'')),
          ho_work_continues = False\<rparr>, W)),
      hd_failure_types = Some []\<rparr>"

section \<open>The registry\<close>

type_synonym registry = "(string, handler) dict"

definition registry_key :: "string \<Rightarrow> string" where
  "registry_key dm =
     (if dm = FALLBACK_DOMAIN then dm
      else let stored = resolve_stored_domain (PStr dm) in if stored = FALLBACK_DOMAIN then dm else stored)"

definition register_replay_handler :: "handler \<Rightarrow> registry \<Rightarrow> registry" where
  "register_replay_handler h rg = dict_set (registry_key (hd_domain h)) h rg"

definition has_replay_handler :: "string \<Rightarrow> registry \<Rightarrow> bool" where
  "has_replay_handler dm rg \<longleftrightarrow> dict_get rg (registry_key dm) \<noteq> None"

definition registered_replay_domains :: "registry \<Rightarrow> string list" where
  "registered_replay_domains rg =
     sort (filter (\<lambda>k. k \<noteq> FALLBACK_DOMAIN \<and> resolve_stored_domain (PStr k) = k) (map fst rg))"

definition get_replay_handler :: "string \<Rightarrow> registry \<Rightarrow> handler" where
  "get_replay_handler dm rg =
     (case dict_get rg (registry_key dm) of Some h \<Rightarrow> h | None \<Rightarrow> default_replay_handler dm)"

section \<open>The truncation gate\<close>

definition py_true :: "pyval \<Rightarrow> bool" where
  "py_true v = (case v of
       PInt n \<Rightarrow> n \<noteq> 0 | PBool b \<Rightarrow> b | PFloat x \<Rightarrow> x \<noteq> 0 | PStr s \<Rightarrow> s \<noteq> [] | PNone \<Rightarrow> False
     | PList xs \<Rightarrow> xs \<noteq> [] | PDict d \<Rightarrow> d \<noteq> [] | _ \<Rightarrow> True)"

text \<open>\<open>blocks\<close> is the setting \<open>truncate_blocks_replay\<close>, \<open>None\<close> when reading it raises.\<close>

definition truncate_gate :: "bool option \<Rightarrow> failed_op \<Rightarrow> bool \<times> string" where
  "truncate_gate blocks e =
     (if \<not> py_true (dict_get_or (fo_request_data e) ''_truncated'' PNone) then (True, [])
      else if blocks = Some False then (True, [])
      else (False, ''request_data_truncated''))"

section \<open>Facts\<close>

text \<open>A handler is found under the domain that the dead letters of its name are stored under, however the name is
  spelt; and filing one handler leaves the others in place.\<close>

lemma registry_key_stored:
  assumes "resolve_stored_domain (PStr dm) \<noteq> FALLBACK_DOMAIN"
  shows "registry_key (resolve_stored_domain (PStr dm)) = resolve_stored_domain (PStr dm)"
  using assms resolve_valid [OF resolve_stored_valid [OF assms]] by (simp add: registry_key_def Let_def)

lemma registered_handler_found:
  assumes "resolve_stored_domain (PStr (hd_domain h)) \<noteq> FALLBACK_DOMAIN" and "hd_domain h \<noteq> FALLBACK_DOMAIN"
  shows "get_replay_handler (resolve_stored_domain (PStr (hd_domain h))) (register_replay_handler h rg) = h"
    and "resolve_stored_domain (PStr (hd_domain h)) \<in> set (registered_replay_domains (register_replay_handler h rg))"
proof -
  have k: "registry_key (hd_domain h) = resolve_stored_domain (PStr (hd_domain h))"
    using assms by (simp add: registry_key_def Let_def)
  show "get_replay_handler (resolve_stored_domain (PStr (hd_domain h))) (register_replay_handler h rg) = h"
    by (simp add: get_replay_handler_def register_replay_handler_def registry_key_stored [OF assms(1)] k dict_simps)
  show "resolve_stored_domain (PStr (hd_domain h)) \<in> set (registered_replay_domains (register_replay_handler h rg))"
    using assms(1) resolve_valid [OF resolve_stored_valid [OF assms(1)]]
    by (simp add: registered_replay_domains_def register_replay_handler_def k domIff dict_simps flip: dom_map_of_conv_image_fst)
qed

lemma other_handlers_stay:
  "registry_key dm \<noteq> registry_key (hd_domain h) \<Longrightarrow> get_replay_handler dm (register_replay_handler h rg) = get_replay_handler dm rg"
  by (simp add: get_replay_handler_def register_replay_handler_def dict_simps)

lemma default_handler_refuses: "\<not> has_replay_handler dm rg \<Longrightarrow> hd_can_replay (get_replay_handler dm rg) e = Inr (False, no_handler_text dm)"
  by (simp add: has_replay_handler_def get_replay_handler_def default_replay_handler_def)

end
