(* ===== verification/Replay_Execute.thy ===== *)
theory Replay_Execute
  imports Replay_Handlers
begin

text \<open>
  One replay of a dead letter (\<open>_execute_replay\<close> of \<open>services/replay_service/service.py\<close> and the methods it
  calls): the gates, the acquisition, the idempotency key, the handler, the completion.

  The clock is read before the handler runs and after it.  The metrics, the audit trail and the tracing spans are
  left out; they do not act on the stores.
\<close>

section \<open>Reading a result\<close>

definition REASON_HANDLER_REFUSED :: string where
  "REASON_HANDLER_REFUSED = ''handler_refused''"

definition REASON_BREAKER_REFUSED :: string where
  "REASON_BREAKER_REFUSED = ''breaker_refused''"

definition REASON_JOB_NOT_STARTED :: string where
  "REASON_JOB_NOT_STARTED = ''job_not_started''"

definition RECOVERY_TRIALS_METADATA_KEY :: string where
  "RECOVERY_TRIALS_METADATA_KEY = ''recovery_trials''"

definition handler_refusal :: "handler \<Rightarrow> failed_op \<Rightarrow> string option" where
  "handler_refusal h e =
     (case hd_can_replay h e of
        Inl (ty, msg) \<Rightarrow> Some (''can_replay raised '' @ ty @ '': '' @ take 200 msg)
      | Inr (allowed, reason) \<Rightarrow> if allowed then None else Some (str_or reason ''refused''))"

definition data_of :: "replay_result \<Rightarrow> payload" where
  "data_of r = (case dict_of (rr_data r) of Some d \<Rightarrow> d | None \<Rightarrow> [])"

text \<open>Whether the job's body began, and whether its own breaker refused the call before it did.\<close>

definition job_start_flags :: "replay_result \<Rightarrow> bool \<times> bool" where
  "job_start_flags r =
     (let refused = (dict_get (data_of r) ''rejected_by_breaker'' = Some (PBool True));
          began = (case dict_get (data_of r) ''job_started'' of Some (PBool b) \<Rightarrow> b | _ \<Rightarrow> \<not> refused)
      in (began, refused \<and> \<not> began))"

definition skip_reason :: "replay_result \<Rightarrow> string option" where
  "skip_reason r =
     (if \<not> rr_skipped r then None
      else case dict_get (data_of r) ''skip_reason'' of Some (PStr s) \<Rightarrow> Some s | _ \<Rightarrow> None)"

definition recovery_trial_count :: "failed_op \<Rightarrow> payload" where
  "recovery_trial_count e =
     [(RECOVERY_TRIALS_METADATA_KEY, PInt (counter_of RECOVERY_TRIALS_METADATA_KEY (fo_metadata e) + 1))]"

section \<open>The idempotency key of an attempt\<close>

text \<open>\<open>str(n)\<close>.\<close>

definition int_str :: "int \<Rightarrow> string" where
  "int_str n = (if n < 0 then CHR ''-'' # nat_str (nat (- n)) else nat_str (nat n))"

text \<open>\<open>for_dlq_replay\<close>, \<open>for_recovery_action\<close> and \<open>cache_key\<close> of \<open>services/idempotency/models.py\<close>.\<close>

definition for_recovery_action :: "string \<Rightarrow> string \<Rightarrow> string \<Rightarrow> string" where
  "for_recovery_action action target session = ''recovery:'' @ action @ '':'' @ target @ '':'' @ session"

definition for_dlq_replay :: "string \<Rightarrow> string \<Rightarrow> int \<Rightarrow> string" where
  "for_dlq_replay eid dm n = for_recovery_action ''dlq_replay'' (dm @ '':'' @ eid) (int_str n)"

definition idempotency_cache_key :: "string \<Rightarrow> string" where
  "idempotency_cache_key key = ''idempotency:recovery_action:'' @ key"

section \<open>The service\<close>

text \<open>What the service is configured with.  \<open>cf_gate\<close> is \<open>None\<close> when obtaining the gate raises.\<close>

record replay_config =
  cf_max_replay_attempts :: int
  cf_truncate_blocks :: "bool option"
  cf_gate :: "gate option"
  cf_registry :: registry

text \<open>What one replay reads from outside: the clock before and after the handler, and a fresh claim id.\<close>

record replay_call =
  rc_now :: instant
  rc_done :: instant
  rc_claim :: string

text \<open>The check of the gate: its verdict and the count it returns.  Without a gate the replay goes on.\<close>

definition replay_gate_check :: "replay_config \<Rightarrow> replay_call \<Rightarrow> string \<Rightarrow> stores \<Rightarrow> (idempotency_decision \<times> pyval) \<times> stores" where
  "replay_gate_check cf k key W =
     (case cf_gate cf of
        None \<Rightarrow> ((CONTINUE, PInt 0), W)
      | Some g \<Rightarrow> let (r, c) = check_and_acquire g (rc_now k) key None (rc_claim k) (st_cache W)
                  in ((ck_decision r, ck_retry_count r), W\<lparr>st_cache := c\<rparr>))"

definition on_gate :: "replay_config \<Rightarrow> (gate \<Rightarrow> cache \<Rightarrow> bool \<times> cache) \<Rightarrow> stores \<Rightarrow> stores" where
  "on_gate cf f W =
     (case cf_gate cf of
        None \<Rightarrow> W
      | Some g \<Rightarrow> W\<lparr>st_cache := map_option (\<lambda>c. snd (f g c)) (st_cache W)\<rparr>)"

definition mark_replay_key :: "replay_config \<Rightarrow> replay_call \<Rightarrow> string \<Rightarrow> pyval \<Rightarrow> replay_result \<Rightarrow> stores \<Rightarrow> stores" where
  "mark_replay_key cf k key n r W =
     (if rr_success r then on_gate cf (\<lambda>g. mark_completed g (rc_done k) key None n None None) W
      else on_gate cf (\<lambda>g. mark_failed g (rc_done k) key (case rr_error r of None \<Rightarrow> ''replay_failed'' | Some s \<Rightarrow> str_or s ''replay_failed'')
                             n None None) W)"

definition give_back_attempt :: "string \<Rightarrow> int \<Rightarrow> stores \<Rightarrow> bool \<times> stores" where
  "give_back_attempt eid acquired = on_dlq (dlq_return_replay_attempt eid acquired)"

definition finish_crashed_replay ::
    "replay_config \<Rightarrow> replay_call \<Rightarrow> failed_op \<Rightarrow> string \<Rightarrow> string \<Rightarrow> string \<Rightarrow> pyval \<Rightarrow> bool \<Rightarrow> bool \<Rightarrow> stores
       \<Rightarrow> replay_result \<times> stores" where
  "finish_crashed_replay cf k op ty msg key n trial continues W =
     (let W1 = on_gate cf (\<lambda>g. mark_failed g (rc_done k) key msg n None None) W;
          (ours, W2) = (if trial then give_back_attempt (fo_id op) (fo_retry_count op) W1 else (True, W1));
          details = [(''type'', PStr ty), (''message'', PStr (take 500 msg)), (''occurred_at'', PInt (rc_done k)),
                     (''escalated_to'', PStr ''requires_review'')] @ (if trial then recovery_trial_count op else []);
          W3 = (if ours \<and> \<not> continues
                then snd (on_dlq (dlq_complete_replay (rc_done k) (fo_id op) False []
                       (''Handler crash: '' @ ty @ '': '' @ take 200 msg) None details) W2)
                else W2);
          W4 = emit (DLQ_REPLAY_FAILED (fo_id op) (fo_domain op) (fo_retry_count op)) W3
      in ((result_failed (fo_id op) (''internal_error: '' @ ty))\<lparr>rr_handler_ran := True, rr_work_may_continue := continues\<rparr>, W4))"

text \<open>After a handler that returned.\<close>

definition finish_replay ::
    "replay_config \<Rightarrow> replay_call \<Rightarrow> string \<Rightarrow> string \<Rightarrow> failed_op \<Rightarrow> replay_result \<Rightarrow> string \<Rightarrow> pyval \<Rightarrow> bool \<Rightarrow> bool \<Rightarrow> stores
       \<Rightarrow> replay_result \<times> stores" where
  "finish_replay cf k eid trigger op r key n trial continues W =
     (let (began, refused) = job_start_flags r;
          W1 = (if rr_success r
                then mark_replay_key cf k key n r
                       (snd (on_dlq (dlq_complete_replay (rc_done k) eid True trigger (rr_message r) None []) W))
                else let Wm = mark_replay_key cf k key n r W;
                         (ours, Wg) = (if trial \<or> \<not> began then give_back_attempt eid (fo_retry_count op) Wm else (True, Wm))
                     in if ours \<and> \<not> continues
                        then snd (on_dlq (dlq_complete_replay (rc_done k) eid False []
                               (case rr_error r of None \<Rightarrow> ''Replay failed'' | Some s \<Rightarrow> str_or s ''Replay failed'') None
                               (if trial \<and> began then recovery_trial_count op else [])) Wg)
                        else Wg);
          W2 = emit (DLQ_REPLAY_COMPLETED eid (fo_domain op) (rr_success r) (fo_retry_count op)) W1
      in if \<not> rr_success r \<and> \<not> began
         then ((skipped_result eid (if refused then REASON_BREAKER_REFUSED else REASON_JOB_NOT_STARTED))
                 \<lparr>rr_error := rr_error r, rr_handler_ran := True\<rparr>, W2)
         else (r\<lparr>rr_handler_ran := True, rr_work_may_continue := continues \<and> \<not> rr_success r\<rparr>, W2))"

text \<open>From the acquisition on.  An aborted check leaves the entry as it is acquired.\<close>

definition replay_acquired ::
    "replay_config \<Rightarrow> replay_call \<Rightarrow> string \<Rightarrow> string \<Rightarrow> handler \<Rightarrow> bool \<Rightarrow> failed_op \<Rightarrow> stores \<Rightarrow> replay_result \<times> stores" where
  "replay_acquired cf k eid trigger h trial op W =
     (let key = idempotency_cache_key (for_dlq_replay eid (fo_domain op) (fo_retry_count op));
          ((decision, n), W1) = replay_gate_check cf k key W
      in case decision of
           SKIP \<Rightarrow> (skipped_result eid ''duplicate'',
                    snd (on_dlq (dlq_complete_replay (rc_now k) eid True ''duplicate_skip'' [] None []) W1))
         | ABORT \<Rightarrow> (skipped_result eid ''in_progress'',
                    if trial then snd (give_back_attempt eid (fo_retry_count op) W1) else W1)
         | CONTINUE \<Rightarrow>
             let (out, W2) = hd_replay h op W1
             in case ho_end out of
                  Raised ty msg \<Rightarrow> finish_crashed_replay cf k op ty msg key n trial (ho_work_continues out) W2
                | Returned r \<Rightarrow> finish_replay cf k eid trigger op r key n trial (ho_work_continues out) W2)"

fun status_value :: "op_status \<Rightarrow> string" where
  "status_value PENDING = ''pending''"
| "status_value REPLAYING = ''replaying''"
| "status_value REVIEWING = ''reviewing''"
| "status_value REPLAYED = ''replayed''"
| "status_value REQUIRES_REVIEW = ''requires_review''"
| "status_value RESOLVED = ''resolved''"
| "status_value REJECTED = ''rejected''"
| "status_value ARCHIVED = ''archived''"
| "status_value EXPIRED = ''expired''"
| "status_value PERMANENTLY_FAILED = ''permanently_failed''"

text \<open>The whole replay.  \<open>entry\<close> is the entry as the caller selected it, \<open>None\<close> to read it here.\<close>

definition execute_replay ::
    "replay_config \<Rightarrow> replay_call \<Rightarrow> string \<Rightarrow> string \<Rightarrow> failed_op option \<Rightarrow> bool \<Rightarrow> stores \<Rightarrow> replay_result \<times> stores" where
  "execute_replay cf k eid trigger entry trial W =
     (case (if entry \<noteq> None then entry else dlq_get_by_id eid (st_dlq W)) of
        None \<Rightarrow> (result_failed eid ''DLQ entry not found'', W)
      | Some snapshot \<Rightarrow>
          let (ok, why) = truncate_gate (cf_truncate_blocks cf) snapshot
          in if \<not> ok then (skipped_result eid why, emit (DLQ_REPLAY_BLOCKED (Some eid) (Some why)) W)
             else
               let h = get_replay_handler (fo_domain snapshot) (cf_registry cf)
               in if handler_refusal h snapshot \<noteq> None then (skipped_result eid REASON_HANDLER_REFUSED, W)
                  else
                    let (got, W1) = on_dlq (dlq_try_acquire_for_replay (rc_now k) eid (cf_max_replay_attempts cf) False) W
                    in case got of
                         Some op \<Rightarrow> replay_acquired cf k eid trigger h trial op W1
                       | None \<Rightarrow>
                           case dlq_get_by_id eid (st_dlq W1) of
                             None \<Rightarrow> (result_failed eid ''DLQ entry not found'', W1)
                           | Some existing \<Rightarrow>
                               if fo_status existing \<noteq> PENDING
                               then (result_failed eid (''Cannot replay: status is '' @ [CHR 0x27] @ status_value (fo_status existing) @ [CHR 0x27]), W1)
                               else (result_failed eid ''max_replays_exceeded'',
                                     emit (DLQ_REPLAY_BLOCKED (Some eid) (Some ''max_replay_attempts_exceeded'')) W1))"

definition MANUAL_REPLAY :: string where
  "MANUAL_REPLAY = ''manual_replay''"

definition AUTO_REPLAY_CIRCUIT_CLOSE :: string where
  "AUTO_REPLAY_CIRCUIT_CLOSE = ''auto_replay_circuit_close''"

definition AUTO_REPLAY_RECOVERY :: string where
  "AUTO_REPLAY_RECOVERY = ''auto_replay_recovery''"

definition replay_single ::
    "replay_config \<Rightarrow> replay_call \<Rightarrow> governance_result \<Rightarrow> string \<Rightarrow> string \<Rightarrow> stores \<Rightarrow> replay_result \<times> stores" where
  "replay_single cf k gov eid trigger W =
     (if \<not> gv_allowed gov
      then (result_blocked eid gov, emit (DLQ_REPLAY_BLOCKED (Some eid) (gv_block_reason gov)) W)
      else execute_replay cf k eid trigger None False W)"

section \<open>Effects on the entries\<close>

definition stored :: "string \<Rightarrow> stores \<Rightarrow> failed_op option" where
  "stored eid W = dict_get (storage (st_dlq W)) eid"

lemma stored_frames [simp]:
  "stored i (W\<lparr>st_cache := c\<rparr>) = stored i W" "stored i (emit ev W) = stored i W"
  "st_dlq (emit ev W) = st_dlq W" "st_dlq (on_gate cf f W) = st_dlq W" "stored i (on_gate cf f W) = stored i W"
  "st_dlq (mark_replay_key cf k key n r W) = st_dlq W" "stored i (mark_replay_key cf k key n r W) = stored i W"
  "st_dlq (snd (replay_gate_check cf k key W)) = st_dlq W" "stored i (snd (replay_gate_check cf k key W)) = stored i W"
  by (simp_all add: stored_def emit_def on_gate_def mark_replay_key_def replay_gate_check_def split_beta Let_def split: option.split)

lemma on_dlq_sel [simp]: "fst (on_dlq f W) = fst (f (st_dlq W))" "st_dlq (snd (on_dlq f W)) = snd (f (st_dlq W))"
  by (simp_all add: on_dlq_def split_beta Let_def)

text \<open>What a completion, a give-back and an acquisition make of an entry.\<close>

lemma stored_complete:
  assumes "stored eid W = Some e"
  shows "\<exists>u. stored eid (snd (on_dlq (dlq_complete_replay now eid ok rtype note by details) W)) = Some u
     \<and> fo_retry_count u = fo_retry_count e \<and> fo_status u = completed_status ok e"
  using assms by (simp add: stored_def dlq_complete_replay_def copy_with_updates_def dict_simps Let_def)

lemma stored_complete_other:
  "i \<noteq> eid \<Longrightarrow> stored i (snd (on_dlq (dlq_complete_replay now eid ok rtype note by details) W)) = stored i W"
  by (auto simp: stored_def dlq_complete_replay_def dict_simps Let_def split: option.splits)

lemma stored_give_back:
  assumes "stored eid W = Some e"
  shows "fst (give_back_attempt eid n W) \<longleftrightarrow> fo_status e = REPLAYING \<and> fo_retry_count e = n"
    and "stored i (snd (give_back_attempt eid n W)) =
       (if i = eid \<and> fo_status e = REPLAYING \<and> fo_retry_count e = n then Some (e\<lparr>fo_retry_count := n - 1\<rparr>) else stored i W)"
  using assms by (auto simp: stored_def give_back_attempt_def dlq_return_replay_attempt_def dict_simps)

definition acquired :: "instant \<Rightarrow> failed_op \<Rightarrow> failed_op" where
  "acquired now e = e\<lparr>fo_status := REPLAYING, fo_retry_count := fo_retry_count e + 1, fo_last_retry_at := Some now, fo_updated_at := Some now\<rparr>"

lemma stored_acquire:
  assumes "stored eid W = Some e"
  shows "fst (dlq_try_acquire_for_replay now eid cap False (st_dlq W)) = (if fo_status e = PENDING \<and> fo_retry_count e < cap then Some (acquired now e) else None)"
    and "stored i (snd (on_dlq (dlq_try_acquire_for_replay now eid cap False) W)) =
      (if i = eid \<and> fo_status e = PENDING \<and> fo_retry_count e < cap then Some (acquired now e) else stored i W)"
  using assms by (auto simp: stored_def dlq_try_acquire_for_replay_def acquired_def copy_with_updates_def dict_simps Let_def)

section \<open>What a replay makes of its entry\<close>

text \<open>How a handler ended: whether the job succeeded, and whether its body began.  One that raised counts as begun.\<close>

fun job_succeeded :: "handler_end \<Rightarrow> bool" where
  "job_succeeded (Returned r) = rr_success r"
| "job_succeeded (Raised ty msg) = False"

fun job_began :: "handler_end \<Rightarrow> bool" where
  "job_began (Returned r) = fst (job_start_flags r)"
| "job_began (Raised ty msg) = True"

text \<open>An attempt is charged when the job succeeded, or ran and failed outside a trial.\<close>

definition charged :: "bool \<Rightarrow> handler_end \<Rightarrow> bool" where
  "charged trial x \<longleftrightarrow> job_succeeded x \<or> \<not> trial \<and> job_began x"

definition settled_status :: "bool \<Rightarrow> handler_outcome \<Rightarrow> failed_op \<Rightarrow> op_status" where
  "settled_status trial out e =
     (if job_succeeded (ho_end out) then RESOLVED
      else if ho_work_continues out then REPLAYING
      else if fo_retry_count e + (if charged trial (ho_end out) then 1 else 0) \<ge> fo_max_retries e then REQUIRES_REVIEW
      else PENDING)"

lemma acquired_sel [simp]:
  "fo_status (acquired now e) = REPLAYING" "fo_retry_count (acquired now e) = fo_retry_count e + 1"
  "fo_max_retries (acquired now e) = fo_max_retries e" "fo_id (acquired now e) = fo_id e" "fo_domain (acquired now e) = fo_domain e"
  by (simp_all add: acquired_def)

text \<open>Giving back, if it is due, and completing, if the work has ended.\<close>

lemma settle_failed:
  assumes "stored eid W = Some (acquired now e)"
    and "x = (if give then give_back_attempt eid (fo_retry_count e + 1) W else (True, W))"
  shows "\<exists>u. stored eid (if fst x \<and> \<not> continues then snd (on_dlq (dlq_complete_replay t eid False [] nt None details) (snd x)) else snd x) = Some u
     \<and> fo_retry_count u = fo_retry_count e + (if give then 0 else 1)
     \<and> fo_status u = (if continues then REPLAYING
         else if fo_retry_count e + (if give then 0 else 1) \<ge> fo_max_retries e then REQUIRES_REVIEW else PENDING)"
proof -
  have x: "fst x" using assms by (simp add: stored_give_back)
  obtain u where u: "stored eid (snd x) = Some u" "fo_retry_count u = fo_retry_count e + (if give then 0 else 1)"
      "fo_status u = REPLAYING" "fo_max_retries u = fo_max_retries e"
    using assms by (cases give) (simp_all add: stored_give_back)
  show ?thesis
    using x u stored_complete [OF u(1), of t False "[]" nt None details]
    by (cases continues) (auto simp: completed_status_def)
qed

lemma settle_crashed:
  assumes "stored (fo_id e) W = Some (acquired now e)"
  shows "\<exists>u. stored (fo_id e) (snd (finish_crashed_replay cf k (acquired now e) ty msg key n trial continues W)) = Some u
     \<and> fo_retry_count u = fo_retry_count e + (if trial then 0 else 1)
     \<and> fo_status u = (if continues then REPLAYING
         else if fo_retry_count e + (if trial then 0 else 1) \<ge> fo_max_retries e then REQUIRES_REVIEW else PENDING)"
proof -
  define x where "x = (if trial then give_back_attempt (fo_id e) (fo_retry_count e + 1) (on_gate cf (\<lambda>g. mark_failed g (rc_done k) key msg n None None) W)
    else (True, on_gate cf (\<lambda>g. mark_failed g (rc_done k) key msg n None None) W))"
  have "stored (fo_id e) (on_gate cf (\<lambda>g. mark_failed g (rc_done k) key msg n None None) W) = Some (acquired now e)" using assms by simp
  note settle_failed [OF this x_def, of continues "rc_done k" "''Handler crash: '' @ ty @ '': '' @ take 200 msg"]
  moreover have "snd (finish_crashed_replay cf k (acquired now e) ty msg key n trial continues W) =
      emit (DLQ_REPLAY_FAILED (fo_id e) (fo_domain e) (fo_retry_count e + 1))
        (if fst x \<and> \<not> continues then snd (on_dlq (dlq_complete_replay (rc_done k) (fo_id e) False []
           (''Handler crash: '' @ ty @ '': '' @ take 200 msg) None
           ([(''type'', PStr ty), (''message'', PStr (take 500 msg)), (''occurred_at'', PInt (rc_done k)),
             (''escalated_to'', PStr ''requires_review'')] @ (if trial then recovery_trial_count (acquired now e) else []))) (snd x)) else snd x)"
    unfolding finish_crashed_replay_def acquired_sel x_def by (simp only: Let_def split_beta snd_conv)
  ultimately show ?thesis by (simp only: stored_frames(2))
qed

lemma settle_returned:
  assumes "stored eid W = Some (acquired now e)"
  shows "\<exists>u. stored eid (snd (finish_replay cf k eid trigger (acquired now e) r key n trial continues W)) = Some u
     \<and> fo_retry_count u = fo_retry_count e + (if charged trial (Returned r) then 1 else 0)
     \<and> fo_status u = settled_status trial \<lparr>ho_end = Returned r, ho_work_continues = continues\<rparr> e"
proof (cases "rr_success r")
  case True
  from stored_complete [OF assms, of "rc_done k" True trigger "rr_message r" None "[]"] True show ?thesis
    by (auto simp: finish_replay_def Let_def split_beta charged_def settled_status_def completed_status_def)
next
  case False
  define began where "began = fst (job_start_flags r)"
  define x where "x = (if trial \<or> \<not> began then give_back_attempt eid (fo_retry_count e + 1) (mark_replay_key cf k key n r W)
    else (True, mark_replay_key cf k key n r W))"
  define nt where "nt = (case rr_error r of None \<Rightarrow> ''Replay failed'' | Some s \<Rightarrow> str_or s ''Replay failed'')"
  have "stored eid (mark_replay_key cf k key n r W) = Some (acquired now e)" using assms by simp
  note settle_failed [OF this x_def, of continues "rc_done k" nt "if trial \<and> began then recovery_trial_count (acquired now e) else []"]
  moreover have "stored eid (snd (finish_replay cf k eid trigger (acquired now e) r key n trial continues W)) =
      stored eid (if fst x \<and> \<not> continues then snd (on_dlq (dlq_complete_replay (rc_done k) eid False [] nt None
           (if trial \<and> began then recovery_trial_count (acquired now e) else [])) (snd x)) else snd x)"
    using False unfolding finish_replay_def acquired_sel x_def began_def nt_def by (simp add: Let_def split_beta)
  moreover have "charged trial (Returned r) \<longleftrightarrow> \<not> (trial \<or> \<not> began)" using False by (auto simp: charged_def began_def)
  ultimately show ?thesis using False by (auto simp: settled_status_def)
qed

text \<open>A replay that reaches its handler.\<close>

lemma execute_acquires:
  assumes "stored eid W = Some e" and "fo_status e = PENDING" and "fo_retry_count e < cf_max_replay_attempts cf"
    and "entry = None \<or> entry = Some e"
    and "fst (truncate_gate (cf_truncate_blocks cf) e)" and "handler_refusal (get_replay_handler (fo_domain e) (cf_registry cf)) e = None"
  shows "execute_replay cf k eid trigger entry trial W =
    replay_acquired cf k eid trigger (get_replay_handler (fo_domain e) (cf_registry cf)) trial (acquired (rc_now k) e)
      (snd (on_dlq (dlq_try_acquire_for_replay (rc_now k) eid (cf_max_replay_attempts cf) False) W))"
proof -
  have "(if entry \<noteq> None then entry else dlq_get_by_id eid (st_dlq W)) = Some e"
    using assms(1,4) by (auto simp: dlq_get_by_id_def stored_def)
  then show ?thesis
    using assms by (simp add: execute_replay_def Let_def split_beta stored_acquire(1) [OF assms(1)])
qed

text \<open>The stores from the acquisition on: while the entry is held, and when the handler is through.\<close>

definition taken :: "replay_config \<Rightarrow> replay_call \<Rightarrow> string \<Rightarrow> stores \<Rightarrow> stores" where
  "taken cf k eid W = snd (on_dlq (dlq_try_acquire_for_replay (rc_now k) eid (cf_max_replay_attempts cf) False) W)"

definition attempt_key :: "string \<Rightarrow> failed_op \<Rightarrow> string" where
  "attempt_key eid e = idempotency_cache_key (for_dlq_replay eid (fo_domain e) (fo_retry_count e + 1))"

lemma replay_runs:
  assumes "replay_gate_check cf k (attempt_key eid e) W = ((CONTINUE, n), W1)" and "hd_replay h (acquired now e) W1 = (out, W2)"
  shows "replay_acquired cf k eid trigger h trial (acquired now e) W =
    (case ho_end out of
       Raised ty msg \<Rightarrow> finish_crashed_replay cf k (acquired now e) ty msg (attempt_key eid e) n trial (ho_work_continues out) W2
     | Returned r \<Rightarrow> finish_replay cf k eid trigger (acquired now e) r (attempt_key eid e) n trial (ho_work_continues out) W2)"
  using assms by (simp add: replay_acquired_def attempt_key_def Let_def split: handler_end.split)

lemma settle:
  assumes "stored eid W2 = Some (acquired now e)" and "fo_id e = eid"
    and "replay_gate_check cf k (attempt_key eid e) W = ((CONTINUE, n), W1)" and "hd_replay h (acquired now e) W1 = (out, W2)"
  shows "\<exists>u. stored eid (snd (replay_acquired cf k eid trigger h trial (acquired now e) W)) = Some u
    \<and> fo_retry_count u = fo_retry_count e + (if charged trial (ho_end out) then 1 else 0) \<and> fo_status u = settled_status trial out e"
proof (cases "ho_end out")
  case (Returned r)
  have "settled_status trial \<lparr>ho_end = Returned r, ho_work_continues = ho_work_continues out\<rparr> e = settled_status trial out e"
    by (simp add: settled_status_def Returned)
  then show ?thesis
    using settle_returned [OF assms(1), of cf k trigger r "attempt_key eid e" n trial "ho_work_continues out"]
    unfolding replay_runs [OF assms(3,4)] Returned by simp
next
  case (Raised ty msg)
  have "stored (fo_id e) W2 = Some (acquired now e)" using assms(1,2) by simp
  from settle_crashed [OF this, of cf k ty msg "attempt_key eid e" n trial "ho_work_continues out"] show ?thesis
    unfolding replay_runs [OF assms(3,4)] Raised
    by (cases trial; cases "ho_work_continues out") (simp_all add: assms(2) charged_def settled_status_def Raised)
qed

text \<open>(C15) A replay whose handler runs settles its entry: resolved when the job succeeded, left in flight when work may
  still be running, else back in the queue or, at the entry's limit, in review; the attempt is charged only when
  the job succeeded or, outside a trial, began.  This holds for every handler that leaves the entry itself alone.\<close>

theorem replay_settles:
  assumes "stored eid W = Some e" and "fo_id e = eid" and "fo_status e = PENDING" and "fo_retry_count e < cf_max_replay_attempts cf"
    and "entry = None \<or> entry = Some e" and "fst (truncate_gate (cf_truncate_blocks cf) e)"
    and "get_replay_handler (fo_domain e) (cf_registry cf) = h" and "handler_refusal h e = None"
    and "replay_gate_check cf k (attempt_key eid e) (taken cf k eid W) = ((CONTINUE, n), W1)"
    and "hd_replay h (acquired (rc_now k) e) W1 = (out, W2)" and "stored eid W2 = stored eid W1"
  shows "\<exists>u. stored eid (snd (execute_replay cf k eid trigger entry trial W)) = Some u
    \<and> fo_retry_count u = fo_retry_count e + (if charged trial (ho_end out) then 1 else 0) \<and> fo_status u = settled_status trial out e"
proof -
  have "stored eid (taken cf k eid W) = Some (acquired (rc_now k) e)"
    using assms(1,3,4) by (simp add: taken_def stored_acquire(2) [OF assms(1)])
  then have "stored eid W2 = Some (acquired (rc_now k) e)"
    using stored_frames(9) [of eid cf k "attempt_key eid e" "taken cf k eid W"] assms(9,11) by simp
  from settle [OF this assms(2) assms(9,10), of trigger trial] show ?thesis
    using execute_acquires [OF assms(1,3,4,5,6)] assms(7,8) by (simp add: taken_def)
qed

text \<open>A handler, a configuration and a queue to run the examples on.\<close>

definition sample_handler :: "(stores \<Rightarrow> handler_outcome \<times> stores) \<Rightarrow> handler" where
  "sample_handler f = \<lparr>hd_domain = ''payment'', hd_can_replay = (\<lambda>e. Inr (True, [])), hd_replay = (\<lambda>e. f), hd_failure_types = Some []\<rparr>"

definition sample_config :: "handler \<Rightarrow> replay_config" where
  "sample_config h = \<lparr>cf_max_replay_attempts = 3, cf_truncate_blocks = Some True, cf_gate = None,
     cf_registry = register_replay_handler h []\<rparr>"

definition sample_call :: replay_call where
  "sample_call = \<lparr>rc_now = 5, rc_done = 6, rc_claim = ''w''\<rparr>"

definition parked :: stores where
  "parked = \<lparr>st_dlq = dlq_run [Create 0 sample_op] empty_dlq, st_cache = None, st_locks = [], st_bus = []\<rparr>"

definition job_failed :: handler_outcome where
  "job_failed = \<lparr>ho_end = Returned (result_failed ''1'' ''down''), ho_work_continues = False\<rparr>"

definition sample_entry :: failed_op where
  "sample_entry = fst (dlq_create 0 sample_op empty_dlq)"

lemma one_str: "nat_str (Suc 0) = ''1''"
  by code_simp

lemma parked_entry: "stored ''1'' parked = Some sample_entry" "fo_id sample_entry = ''1''" "fo_status sample_entry = PENDING"
    "fo_retry_count sample_entry = 0" "fo_max_retries sample_entry = 3" "fo_domain sample_entry = ''payment''"
    "fo_request_data sample_entry = []"
  by (simp_all add: stored_def parked_def sample_entry_def dlq_create_def empty_dlq_def sample_op_def add_to_index_def one_str Let_def dict_simps)

lemma sample_lookup: "hd_domain h = ''payment'' \<Longrightarrow> get_replay_handler ''payment'' (cf_registry (sample_config h)) = h"
  using other_handlers_stay by (simp add: sample_config_def get_replay_handler_def register_replay_handler_def dict_simps)

lemma sample_gates [simp]:
  "cf_max_replay_attempts (sample_config h) = 3" "cf_gate (sample_config h) = None"
  "fst (truncate_gate (cf_truncate_blocks (sample_config h)) sample_entry)" "hd_domain (sample_handler f) = ''payment''"
  "handler_refusal (sample_handler f) e = None" "hd_replay (sample_handler f) e = f"
  by (simp_all add: sample_config_def truncate_gate_def parked_entry dict_simps py_true_def sample_handler_def handler_refusal_def)

theorem replay_settles_witness:
  "\<exists>u. stored ''1'' (snd (execute_replay (sample_config (sample_handler (Pair job_failed))) sample_call ''1'' MANUAL_REPLAY None False parked)) = Some u
    \<and> fo_retry_count u = 1 \<and> fo_status u = PENDING"
proof -
  let ?h = "sample_handler (Pair job_failed)"
  let ?cf = "sample_config ?h"
  have h: "get_replay_handler (fo_domain sample_entry) (cf_registry ?cf) = ?h" by (simp add: parked_entry sample_lookup)
  have g: "replay_gate_check ?cf sample_call (attempt_key ''1'' sample_entry) (taken ?cf sample_call ''1'' parked) = ((CONTINUE, PInt 0), taken ?cf sample_call ''1'' parked)"
    by (simp add: replay_gate_check_def)
  have "settled_status False job_failed sample_entry = PENDING" "charged False (ho_end job_failed)"
    by (simp_all add: settled_status_def charged_def job_failed_def result_failed_def job_start_flags_def data_of_def parked_entry)
  then show ?thesis
    using replay_settles [OF parked_entry(1-3) _ _ _ h _ g, of None job_failed "taken ?cf sample_call ''1'' parked" MANUAL_REPLAY False]
    by (simp add: parked_entry)
qed

section \<open>The invariant of the queue\<close>

lemma dlq_inv_ops:
  assumes "dlq_inv (st_dlq W)"
  shows "dlq_inv (snd (dlq_complete_replay now eid ok rtype nt by details (st_dlq W)))"
    and "dlq_inv (st_dlq (snd (give_back_attempt eid n W)))"
    and "dlq_inv (st_dlq (taken cf k eid W))"
    and "dlq_inv (snd (dlq_update_status now eid st rs (st_dlq W)))"
  using entry_steps_inv [OF complete_steps assms] entry_steps_inv [OF give_back_steps assms]
    entry_steps_inv [OF acquire_steps assms] entry_steps_inv [OF update_status_steps assms]
  by (simp_all add: give_back_attempt_def taken_def)

definition keeps_inv :: "handler \<Rightarrow> bool" where
  "keeps_inv h \<longleftrightarrow> (\<forall>op W. dlq_inv (st_dlq W) \<longrightarrow> dlq_inv (st_dlq (snd (hd_replay h op W))))"

lemma finish_inv:
  assumes "dlq_inv (st_dlq W)"
  shows "dlq_inv (st_dlq (snd (finish_crashed_replay cf k op ty msg key n trial continues W)))"
    and "dlq_inv (st_dlq (snd (finish_replay cf k eid trigger op r key n trial continues W)))"
  using assms by (simp_all add: finish_crashed_replay_def finish_replay_def Let_def split_beta dlq_inv_ops)

lemma acquired_inv:
  assumes "dlq_inv (st_dlq W)" and "keeps_inv h"
  shows "dlq_inv (st_dlq (snd (replay_acquired cf k eid trigger h trial op W)))"
proof -
  define key where "key = idempotency_cache_key (for_dlq_replay eid (fo_domain op) (fo_retry_count op))"
  obtain d n W1 where g: "replay_gate_check cf k key W = ((d, n), W1)" by (metis surj_pair)
  have W1: "dlq_inv (st_dlq W1)" using stored_frames(8) [of cf k key W, unfolded g] assms(1) by simp
  obtain out W2 where o: "hd_replay h op W1 = (out, W2)" by force
  have "dlq_inv (st_dlq W2)" using assms(2) W1 o unfolding keeps_inv_def by (metis snd_conv)
  then show ?thesis
    using g W1 by (cases d; cases "ho_end out") (simp_all add: replay_acquired_def Let_def o finish_inv dlq_inv_ops flip: key_def)
qed

lemma execute_inv:
  assumes "dlq_inv (st_dlq W)" and "\<And>dm. keeps_inv (get_replay_handler dm (cf_registry cf))"
  shows "dlq_inv (st_dlq (snd (execute_replay cf k eid trigger entry trial W)))"
proof -
  have t: "dlq_inv (snd (dlq_try_acquire_for_replay (rc_now k) eid (cf_max_replay_attempts cf) False (st_dlq W)))"
    using dlq_inv_ops(3) [OF assms(1)] by (simp add: taken_def)
  then show ?thesis
    using assms by (simp add: execute_replay_def Let_def split_beta acquired_inv split: option.split)
qed

section \<open>Trials\<close>

definition leaves_alone :: "handler \<Rightarrow> string \<Rightarrow> bool" where
  "leaves_alone h eid \<longleftrightarrow> (\<forall>op W. stored eid (snd (hd_replay h op W)) = stored eid W)"

lemma stored_unchanged: "st_dlq W' = st_dlq W \<Longrightarrow> stored i W' = stored i W"
  by (simp add: stored_def)

lemma refused_acquire: "fst (dlq_try_acquire_for_replay now eid cap force q) = None \<Longrightarrow> snd (dlq_try_acquire_for_replay now eid cap force q) = q"
  by (auto simp: dlq_try_acquire_for_replay_def Let_def split: option.splits if_splits)

text \<open>A replay either leaves the queue as it is and runs nothing, or goes through the acquisition.\<close>

lemma execute_cases:
  fixes cf :: replay_config and e :: failed_op
  assumes "stored eid W = Some e" and "entry = None \<or> entry = Some e"
  defines "h \<equiv> get_replay_handler (fo_domain e) (cf_registry cf)"
  obtains (untouched) "st_dlq (snd (execute_replay cf k eid trigger entry trial W)) = st_dlq W"
      "\<not> rr_handler_ran (fst (execute_replay cf k eid trigger entry trial W))"
  | (runs) "fo_status e = PENDING" "fo_retry_count e < cf_max_replay_attempts cf" "handler_refusal h e = None"
      "fst (truncate_gate (cf_truncate_blocks cf) e)"
      "execute_replay cf k eid trigger entry trial W =
         replay_acquired cf k eid trigger h trial (acquired (rc_now k) e) (taken cf k eid W)"
proof (cases "fst (truncate_gate (cf_truncate_blocks cf) e) \<and> handler_refusal h e = None")
  case True
  show thesis
  proof (cases "fo_status e = PENDING \<and> fo_retry_count e < cf_max_replay_attempts cf")
    case False
    then have n: "fst (dlq_try_acquire_for_replay (rc_now k) eid (cf_max_replay_attempts cf) False (st_dlq W)) = None"
      by (simp add: stored_acquire(1) [OF assms(1)])
    have s: "(if entry \<noteq> None then entry else dlq_get_by_id eid (st_dlq W)) = Some e"
      using assms(1,2) by (auto simp: dlq_get_by_id_def stored_def)
    have g: "dlq_get_by_id eid (st_dlq W) = Some e" using assms(1) by (simp add: dlq_get_by_id_def stored_def)
    show thesis
      using True refused_acquire [OF n] unfolding h_def
      by (intro untouched; unfold execute_replay_def s) (simp_all add: g n Let_def split_beta result_failed_def)
  qed (use True assms execute_acquires [OF assms(1) _ _ assms(2)] runs in \<open>simp add: taken_def h_def\<close>)
next
  case False
  have s: "(if entry \<noteq> None then entry else dlq_get_by_id eid (st_dlq W)) = Some e"
    using assms(1,2) by (auto simp: dlq_get_by_id_def stored_def)
  show thesis
    using False unfolding h_def by (intro untouched; unfold execute_replay_def s) (auto simp: Let_def split_beta skipped_result_def)
qed

lemma acquired_decides:
  assumes "replay_gate_check cf k (attempt_key eid e) W = ((d, n), W1)"
  shows "d = SKIP \<Longrightarrow> snd (replay_acquired cf k eid trigger h trial (acquired now e) W) =
      snd (on_dlq (dlq_complete_replay (rc_now k) eid True ''duplicate_skip'' [] None []) W1)"
    and "d = ABORT \<Longrightarrow> snd (replay_acquired cf k eid trigger h trial (acquired now e) W) =
      (if trial then snd (give_back_attempt eid (fo_retry_count e + 1) W1) else W1)"
  using assms by (simp_all add: replay_acquired_def attempt_key_def Let_def)

text \<open>(C16) A recovery trial costs the entry none of its attempts unless the entry gets resolved, whatever the handler
  returns or raises and whatever the idempotency key says; and it sends the entry to review only if it was at its
  limit before.\<close>

theorem trial_costs_no_attempt:
  assumes "stored eid W = Some e" and "fo_id e = eid" and "entry = None \<or> entry = Some e"
    and "leaves_alone (get_replay_handler (fo_domain e) (cf_registry cf)) eid"
  shows "\<exists>u. stored eid (snd (execute_replay cf k eid trigger entry True W)) = Some u
    \<and> (fo_status u = RESOLVED
       \<or> fo_retry_count u = fo_retry_count e \<and> (fo_status u \<in> {fo_status e, REPLAYING} \<or> fo_max_retries e \<le> fo_retry_count e))"
proof -
  let ?h = "get_replay_handler (fo_domain e) (cf_registry cf)"
  show ?thesis
  proof (rule execute_cases [OF assms(1,3), of cf k trigger True], goal_cases)
    case 1
    then show ?thesis using assms(1) stored_unchanged [OF 1(1), of eid] by simp
  next
    case runs: 2
    obtain d n W1 where g: "replay_gate_check cf k (attempt_key eid e) (taken cf k eid W) = ((d, n), W1)" by (metis surj_pair)
    have W1: "stored eid W1 = Some (acquired (rc_now k) e)"
      using stored_frames(9) [of eid cf k "attempt_key eid e" "taken cf k eid W", unfolded g] runs(1,2)
      by (simp add: taken_def stored_acquire(2) [OF assms(1)])
    show ?thesis
    proof (cases d)
      case CONTINUE
      obtain out W2 where o: "hd_replay ?h (acquired (rc_now k) e) W1 = (out, W2)" by force
      then have "stored eid W2 = Some (acquired (rc_now k) e)" using assms(4) W1 by (metis leaves_alone_def snd_conv)
      from settle [OF this assms(2) g [unfolded CONTINUE] o, of trigger True] show ?thesis
        using runs(1,5) by (auto simp: charged_def settled_status_def)
    next
      case SKIP
      from stored_complete [OF W1, of "rc_now k" True "''duplicate_skip''" "[]" None "[]"] show ?thesis
        using runs(5) acquired_decides(1) [OF g SKIP] by (auto simp: completed_status_def)
    next
      case ABORT
      then show ?thesis
        using runs(5) acquired_decides(2) [OF g ABORT] stored_give_back(2) [OF W1, of eid] by simp
    qed
  qed
qed

theorem trial_costs_no_attempt_witness:
  "\<exists>u. stored ''1'' (snd (execute_replay (sample_config (sample_handler (Pair job_failed))) sample_call ''1'' AUTO_REPLAY_RECOVERY None True parked)) = Some u
    \<and> (fo_status u = RESOLVED \<or> fo_retry_count u = 0 \<and> fo_status u \<in> {PENDING, REPLAYING})"
proof -
  let ?cf = "sample_config (sample_handler (Pair job_failed))"
  have "leaves_alone (get_replay_handler (fo_domain sample_entry) (cf_registry ?cf)) ''1''"
    by (simp add: parked_entry sample_lookup leaves_alone_def)
  from trial_costs_no_attempt [OF parked_entry(1,2) _ this, of None sample_call AUTO_REPLAY_RECOVERY] show ?thesis
    by (simp add: parked_entry)
qed

section \<open>A failure that comes late\<close>

lemma foreign_give_back:
  assumes "stored eid W = Some u" and "fo_retry_count u \<noteq> n"
  shows "give_back_attempt eid n W = (False, W)"
  using assms by (simp add: stored_def give_back_attempt_def dlq_return_replay_attempt_def on_dlq_def)



end
