(* ===== verification/Replay_Sweep.thy ===== *)
theory Replay_Sweep
  imports Replay_Execute
begin

text \<open>
  The sweep that replays a domain's dead letters when its circuit closes (\<open>recovery_lanes\<close> and the methods around
  \<open>replay_on_circuit_close\<close> of \<open>services/replay_service/service.py\<close>): the lanes, the selection with its quotas and
  cursors, the pass with its deadline, and the lock that keeps one recovery per domain.
\<close>

section \<open>Lanes\<close>

definition OPEN_CIRCUIT_FAILURE_TYPE :: string where
  "OPEN_CIRCUIT_FAILURE_TYPE = ''CIRCUIT_BREAKER_OPEN''"

definition POLICY_CHAIN_CAPTURE_SOURCE :: string where
  "POLICY_CHAIN_CAPTURE_SOURCE = ''policy_chain''"

text \<open>Failure type, domain, capture source.\<close>

type_synonym lane = "string \<times> string option \<times> string option"

definition lane_key :: "string \<Rightarrow> string option \<Rightarrow> string" where
  "lane_key ft dm = ft @ ''|'' @ (case dm of None \<Rightarrow> [] | Some d \<Rightarrow> d)"

text \<open>\<open>list(dict.fromkeys(xs))\<close>, and appending what is not there yet.\<close>

definition add_new :: "'a \<Rightarrow> 'a list \<Rightarrow> 'a list" where
  "add_new x acc = (if x \<in> set acc then acc else acc @ [x])"

definition fromkeys :: "'a list \<Rightarrow> 'a list" where
  "fromkeys xs = fold add_new xs []"

definition strings_in :: "pyval list \<Rightarrow> string list" where
  "strings_in vs = List.map_filter (\<lambda>v. case v of PStr s \<Rightarrow> Some s | _ \<Rightarrow> None) vs"

text \<open>The types an operator mapped to the names that are stored as this domain; an entry that is no list is passed over.\<close>

definition add_mapped :: "string \<Rightarrow> string \<times> pyval \<Rightarrow> string list \<Rightarrow> string list" where
  "add_mapped dm x acc =
     (case snd x of
        PList vs \<Rightarrow> if resolve_stored_domain (PStr (fst x)) \<noteq> dm then acc else fold add_new (strings_in vs) acc
      | _ \<Rightarrow> acc)"

definition mapped_types :: "string \<Rightarrow> (string, pyval) dict \<Rightarrow> string list" where
  "mapped_types dm ftm = fold (add_mapped dm) ftm []"

definition recovery_lanes :: "registry \<Rightarrow> string \<Rightarrow> (string, pyval) dict \<Rightarrow> lane list" where
  "recovery_lanes rg dm ftm =
     (if dm = FALLBACK_DOMAIN \<or> \<not> has_replay_handler dm rg then []
      else
        let mapped = mapped_types dm ftm;
            declared = (case hd_failure_types (get_replay_handler dm rg) of None \<Rightarrow> [] | Some vs \<Rightarrow> vs)
        in map (\<lambda>ft. (ft, Some dm, None)) mapped
           @ map (\<lambda>ft. (ft, Some dm, None))
               (filter (\<lambda>ft. ft \<notin> set mapped \<and> ft \<noteq> OPEN_CIRCUIT_FAILURE_TYPE) (fromkeys (strings_in declared)))
           @ (if OPEN_CIRCUIT_FAILURE_TYPE \<notin> set mapped
              then [(OPEN_CIRCUIT_FAILURE_TYPE, Some dm, Some POLICY_CHAIN_CAPTURE_SOURCE)] else []))"

section \<open>Selection\<close>

record lane_selection =
  sl_selected :: "(string \<times> failed_op) list"
  sl_cursors :: "(string, position) dict"
  sl_scan_exhausted :: "string list"
  sl_capped :: bool

text \<open>The page selector of the repository, with the replay cap filled in.\<close>

type_synonym page_reader = "lane \<Rightarrow> int \<Rightarrow> position option \<Rightarrow> page"

definition lane_page :: "(string set \<Rightarrow> string list) \<Rightarrow> int \<Rightarrow> dlq \<Rightarrow> page_reader" where
  "lane_page it cap q = (\<lambda>(ft, dm, source) limit cursor. dlq_find_replayable_page it cap dm (Some ft) source limit cursor q)"

definition key_of :: "lane \<Rightarrow> string" where
  "key_of l = lane_key (fst l) (fst (snd l))"

definition fill_one_lane :: "page_reader \<Rightarrow> lane \<Rightarrow> int \<Rightarrow> lane_selection \<Rightarrow> int \<times> lane_selection" where
  "fill_one_lane read l quota sel =
     (let key = key_of l;
          pg = read l quota (dict_get (sl_cursors sel) key);
          s1 = (case pg_next_cursor pg of None \<Rightarrow> sel | Some c \<Rightarrow> sel\<lparr>sl_cursors := dict_set key c (sl_cursors sel)\<rparr>);
          s2 = (if pg_scan_exhausted pg \<and> key \<notin> set (sl_scan_exhausted s1)
                then s1\<lparr>sl_scan_exhausted := sl_scan_exhausted s1 @ [key]\<rparr> else s1);
          s3 = (if int (length (pg_entries pg)) = quota then s2\<lparr>sl_capped := True\<rparr> else s2)
      in (int (length (pg_entries pg)), s3\<lparr>sl_selected := sl_selected s3 @ map (Pair key) (pg_entries pg)\<rparr>))"

definition past_deadline :: "int option \<Rightarrow> int \<Rightarrow> bool" where
  "past_deadline deadline t = (case deadline of None \<Rightarrow> False | Some d \<Rightarrow> t \<ge> d)"

text \<open>The two rounds.  \<open>m i\<close> is what the monotonic clock shows before lane \<open>i\<close>.\<close>

fun fill_shares ::
    "page_reader \<Rightarrow> int option \<Rightarrow> (nat \<Rightarrow> int) \<Rightarrow> int \<Rightarrow> int \<Rightarrow> nat \<Rightarrow> lane list \<Rightarrow> lane_selection \<Rightarrow> int \<times> lane list \<times> lane_selection" where
  "fill_shares read deadline m base extra i [] sel = (0, [], sel)"
| "fill_shares read deadline m base extra i (l # ls) sel =
     (if past_deadline deadline (m i) then (0, [], sel\<lparr>sl_capped := True\<rparr>)
      else
        let quota = base + (if int i < extra then 1 else 0)
        in if quota \<le> 0 then (0, [], sel)
           else
             let (taken, s1) = fill_one_lane read l quota sel;
                 (used, filled, s2) = fill_shares read deadline m base extra (i + 1) ls s1
             in (taken + used, (if taken = quota then l # filled else filled), s2))"

fun fill_leftover ::
    "page_reader \<Rightarrow> int option \<Rightarrow> (nat \<Rightarrow> int) \<Rightarrow> nat \<Rightarrow> lane list \<Rightarrow> int \<Rightarrow> lane_selection \<Rightarrow> lane_selection" where
  "fill_leftover read deadline m i [] leftover sel = sel"
| "fill_leftover read deadline m i (l # ls) leftover sel =
     (if leftover \<le> 0 then sel
      else if past_deadline deadline (m i) then sel\<lparr>sl_capped := True\<rparr>
      else let (taken, s1) = fill_one_lane read l leftover sel
           in fill_leftover read deadline m (i + 1) ls (leftover - taken) s1)"

definition fill_circuit_close_lanes ::
    "page_reader \<Rightarrow> int option \<Rightarrow> (nat \<Rightarrow> int) \<Rightarrow> (nat \<Rightarrow> int) \<Rightarrow> lane list \<Rightarrow> int \<Rightarrow> (string, position) dict \<Rightarrow> lane_selection" where
  "fill_circuit_close_lanes read deadline m1 m2 lanes max_items cursors =
     (let n = int (length lanes);
          (used, filled, s1) = fill_shares read deadline m1 (max_items div n) (max_items mod n) 0 lanes
             \<lparr>sl_selected = [], sl_cursors = cursors, sl_scan_exhausted = [], sl_capped = False\<rparr>
      in fill_leftover read deadline m2 0 filled (max_items - used) s1)"

definition roll_back_lane_cursors :: "lane_selection \<Rightarrow> nat \<Rightarrow> (string, position) dict \<Rightarrow> (string, position) dict" where
  "roll_back_lane_cursors sel processed carried =
     (let kept = fold (\<lambda>(key, c) d. if key \<notin> fst ` set (sl_selected sel) then dict_set key c d else d) (sl_cursors sel) carried
      in fold (\<lambda>(key, e) d. case fo_created_at e of
                 None \<Rightarrow> d
               | Some t \<Rightarrow> dict_set key (replay_cursor_position t (fo_id e)) d) (take processed (sl_selected sel)) kept)"

section \<open>A pass\<close>

text \<open>What a pass reads from outside: the monotonic clock before a lane of either round, before an entry and after
  its replay; whether something inside the replay noted that the deadline ended it; and the readings of each replay.\<close>

record pass_clock =
  pk_fill :: "nat \<Rightarrow> int"
  pk_refill :: "nat \<Rightarrow> int"
  pk_before :: "nat \<Rightarrow> int"
  pk_after :: "nat \<Rightarrow> int"
  pk_stopped :: "nat \<Rightarrow> bool"
  pk_call :: "nat \<Rightarrow> replay_call"

definition stop_pass_at ::
    "lane_selection \<Rightarrow> nat \<Rightarrow> (string, position) dict \<Rightarrow> string option \<Rightarrow> bool \<Rightarrow> batch_replay_result \<Rightarrow> batch_replay_result" where
  "stop_pass_at sel processed carried cut_id refused b =
     b\<lparr>br_capped := True, br_total := processed, br_lane_cursors := roll_back_lane_cursors sel processed carried,
       br_deadline_cut_dlq_id := cut_id, br_ended_by_breaker_refusal := refused\<rparr>"

definition execute_replay_within ::
    "replay_config \<Rightarrow> replay_call \<Rightarrow> string \<Rightarrow> int option \<Rightarrow> bool \<Rightarrow> int \<Rightarrow> string \<Rightarrow> failed_op option \<Rightarrow> bool \<Rightarrow> stores
       \<Rightarrow> (replay_result \<times> bool) \<times> stores" where
  "execute_replay_within cf k eid deadline stopped after trigger entry trial W =
     (let (r, W1) = execute_replay cf k eid trigger entry trial W
      in ((r, deadline \<noteq> None \<and> \<not> rr_success r \<and> (stopped \<or> past_deadline deadline after)), W1))"

text \<open>Counting a result.\<close>

definition add_result :: "replay_result \<Rightarrow> batch_replay_result \<Rightarrow> batch_replay_result" where
  "add_result r b =
     (let b1 = b\<lparr>br_results := br_results b @ [r]\<rparr>
      in if rr_skipped r then b1\<lparr>br_skipped_count := br_skipped_count b + 1\<rparr>
         else if rr_success r then b1\<lparr>br_success_count := br_success_count b + 1\<rparr>
         else b1\<lparr>br_failed_count := br_failed_count b + 1\<rparr>)"

definition escalate :: "instant \<Rightarrow> string \<Rightarrow> string \<Rightarrow> replay_result \<Rightarrow> stores \<Rightarrow> stores" where
  "escalate now sn eid r W =
     (case dlq_get_by_id eid (st_dlq W) of
        Some e \<Rightarrow>
          if fo_status e = PENDING
          then snd (on_dlq (dlq_update_status now eid REQUIRES_REVIEW \<lparr>rs_type = [],
                 rs_note = ''Conditional replay failed after circuit close for '' @ sn @ '': ''
                           @ (case rr_error r of None \<Rightarrow> ''None'' | Some s \<Rightarrow> s),
                 rs_by = None, rs_action = ''escalate''\<rparr>) W)
          else W
      | None \<Rightarrow> W)"

text \<open>The loop over the selected entries, from entry \<open>i\<close> on.\<close>

fun sweep_entries ::
    "replay_config \<Rightarrow> pass_clock \<Rightarrow> int option \<Rightarrow> string \<Rightarrow> string \<Rightarrow> bool \<Rightarrow> lane_selection \<Rightarrow> (string, position) dict
       \<Rightarrow> nat \<Rightarrow> (string \<times> failed_op) list \<Rightarrow> batch_replay_result \<Rightarrow> stores \<Rightarrow> batch_replay_result \<times> stores" where
  "sweep_entries cf pk deadline trigger sn esc sel carried i [] b W = (b, W)"
| "sweep_entries cf pk deadline trigger sn esc sel carried i ((key, e) # es) b W =
     (if past_deadline deadline (pk_before pk i) then (stop_pass_at sel i carried None False b, W)
      else
        let ((r, was_cut), W1) = execute_replay_within cf (pk_call pk i) (fo_id e) deadline (pk_stopped pk i) (pk_after pk i) trigger (Some e) False W
        in if was_cut then (stop_pass_at sel i carried (Some (fo_id e)) False b, W1)
           else if skip_reason r = Some REASON_BREAKER_REFUSED
           then (stop_pass_at sel i carried (Some (fo_id e)) True b, W1)
           else sweep_entries cf pk deadline trigger sn esc sel carried (i + 1) es (add_result r b)
                  (if \<not> rr_skipped r \<and> \<not> rr_success r \<and> esc \<and> rr_handler_ran r
                   then escalate (rc_done (pk_call pk i)) sn (fo_id e) r W1 else W1))"

definition record_batch_completion :: "string \<Rightarrow> batch_replay_result \<Rightarrow> stores \<Rightarrow> stores" where
  "record_batch_completion dm b W =
     (if br_total b = 0 then W
      else emit (DLQ_REPLAY_BATCH_COMPLETED dm (br_total b) (br_success_count b) (br_failed_count b) (br_capped b)) W)"

section \<open>Parked work\<close>

definition REASON_NO_REPLAY_HANDLER :: string where
  "REASON_NO_REPLAY_HANDLER = ''no_replay_handler_registered''"

definition REASON_DOMAIN_NOT_ADDRESSABLE :: string where
  "REASON_DOMAIN_NOT_ADDRESSABLE = ''domain_not_addressable''"

definition parked_count_for_recovery :: "string \<Rightarrow> stores \<Rightarrow> nat option" where
  "parked_count_for_recovery sn W =
     (let dm = resolve_stored_domain (PStr sn)
      in if dm = FALLBACK_DOMAIN then None else Some (dlq_get_pending_count_by_domain dm (st_dlq W)))"

definition recovery_is_idle :: "registry \<Rightarrow> (string, pyval) dict \<Rightarrow> string \<Rightarrow> stores \<Rightarrow> bool" where
  "recovery_is_idle rg ftm sn W \<longleftrightarrow>
     recovery_lanes rg (resolve_stored_domain (PStr sn)) ftm = [] \<and> parked_count_for_recovery sn W = Some 0"

definition end_recovery_with_no_lane :: "string \<Rightarrow> stores \<Rightarrow> batch_replay_result \<times> stores" where
  "end_recovery_with_no_lane sn W =
     (let dm = resolve_stored_domain (PStr sn)
      in if parked_count_for_recovery sn W = Some 0 then (new_batch_result, W)
         else (new_batch_result, emit (DLQ_REPLAY_BLOCKED None (Some
                (if dm = FALLBACK_DOMAIN then REASON_DOMAIN_NOT_ADDRESSABLE else REASON_NO_REPLAY_HANDLER))) W))"

section \<open>The sweep\<close>

definition rotate_lanes :: "nat \<Rightarrow> lane list \<Rightarrow> lane list" where
  "rotate_lanes continuation lanes = (let r = continuation mod length lanes in drop r lanes @ take r lanes)"

definition replay_on_circuit_close_locked ::
    "replay_config \<Rightarrow> (string set \<Rightarrow> string list) \<Rightarrow> pass_clock \<Rightarrow> governance_result \<Rightarrow> (string, pyval) dict \<Rightarrow> string \<Rightarrow> int
       \<Rightarrow> bool \<Rightarrow> int option \<Rightarrow> (string, position) dict \<Rightarrow> nat \<Rightarrow> string \<Rightarrow> stores \<Rightarrow> batch_replay_result \<times> stores" where
  "replay_on_circuit_close_locked cf it pk gov ftm sn max_items esc deadline cursors continuation trigger W =
     (let lanes = recovery_lanes (cf_registry cf) (resolve_stored_domain (PStr sn)) ftm
      in if lanes = [] then end_recovery_with_no_lane sn W
         else if \<not> gv_allowed gov
         then (new_batch_result\<lparr>br_governance_blocked := True, br_governance_block_reason := gv_block_message gov\<rparr>,
               emit (DLQ_REPLAY_BLOCKED None (gv_block_reason gov)) W)
         else
           let sel = fill_circuit_close_lanes (lane_page it (cf_max_replay_attempts cf) (st_dlq W)) deadline (pk_fill pk) (pk_refill pk)
                       (rotate_lanes continuation lanes) max_items cursors;
               b = new_batch_result\<lparr>br_total := length (sl_selected sel), br_capped := sl_capped sel,
                      br_lane_cursors := sl_cursors sel, br_scan_exhausted_lanes := sl_scan_exhausted sel\<rparr>;
               (b1, W1) = sweep_entries cf pk deadline trigger sn esc sel cursors 0 (sl_selected sel) b W
           in (b1, record_batch_completion sn b1 W1))"

definition recovery_lock_subject :: "string \<Rightarrow> string" where
  "recovery_lock_subject sn =
     (let dm = resolve_stored_domain (PStr sn) in if dm = FALLBACK_DOMAIN then sn else dm)"

definition replay_inflight_lock_name :: "string \<Rightarrow> string" where
  "replay_inflight_lock_name subject = ''replay:inflight:circuit_close:'' @ subject"

datatype lock_state = RECOVERY_LOCK_ACQUIRED | RECOVERY_LOCK_HELD | RECOVERY_LOCK_UNAVAILABLE

text \<open>\<open>owner\<close> is the fresh owner id of the lock object, \<open>ttl\<close> the setting \<open>circuit_close_inflight_ttl_seconds\<close>.\<close>

definition try_acquire_recovery_lock :: "instant \<Rightarrow> string \<Rightarrow> int \<Rightarrow> string \<Rightarrow> stores \<Rightarrow> lock_state \<times> stores" where
  "try_acquire_recovery_lock now owner ttl subject W =
     (if st_cache W = None then (RECOVERY_LOCK_UNAVAILABLE, W)
      else let (ok, ls) = lock_acquire now (replay_inflight_lock_name subject) owner (seconds ttl) (st_locks W)
           in (if ok then RECOVERY_LOCK_ACQUIRED else RECOVERY_LOCK_HELD, W\<lparr>st_locks := ls\<rparr>))"

definition release_recovery_lock :: "lock_state \<Rightarrow> string \<Rightarrow> string \<Rightarrow> stores \<Rightarrow> stores" where
  "release_recovery_lock st owner subject W =
     (if st = RECOVERY_LOCK_ACQUIRED
      then W\<lparr>st_locks := lock_release (replay_inflight_lock_name subject) owner (st_locks W)\<rparr> else W)"

definition replay_on_circuit_close ::
    "replay_config \<Rightarrow> (string set \<Rightarrow> string list) \<Rightarrow> pass_clock \<Rightarrow> governance_result \<Rightarrow> (string, pyval) dict \<Rightarrow> instant \<Rightarrow> string \<Rightarrow> int
       \<Rightarrow> string \<Rightarrow> int \<Rightarrow> bool \<Rightarrow> int option \<Rightarrow> (string, position) dict \<Rightarrow> nat \<Rightarrow> string \<Rightarrow> stores \<Rightarrow> batch_replay_result \<times> stores" where
  "replay_on_circuit_close cf it pk gov ftm now owner ttl sn max_items esc deadline cursors continuation trigger W =
     (let subject = recovery_lock_subject sn;
          (st, W1) = try_acquire_recovery_lock now owner ttl subject W
      in if st = RECOVERY_LOCK_HELD then (new_batch_result\<lparr>br_inflight_skipped := True\<rparr>, W1)
         else let (b, W2) = replay_on_circuit_close_locked cf it pk gov ftm sn max_items esc deadline cursors continuation trigger W1
              in (b, release_recovery_lock st owner subject W2))"

section \<open>The lanes of a recovery\<close>

lemma set_add_new [simp]: "set (add_new x acc) = insert x (set acc)"
  by (auto simp: add_new_def)

lemma distinct_add_new [simp]: "distinct acc \<Longrightarrow> distinct (add_new x acc)"
  by (simp add: add_new_def)

lemma distinct_fold_add_new [simp]: "distinct acc \<Longrightarrow> distinct (fold add_new xs acc)"
  by (induction xs arbitrary: acc) simp_all

lemma distinct_fromkeys [simp]: "distinct (fromkeys xs)"
  by (simp add: fromkeys_def)

lemma distinct_mapped_types: "distinct (mapped_types dm ftm)"
proof -
  have "distinct (add_mapped dm x acc)" if "distinct acc" for x acc
    using that by (cases "snd x") (simp_all add: add_mapped_def)
  then have "distinct acc \<Longrightarrow> distinct (fold (add_mapped dm) ftm acc)" for acc
    by (induction ftm arbitrary: acc) simp_all
  then show ?thesis by (simp add: mapped_types_def)
qed

text \<open>No two lanes of a recovery share a cursor.\<close>

lemma lane_keys_distinct: "distinct (map key_of (recovery_lanes rg dm ftm))"
proof -
  have "inj_on key_of {l. fst (snd l) = Some dm \<and> l \<in> set (recovery_lanes rg dm ftm)}"
    by (auto simp: inj_on_def key_of_def lane_key_def recovery_lanes_def Let_def split: if_splits)
  moreover have "distinct (recovery_lanes rg dm ftm)"
    by (auto simp: recovery_lanes_def Let_def distinct_map inj_on_def distinct_mapped_types)
  moreover have "{l. fst (snd l) = Some dm \<and> l \<in> set (recovery_lanes rg dm ftm)} = set (recovery_lanes rg dm ftm)"
    by (auto simp: recovery_lanes_def Let_def split: if_splits)
  ultimately show ?thesis by (simp add: distinct_map)
qed

lemma rotate_lanes_perm: "mset (rotate_lanes n ls) = mset ls"
  unfolding rotate_lanes_def Let_def by (metis append_take_drop_id mset_append union_commute)

section \<open>Filling the lanes\<close>

text \<open>What the selection relies on: a page is the next slice of the lane's pool past the cursor, and its cursor leads to
  the rest.\<close>

locale lane_pages =
  fixes read :: page_reader and pool :: "lane \<Rightarrow> (position \<times> failed_op) list"
  assumes entries: "0 < n \<Longrightarrow> pg_entries (read l n c) = map snd (take (nat n) (filter (past c \<circ> fst) (pool l)))"
    and at_end: "0 < n \<Longrightarrow> pg_next_cursor (read l n c) = None \<Longrightarrow> filter (past c \<circ> fst) (pool l) = []"
    and follows: "0 < n \<Longrightarrow> pg_next_cursor (read l n c) = Some p \<Longrightarrow>
        filter (past (Some p) \<circ> fst) (pool l) = drop (nat n) (filter (past c \<circ> fst) (pool l))"
    and not_exhausted: "\<not> pg_scan_exhausted (read l n c)"
    and sorted_pool: "sorted (map fst (pool l))"
    and distinct_pool: "distinct (map fst (pool l))"
    and positions: "(p, e) \<in> set (pool l) \<Longrightarrow> \<exists>t. fo_created_at e = Some t \<and> p = replay_cursor_position t (fo_id e)"

text \<open>What a lane still has ahead of it, by the pool and the cursors; and what a selection took from it.\<close>

definition ahead :: "(lane \<Rightarrow> (position \<times> failed_op) list) \<Rightarrow> (string, position) dict \<Rightarrow> lane \<Rightarrow> (position \<times> failed_op) list" where
  "ahead pool cursors l = filter (past (dict_get cursors (key_of l)) \<circ> fst) (pool l)"

definition picks :: "lane \<Rightarrow> (string \<times> failed_op) list \<Rightarrow> failed_op list" where
  "picks l sel = map snd (filter (\<lambda>x. fst x = key_of l) sel)"

lemma picks_append [simp]: "picks l (xs @ ys) = picks l xs @ picks l ys"
  by (simp add: picks_def)

lemma picks_pairs: "picks l (map (Pair key) es) = (if key = key_of l then es else [])"
  by (induction es) (auto simp: picks_def)

lemma past_nth:
  assumes "sorted (map fst P)" and "distinct (map fst P)" and "i < length (filter (past c \<circ> fst) P)"
  shows "filter (past (Some (fst (filter (past c \<circ> fst) P ! i))) \<circ> fst) P = drop (Suc i) (filter (past c \<circ> fst) P)"
proof -
  let ?A = "filter (past c \<circ> fst) P"
  have "filter (past (Some (fst (?A ! i))) \<circ> fst) P = filter (\<lambda>x. \<not> fst x \<le> fst (?A ! i)) ?A"
    unfolding filter_filter
  proof (rule filter_cong [OF refl])
    fix x
    have "past c (fst (?A ! i))" using nth_mem [OF assms(3)] by simp
    then show "(past (Some (fst (?A ! i))) \<circ> fst) x = ((past c \<circ> fst) x \<and> \<not> fst x \<le> fst (?A ! i))"
      by (cases c) (auto simp: past_def)
  qed
  also have "\<dots> = drop (Suc i) ?A"
    using sorted_split [OF _ _ assms(3)] assms(1,2) by (simp add: sorted_filter distinct_map_filter)
  finally show ?thesis .
qed

text \<open>Reading the two loops of the roll-back.\<close>

lemma kept_get:
  "dict_wf cur \<Longrightarrow> dict_get (fold (\<lambda>(k, c) d. if k \<notin> K then dict_set k c d else d) cur C) key =
     (if key \<in> K \<or> dict_get cur key = None then dict_get C key else dict_get cur key)"
proof (induction cur arbitrary: C)
  case (Cons x cur)
  obtain k c where x: "x = (k, c)" by force
  have "dict_wf cur" and "dict_get cur k = None" using Cons.prems by (auto simp: x dict_wf_Cons map_of_eq_None_iff)
  then show ?case using Cons.IH by (auto simp: x dict_simps)
qed simp

lemma processed_get:
  assumes "\<forall>(k, e) \<in> set xs. k = key \<longrightarrow> fo_created_at e \<noteq> None"
  shows "dict_get (fold (\<lambda>(k, e) d. case fo_created_at e of None \<Rightarrow> d
             | Some t \<Rightarrow> dict_set k (replay_cursor_position t (fo_id e)) d) xs D) key =
    (case rev (filter (\<lambda>x. fst x = key) xs) of
       [] \<Rightarrow> dict_get D key
     | x # _ \<Rightarrow> Some (replay_cursor_position (the (fo_created_at (snd x))) (fo_id (snd x))))"
  using assms
proof (induction xs rule: rev_induct)
  case (snoc x xs)
  obtain k e where x: "x = (k, e)" by force
  then show ?case using snoc by (auto simp: dict_simps split: option.split)
qed simp

context lane_pages
begin

lemma fill_one:
  fixes sel :: lane_selection and l :: lane
  assumes "0 < quota"
  defines "x \<equiv> fill_one_lane read l quota sel" and "R \<equiv> ahead pool (sl_cursors sel) l"
  shows "fst x = min quota (int (length R))"
    and "sl_selected (snd x) = sl_selected sel @ map (Pair (key_of l)) (map snd (take (nat quota) R))"
    and "ahead pool (sl_cursors (snd x)) l = drop (nat quota) R"
    and "key_of l' \<noteq> key_of l \<Longrightarrow> ahead pool (sl_cursors (snd x)) l' = ahead pool (sl_cursors sel) l'"
    and "sl_capped (snd x) \<longleftrightarrow> sl_capped sel \<or> quota \<le> int (length R)"
proof -
  let ?c = "dict_get (sl_cursors sel) (key_of l)"
  have e: "pg_entries (read l quota ?c) = map snd (take (nat quota) R)"
    using entries [OF assms(1)] by (simp add: R_def ahead_def)
  have len: "int (length (pg_entries (read l quota ?c))) = min quota (int (length R))" using assms(1) by (simp add: e)
  show "fst x = min quota (int (length R))" by (simp add: x_def fill_one_lane_def Let_def len)
  show "sl_selected (snd x) = sl_selected sel @ map (Pair (key_of l)) (map snd (take (nat quota) R))"
    by (simp add: x_def fill_one_lane_def Let_def e not_exhausted split: option.split)
  show "sl_capped (snd x) \<longleftrightarrow> sl_capped sel \<or> quota \<le> int (length R)"
    using len by (simp add: x_def fill_one_lane_def Let_def not_exhausted split: option.split) linarith
  have cur: "sl_cursors (snd x) = (case pg_next_cursor (read l quota ?c) of None \<Rightarrow> sl_cursors sel
      | Some c \<Rightarrow> dict_set (key_of l) c (sl_cursors sel))"
    by (simp add: x_def fill_one_lane_def Let_def not_exhausted split: option.split)
  show "ahead pool (sl_cursors (snd x)) l = drop (nat quota) R"
  proof (cases "pg_next_cursor (read l quota ?c)")
    case None
    have "R = []" unfolding R_def ahead_def by (rule at_end [OF assms(1) None])
    moreover have "ahead pool (sl_cursors (snd x)) l = R" by (simp add: cur None R_def)
    ultimately show ?thesis by simp
  next
    case (Some p)
    then show ?thesis using follows [OF assms(1) Some] by (simp add: cur ahead_def R_def dict_simps)
  qed
  show "key_of l' \<noteq> key_of l \<Longrightarrow> ahead pool (sl_cursors (snd x)) l' = ahead pool (sl_cursors sel) l'"
    by (simp add: cur ahead_def dict_simps split: option.split)
qed

lemma fill_one_picks:
  assumes "0 < quota"
  shows "picks l' (sl_selected (snd (fill_one_lane read l quota sel))) =
    picks l' (sl_selected sel) @ (if key_of l = key_of l' then map snd (take (nat quota) (ahead pool (sl_cursors sel) l)) else [])"
  by (simp only: fill_one(2) [OF assms] picks_append picks_pairs)

text \<open>How far a selection is in a lane: it took the first entries that were ahead of the cursors \<open>C\<close>, and the rest is still ahead.\<close>

definition in_step :: "(string, position) dict \<Rightarrow> lane_selection \<Rightarrow> lane \<Rightarrow> bool" where
  "in_step C sel l \<longleftrightarrow>
     (let n = length (picks l (sl_selected sel))
      in picks l (sl_selected sel) = map snd (take n (ahead pool C l)) \<and> ahead pool (sl_cursors sel) l = drop n (ahead pool C l))"

lemma in_step_fill_one:
  assumes "0 < quota" and "in_step C sel l'" and "key_of l = key_of l' \<Longrightarrow> l = l'"
  shows "in_step C (snd (fill_one_lane read l quota sel)) l'"
proof (cases "key_of l = key_of l'")
  case True
  then have l: "l = l'" by (rule assms(3))
  let ?A = "ahead pool C l'"
  let ?n = "length (picks l' (sl_selected sel))"
  define m where "m = length (take (nat quota) (drop ?n ?A))"
  have s: "picks l' (sl_selected sel) = map snd (take ?n ?A)" "ahead pool (sl_cursors sel) l' = drop ?n ?A"
    using assms(2) by (simp_all add: in_step_def Let_def)
  have t: "take (nat quota) (drop ?n ?A) = take m (drop ?n ?A)" by (simp add: m_def min_def)
  have "picks l' (sl_selected (snd (fill_one_lane read l quota sel))) = map snd (take ?n ?A) @ map snd (take (nat quota) (drop ?n ?A))"
    using fill_one_picks [OF assms(1), of l' l sel] s by (simp add: l)
  also have "\<dots> = map snd (take (?n + m) ?A)"
    using t by (simp only: take_add map_append)
  finally have p: "picks l' (sl_selected (snd (fill_one_lane read l quota sel))) = map snd (take (?n + m) ?A)" .
  have le: "?n \<le> length ?A" using s(1) by (metis length_map length_take min.cobounded1)
  then have "length (picks l' (sl_selected (snd (fill_one_lane read l quota sel)))) = ?n + m"
    unfolding p by (auto simp: m_def)
  moreover have "ahead pool (sl_cursors (snd (fill_one_lane read l quota sel))) l' = drop (?n + m) ?A"
    using fill_one(3) [OF assms(1), of l sel] s(2) by (simp add: l m_def add.commute min_def)
  ultimately show ?thesis using p by (simp add: in_step_def Let_def)
next
  case False
  then show ?thesis
    using assms(2) fill_one_picks [OF assms(1), of l' l sel] fill_one(4) [OF assms(1), of l' l sel] by (simp add: in_step_def)
qed

lemma in_step_shares:
  assumes "in_step C sel l'" and "\<forall>l \<in> set ls. key_of l = key_of l' \<longrightarrow> l = l'"
  shows "in_step C (snd (snd (fill_shares read deadline m base extra i ls sel))) l'"
  using assms
proof (induction ls arbitrary: i sel)
  case (Cons l ls)
  have capped: "in_step C (sel\<lparr>sl_capped := True\<rparr>) l'" using Cons.prems(1) by (simp add: in_step_def)
  show ?case
  proof (cases "past_deadline deadline (m i) \<or> base + (if int i < extra then 1 else 0) \<le> 0")
    case True
    then show ?thesis using capped Cons.prems(1) by auto
  next
    case False
    then have "in_step C (snd (fill_one_lane read l (base + (if int i < extra then 1 else 0)) sel)) l'"
      using Cons.prems in_step_fill_one by simp
    from Cons.IH [OF this] Cons.prems(2) False show ?thesis by (simp add: Let_def split_beta)
  qed
qed simp

lemma in_step_leftover:
  assumes "in_step C sel l'" and "\<forall>l \<in> set ls. key_of l = key_of l' \<longrightarrow> l = l'"
  shows "in_step C (fill_leftover read deadline m i ls leftover sel) l'"
  using assms
proof (induction ls arbitrary: i leftover sel)
  case (Cons l ls)
  have capped: "in_step C (sel\<lparr>sl_capped := True\<rparr>) l'" using Cons.prems(1) by (simp add: in_step_def)
  show ?case
  proof (cases "leftover \<le> 0 \<or> past_deadline deadline (m i)")
    case True
    then show ?thesis using capped Cons.prems(1) by auto
  next
    case False
    then have "in_step C (snd (fill_one_lane read l leftover sel)) l'"
      using Cons.prems in_step_fill_one by simp
    from Cons.IH [OF this] Cons.prems(2) False show ?thesis by (simp add: Let_def split_beta)
  qed
qed simp

lemma filled_subset: "set (fst (snd (fill_shares read deadline m base extra i ls sel))) \<subseteq> set ls"
  by (induction ls arbitrary: i sel) (auto simp: Let_def split_beta)

lemma filled_distinct: "distinct (map key_of ls) \<Longrightarrow> distinct (map key_of (fst (snd (fill_shares read deadline m base extra i ls sel))))"
proof (induction ls arbitrary: i sel)
  case (Cons l ls)
  have "key_of l \<notin> key_of ` set (fst (snd (fill_shares read deadline m base extra j ls s)))" for j s
    using filled_subset [of deadline m base extra j ls s] Cons.prems by auto
  then show ?case using Cons by (simp add: Let_def split_beta)
qed simp

lemma in_step_fill:
  assumes "l \<in> set ls" and "distinct (map key_of ls)"
  shows "in_step C (fill_circuit_close_lanes read deadline m1 m2 ls max_items C) l"
proof -
  have inj: "\<forall>l' \<in> set ls. key_of l' = key_of l \<longrightarrow> l' = l" using assms by (auto simp: distinct_map inj_on_def)
  have start: "in_step C \<lparr>sl_selected = [], sl_cursors = C, sl_scan_exhausted = [], sl_capped = False\<rparr> l"
    by (simp add: in_step_def picks_def)
  show ?thesis
    unfolding fill_circuit_close_lanes_def Let_def split_beta
    using inj filled_subset by (intro in_step_leftover in_step_shares start) blast+
qed

lemma in_step_prefix:
  assumes "in_step C sel l"
  shows "picks l (take p (sl_selected sel)) = map snd (take (length (picks l (take p (sl_selected sel)))) (ahead pool C l))"
    and "length (picks l (take p (sl_selected sel))) \<le> length (picks l (sl_selected sel))"
    and "length (picks l (sl_selected sel)) \<le> length (ahead pool C l)"
proof -
  define n where "n = length (picks l (sl_selected sel))"
  define c where "c = length (picks l (take p (sl_selected sel)))"
  have step: "picks l (sl_selected sel) = map snd (take n (ahead pool C l))"
    using assms by (simp add: in_step_def Let_def n_def)
  have split: "picks l (sl_selected sel) = picks l (take p (sl_selected sel)) @ picks l (drop p (sl_selected sel))"
    by (simp flip: picks_append)
  show le: "c \<le> n" "n \<le> length (ahead pool C l)"
    using arg_cong [OF split, of length] arg_cong [OF step, of length] by (simp_all add: c_def flip: n_def)
  show "picks l (take p (sl_selected sel)) = map snd (take c (ahead pool C l))"
    using arg_cong [OF split, of "take c"] step le by (simp add: c_def take_map min_absorb1)
qed

lemma roll_back_ahead:
  assumes "in_step C sel l" and "dict_wf (sl_cursors sel)"
  shows "ahead pool (roll_back_lane_cursors sel p C) l = drop (length (picks l (take p (sl_selected sel)))) (ahead pool C l)"
proof -
  define A where "A = ahead pool C l"
  define xs where "xs = take p (sl_selected sel)"
  define c where "c = length (picks l xs)"
  define n where "n = length (picks l (sl_selected sel))"
  have step: "picks l (sl_selected sel) = map snd (take n A)" "ahead pool (sl_cursors sel) l = drop n A"
    using assms(1) by (simp_all add: in_step_def Let_def n_def A_def)
  have le: "c \<le> n" "n \<le> length A" and pick: "picks l xs = map snd (take c A)"
    using in_step_prefix(1,2) [OF assms(1), of p] in_step_prefix(3) [OF assms(1)] by (simp_all add: c_def n_def A_def xs_def)
  have created: "fo_created_at (snd x) = Some (fst (fst x)) \<and> fst x = replay_cursor_position (fst (fst x)) (fo_id (snd x))" if "x \<in> set A" for x
    using positions [of "fst x" "snd x" l] that by (auto simp: A_def ahead_def replay_cursor_position_def)
  define rolled where "rolled = roll_back_lane_cursors sel p C"
  have "fo_created_at e \<noteq> None" if "(key_of l, e) \<in> set xs" for e
  proof -
    have "e \<in> set (picks l xs)" using that by (force simp: picks_def)
    then show ?thesis using pick created by (auto dest!: in_set_takeD)
  qed
  then have "\<forall>(k, e) \<in> set xs. k = key_of l \<longrightarrow> fo_created_at e \<noteq> None" by blast
  note get = processed_get [OF this]
  show ?thesis
  proof (cases "c = 0")
    case True
    then have none: "filter (\<lambda>x. fst x = key_of l) xs = []" by (simp add: c_def picks_def)
    have "dict_get rolled (key_of l) = (if key_of l \<in> fst ` set (sl_selected sel) \<or> dict_get (sl_cursors sel) (key_of l) = None
        then dict_get C (key_of l) else dict_get (sl_cursors sel) (key_of l))"
      unfolding rolled_def roll_back_lane_cursors_def Let_def xs_def [symmetric] get none by (simp add: kept_get [OF assms(2)])
    moreover have "n = 0" if "key_of l \<notin> fst ` set (sl_selected sel)"
      using that by (auto simp: n_def picks_def filter_empty_conv image_iff)
    ultimately have "ahead pool rolled l = A"
      using step(2) by (auto simp: ahead_def A_def split: if_splits)
    then show ?thesis using True by (simp add: rolled_def A_def c_def xs_def)
  next
    case False
    then have "filter (\<lambda>x. fst x = key_of l) xs \<noteq> []" by (auto simp: c_def picks_def)
    moreover have "snd (last (filter (\<lambda>x. fst x = key_of l) xs)) = last (picks l xs)"
      using calculation by (simp add: picks_def last_map)
    moreover have "last (picks l xs) = snd (A ! (c - 1))"
      using False le by (subst pick, subst last_conv_nth) (auto simp: min_absorb1)
    moreover have "A ! (c - 1) \<in> set A" using False le by (intro nth_mem) linarith
    note at = created [OF this]
    ultimately have "dict_get rolled (key_of l) = Some (fst (A ! (c - 1)))"
      unfolding rolled_def roll_back_lane_cursors_def Let_def xs_def [symmetric] get
      using at by (cases "rev (filter (\<lambda>x. fst x = key_of l) xs)") (simp_all add: last_snoc rev_eq_Cons_iff)
    moreover have "c - 1 < length (filter (past (dict_get C (key_of l)) \<circ> fst) (pool l))"
      using False le by (simp add: A_def ahead_def)
    note past_nth [OF sorted_pool distinct_pool this]
    ultimately have "ahead pool rolled l = drop c A" using False by (simp add: ahead_def A_def)
    then show ?thesis by (simp add: rolled_def A_def c_def xs_def)
  qed
qed

text \<open>How many entries a pass without a deadline takes.\<close>

definition waiting :: "(string, position) dict \<Rightarrow> lane list \<Rightarrow> int" where
  "waiting C ls = (\<Sum>l \<leftarrow> ls. int (length (ahead pool C l)))"

lemma waiting_other:
  assumes "0 < quota" and "key_of l \<notin> key_of ` set ls"
  shows "waiting (sl_cursors (snd (fill_one_lane read l quota sel))) ls = waiting (sl_cursors sel) ls"
proof -
  have "ahead pool (sl_cursors (snd (fill_one_lane read l quota sel))) l' = ahead pool (sl_cursors sel) l'" if "l' \<in> set ls" for l'
    using fill_one(4) [OF assms(1), of l' l sel] assms(2) that by (metis imageI)
  then show ?thesis by (simp add: waiting_def cong: map_cong)
qed

lemma ahead_shares_other:
  assumes "0 < base" and "key_of l' \<notin> key_of ` set ls"
  shows "ahead pool (sl_cursors (snd (snd (fill_shares read None m base extra i ls sel)))) l' = ahead pool (sl_cursors sel) l'"
  using assms(2)
proof (induction ls arbitrary: i sel)
  case (Cons l ls)
  have "0 < base + (if int i < extra then 1 else 0)" using assms(1) by simp
  then show ?case
    using Cons fill_one(4) [of "base + (if int i < extra then 1 else 0)" l' l sel] by (auto simp: past_deadline_def Let_def split_beta)
qed simp

lemma shares_count:
  fixes sel :: lane_selection and i :: nat and extra :: int and m :: "nat \<Rightarrow> int"
  assumes "0 < base" and "distinct (map key_of ls)"
  defines "x \<equiv> fill_shares read None m base extra i ls sel"
  shows "int (length (sl_selected (snd (snd x)))) = int (length (sl_selected sel)) + fst x
    \<and> waiting (sl_cursors sel) ls = fst x + waiting (sl_cursors (snd (snd x))) (fst (snd x))
    \<and> fst x \<le> (\<Sum>j \<leftarrow> [i..<i + length ls]. base + (if int j < extra then 1 else 0))"
  using assms(2) unfolding x_def
proof (induction ls arbitrary: i sel)
  case (Cons l ls)
  define quota where "quota = base + (if int i < extra then 1 else 0)"
  define s1 where "s1 = snd (fill_one_lane read l quota sel)"
  define R where "R = ahead pool (sl_cursors sel) l"
  define y where "y = fill_shares read None m base extra (i + 1) ls s1"
  have q: "0 < quota" using assms(1) by (simp add: quota_def)
  have one: "fst (fill_one_lane read l quota sel) = min quota (int (length R))"
      "int (length (sl_selected s1)) = int (length (sl_selected sel)) + min quota (int (length R))"
      "ahead pool (sl_cursors s1) l = drop (nat quota) R"
    using fill_one(1-3) [OF q, of l sel] q by (simp_all add: s1_def R_def)
  have k: "key_of l \<notin> key_of ` set ls" using Cons.prems by simp
  have IH: "int (length (sl_selected (snd (snd y)))) = int (length (sl_selected s1)) + fst y"
      "waiting (sl_cursors s1) ls = fst y + waiting (sl_cursors (snd (snd y))) (fst (snd y))"
      "fst y \<le> (\<Sum>j \<leftarrow> [i + 1..<i + 1 + length ls]. base + (if int j < extra then 1 else 0))"
    using Cons.IH [of "i + 1" s1] Cons.prems by (simp_all add: y_def)
  have x: "fill_shares read None m base extra i (l # ls) sel =
      (min quota (int (length R)) + fst y, (if min quota (int (length R)) = quota then l # fst (snd y) else fst (snd y)), snd (snd y))"
    using q one(1) by (simp add: past_deadline_def Let_def split_beta y_def s1_def flip: quota_def)
  have al: "int (length (ahead pool (sl_cursors (snd (snd y))) l)) = int (length R) - min quota (int (length R))"
    using ahead_shares_other [OF assms(1) k, of m extra "i + 1" s1] one(3) q by (simp add: y_def nat_diff_distrib' of_nat_diff min_def)
  have w: "waiting (sl_cursors sel) ls = waiting (sl_cursors s1) ls" using waiting_other [OF q k, of sel] by (simp add: s1_def)
  have up: "[i..<i + length (l # ls)] = i # [i + 1..<i + 1 + length ls]" by (subst upt_conv_Cons) simp_all
  show ?case unfolding x up
    using IH one(2) w al by (auto simp: waiting_def R_def quota_def)
qed (simp add: waiting_def)

lemma leftover_count:
  assumes "0 \<le> leftover" and "distinct (map key_of ls)"
  shows "int (length (sl_selected (fill_leftover read None m i ls leftover sel))) =
    int (length (sl_selected sel)) + min leftover (waiting (sl_cursors sel) ls)"
  using assms
proof (induction ls arbitrary: i leftover sel)
  case (Cons l ls)
  show ?case
  proof (cases "leftover = 0")
    case True
    have "0 \<le> waiting (sl_cursors sel) (l # ls)" unfolding waiting_def by (rule sum_list_nonneg) auto
    then show ?thesis using True by simp
  next
    case False
    then have q: "0 < leftover" using Cons.prems by simp
    define R where "R = ahead pool (sl_cursors sel) l"
    define s1 where "s1 = snd (fill_one_lane read l leftover sel)"
    have one: "fst (fill_one_lane read l leftover sel) = min leftover (int (length R))"
        "int (length (sl_selected s1)) = int (length (sl_selected sel)) + min leftover (int (length R))"
      using fill_one(1-2) [OF q, of l sel] q by (simp_all add: s1_def R_def)
    have w: "waiting (sl_cursors s1) ls = waiting (sl_cursors sel) ls"
      using waiting_other [OF q, of l ls sel] Cons.prems by (simp add: s1_def)
    have "0 \<le> waiting (sl_cursors sel) ls" unfolding waiting_def by (rule sum_list_nonneg) auto
    moreover have "waiting (sl_cursors sel) (l # ls) = int (length R) + waiting (sl_cursors sel) ls" by (simp add: waiting_def R_def)
    moreover have "fill_leftover read None m i (l # ls) leftover sel = fill_leftover read None m (i + 1) ls (leftover - min leftover (int (length R))) s1"
      using q one(1) by (simp add: past_deadline_def Let_def split_beta s1_def)
    ultimately show ?thesis
      using Cons.IH [of "leftover - min leftover (int (length R))" "i + 1" s1] Cons.prems one(2) w by simp
  qed
qed (simp add: waiting_def)

lemma shares_sum:
  assumes "0 \<le> extra" and "extra \<le> int n"
  shows "(\<Sum>j \<leftarrow> [0..<n]. base + (if int j < extra then 1 else 0)) = base * int n + extra"
proof -
  have "(\<Sum>j \<leftarrow> [0..<n]. base + (if int j < extra then 1 else 0)) = base * int n + min extra (int n)" for n
    using assms(1) by (induction n) (simp_all add: algebra_simps min_def)
  then show ?thesis using assms(2) by simp
qed

lemma fill_count:
  assumes "distinct (map key_of ls)" and "ls \<noteq> []" and "int (length ls) \<le> max_items"
  shows "int (length (sl_selected (fill_circuit_close_lanes read None m1 m2 ls max_items C))) = min max_items (waiting C ls)"
proof -
  let ?n = "int (length ls)"
  let ?s0 = "\<lparr>sl_selected = [], sl_cursors = C, sl_scan_exhausted = [], sl_capped = False\<rparr>"
  define x where "x = fill_shares read None m1 (max_items div ?n) (max_items mod ?n) 0 ls ?s0"
  have n: "0 < ?n" using assms(2) by simp
  have b: "0 < max_items div ?n" using assms(3) n by (simp add: pos_imp_zdiv_pos_iff)
  have e: "0 \<le> max_items mod ?n" "max_items mod ?n \<le> ?n" using n by (simp_all add: less_imp_le)
  have c: "int (length (sl_selected (snd (snd x)))) = fst x"
      "waiting C ls = fst x + waiting (sl_cursors (snd (snd x))) (fst (snd x))" "fst x \<le> max_items"
    using shares_count [OF b assms(1), of m1 "max_items mod ?n" 0 ?s0] shares_sum [OF e, of "max_items div ?n"]
    by (simp_all add: x_def)
  have "int (length (sl_selected (fill_leftover read None m2 0 (fst (snd x)) (max_items - fst x) (snd (snd x))))) =
      fst x + min (max_items - fst x) (waiting (sl_cursors (snd (snd x))) (fst (snd x)))"
    using leftover_count [of "max_items - fst x" "fst (snd x)" m2 0 "snd (snd x)"] c
      filled_distinct [OF assms(1), of None m1 "max_items div ?n" "max_items mod ?n" 0 ?s0] by (simp add: x_def)
  then show ?thesis using c(2) by (simp add: fill_circuit_close_lanes_def Let_def split_beta x_def min_def)
qed

end

section \<open>The lanes of the queue\<close>

text \<open>The entries a lane can select, oldest first.\<close>

definition lane_pool :: "int \<Rightarrow> dlq \<Rightarrow> lane \<Rightarrow> (position \<times> failed_op) list" where
  "lane_pool cap q l = replayable cap (fst (snd l)) (Some (fst l)) (snd (snd l)) q"

lemma lane_pages_dlq:
  assumes "dlq_inv q" and "enumerates it"
  shows "lane_pages (lane_page it cap q) (lane_pool cap q)"
proof
  fix l :: lane and n :: int and c p e
  show "0 < n \<Longrightarrow> pg_entries (lane_page it cap q l n c) = map snd (take (nat n) (filter (past c \<circ> fst) (lane_pool cap q l)))"
    using page_entries [OF assms] by (simp add: lane_page_def lane_pool_def split_beta)
  show "0 < n \<Longrightarrow> pg_next_cursor (lane_page it cap q l n c) = None \<Longrightarrow> filter (past c \<circ> fst) (lane_pool cap q l) = []"
    using page_cursor(1) [OF assms] by (simp only: lane_page_def lane_pool_def split_beta)
  show "0 < n \<Longrightarrow> pg_next_cursor (lane_page it cap q l n c) = Some p \<Longrightarrow>
      filter (past (Some p) \<circ> fst) (lane_pool cap q l) = drop (nat n) (filter (past c \<circ> fst) (lane_pool cap q l))"
    using page_cursor(2) [OF assms] by (simp only: lane_page_def lane_pool_def split_beta)
  show "\<not> pg_scan_exhausted (lane_page it cap q l n c)"
    by (simp add: lane_page_def split_beta dlq_find_replayable_page_def Let_def)
  show "sorted (map fst (lane_pool cap q l))" "distinct (map fst (lane_pool cap q l))"
    using replayable_wf [OF assms(1)] by (simp_all add: lane_pool_def)
  show "(p, e) \<in> set (lane_pool cap q l) \<Longrightarrow> \<exists>t. fo_created_at e = Some t \<and> p = replay_cursor_position t (fo_id e)"
    by (auto simp: lane_pool_def replayable_def positioned_mem replay_cursor_position_def)
qed

interpretation dlq_lanes: lane_pages "lane_page sorted_list_of_set cap (dlq_run xs empty_dlq)" "lane_pool cap (dlq_run xs empty_dlq)" for cap xs
  by (rule lane_pages_dlq) (simp_all add: dlq_run_inv enumerates_sorted)

lemma cursors_wf:
  "dict_wf (sl_cursors sel) \<Longrightarrow> dict_wf (sl_cursors (snd (fill_one_lane read l quota sel)))"
  "dict_wf (sl_cursors sel) \<Longrightarrow> dict_wf (sl_cursors (snd (snd (fill_shares read deadline m base extra i ls sel))))"
  "dict_wf (sl_cursors sel) \<Longrightarrow> dict_wf (sl_cursors (fill_leftover read deadline m i ls leftover sel))"
proof -
  have one: "dict_wf (sl_cursors sel) \<Longrightarrow> dict_wf (sl_cursors (snd (fill_one_lane read l quota sel)))" for l quota sel
    by (simp add: fill_one_lane_def Let_def split: option.split)
  then show "dict_wf (sl_cursors sel) \<Longrightarrow> dict_wf (sl_cursors (snd (fill_one_lane read l quota sel)))" .
  show "dict_wf (sl_cursors sel) \<Longrightarrow> dict_wf (sl_cursors (snd (snd (fill_shares read deadline m base extra i ls sel))))"
    by (induction ls arbitrary: i sel) (simp_all add: Let_def split_beta one)
  show "dict_wf (sl_cursors sel) \<Longrightarrow> dict_wf (sl_cursors (fill_leftover read deadline m i ls leftover sel))"
    by (induction ls arbitrary: i leftover sel) (simp_all add: Let_def split_beta one)
qed

lemma fill_cursors_wf: "dict_wf C \<Longrightarrow> dict_wf (sl_cursors (fill_circuit_close_lanes read deadline m1 m2 ls n C))"
  by (simp add: fill_circuit_close_lanes_def Let_def split_beta cursors_wf)

lemma rotated_keys_distinct: "distinct (map key_of (rotate_lanes n (recovery_lanes rg dm ftm)))"
  using lane_keys_distinct rotate_lanes_perm by (metis mset_eq_imp_distinct_iff mset_map)

text \<open>(C18) A pass without a deadline selects as many entries as its quota allows and its lanes have: what a lane does
  not use goes to the others.  The quota must not be smaller than the number of lanes.\<close>

theorem pass_selects_what_is_there:
  assumes "enumerates it" and "rotate_lanes n (recovery_lanes rg dm ftm) = lanes" and "lanes \<noteq> []" and "int (length lanes) \<le> max_items"
    and "dlq_run xs empty_dlq = q"
  shows "int (length (sl_selected (fill_circuit_close_lanes (lane_page it cap q) None m1 m2 lanes max_items C))) =
    min max_items (\<Sum>l \<leftarrow> lanes. int (length (ahead (lane_pool cap q) C l)))"
proof -
  have L: "lane_pages (lane_page it cap q) (lane_pool cap q)"
    using assms(1,5) by (auto intro: lane_pages_dlq simp: dlq_run_inv)
  have "distinct (map key_of lanes)" using rotated_keys_distinct assms(2) by blast
  from lane_pages.fill_count [OF L this assms(3,4)] show ?thesis
    by (simp add: lane_pages.waiting_def [OF L])
qed

text \<open>A domain with two lanes and two dead letters in the first.\<close>

definition sample_registry :: registry where
  "sample_registry = register_replay_handler ((sample_handler (Pair job_failed))\<lparr>hd_failure_types := Some [PStr ''timeout'']\<rparr>) []"

definition sample_lanes :: "lane list" where
  "sample_lanes = [(''timeout'', Some ''payment'', None), (OPEN_CIRCUIT_FAILURE_TYPE, Some ''payment'', Some POLICY_CHAIN_CAPTURE_SOURCE)]"

definition two_parked :: dlq where
  "two_parked = dlq_run [Create 0 sample_op, Create 1 sample_op] empty_dlq"

lemma two_parked_run: "dlq_run [Create 0 sample_op, Create 1 sample_op] empty_dlq = two_parked"
  by (simp only: two_parked_def)

lemma sample_lanes: "rotate_lanes 0 (recovery_lanes sample_registry ''payment'' []) = sample_lanes"
  by code_simp

lemma two_parked_ahead: "map (length \<circ> ahead (lane_pool 3 two_parked) []) sample_lanes = [2, 0]"
  by code_simp

theorem pass_selects_what_is_there_witness:
  "length (sl_selected (fill_circuit_close_lanes (lane_page sorted_list_of_set 3 two_parked) None (\<lambda>_. 0) (\<lambda>_. 0) sample_lanes 2 [])) = 2"
proof -
  have "(\<Sum>l \<leftarrow> sample_lanes. int (length (ahead (lane_pool 3 two_parked) [] l))) = 2"
    using two_parked_ahead by (simp add: sample_lanes_def)
  then show ?thesis
    using pass_selects_what_is_there [OF enumerates_sorted sample_lanes _ _ two_parked_run, of 2 3 "\<lambda>_. 0" "\<lambda>_. 0" "[]"]
    by (simp add: sample_lanes_def)
qed

text \<open>(C17) A pass that stops early, after \<open>p\<close> of the entries it selected, leaves each lane where it got to: the entries
  ahead of the cursors it hands on are those that were ahead of the ones it started from, less the ones it
  processed, which were the oldest.  Nothing is stepped over and nothing comes twice.\<close>

theorem stopped_pass_resumes:
  assumes "enumerates it" and "dict_wf C" and "rotate_lanes n (recovery_lanes rg dm ftm) = lanes" and "l \<in> set lanes"
    and "dlq_run xs empty_dlq = q"
    and "fill_circuit_close_lanes (lane_page it cap q) deadline m1 m2 lanes max_items C = sel"
    and "length (picks l (take p (sl_selected sel))) = k"
  shows "picks l (take p (sl_selected sel)) = map snd (take k (ahead (lane_pool cap q) C l))
    \<and> ahead (lane_pool cap q) (roll_back_lane_cursors sel p C) l = drop k (ahead (lane_pool cap q) C l)"
proof -
  have L: "lane_pages (lane_page it cap q) (lane_pool cap q)"
    using assms(1,5) by (auto intro: lane_pages_dlq simp: dlq_run_inv)
  have "distinct (map key_of lanes)" using rotated_keys_distinct assms(3) by blast
  from lane_pages.in_step_fill [OF L assms(4) this] have step: "lane_pages.in_step (lane_pool cap q) C sel l"
    using assms(6) by blast
  have "dict_wf (sl_cursors sel)" using fill_cursors_wf [OF assms(2)] assms(6) by blast
  from lane_pages.roll_back_ahead [OF L step this, of p] have
    "ahead (lane_pool cap q) (roll_back_lane_cursors sel p C) l = drop k (ahead (lane_pool cap q) C l)" using assms(7) by simp
  moreover have "picks l (take p (sl_selected sel)) = map snd (take k (ahead (lane_pool cap q) C l))"
    using lane_pages.in_step_prefix(1) [OF L step, of p] assms(7) by simp
  ultimately show ?thesis by blast
qed

theorem stopped_pass_resumes_witness:
  "length (ahead (lane_pool 3 two_parked) (roll_back_lane_cursors
      (fill_circuit_close_lanes (lane_page sorted_list_of_set 3 two_parked) None (\<lambda>_. 0) (\<lambda>_. 0) sample_lanes 2 []) 1 [])
      (''timeout'', Some ''payment'', None)) = 1"
proof -
  let ?l = "(''timeout'', Some ''payment'', None) :: lane"
  let ?sel = "fill_circuit_close_lanes (lane_page sorted_list_of_set 3 two_parked) None (\<lambda>_. 0) (\<lambda>_. 0) sample_lanes 2 []"
  have l: "?l \<in> set sample_lanes" by (simp add: sample_lanes_def)
  have "length (picks ?l (take 1 (sl_selected ?sel))) = 1" by code_simp
  then have "ahead (lane_pool 3 two_parked) (roll_back_lane_cursors ?sel 1 []) ?l = drop 1 (ahead (lane_pool 3 two_parked) [] ?l)"
    using stopped_pass_resumes [OF enumerates_sorted dict_wf_empty sample_lanes l two_parked_run refl] by blast
  then show ?thesis using two_parked_ahead by (simp add: sample_lanes_def)
qed

text \<open>(C37) With fewer items than lanes the quota of the later lanes is nothing, and what the first lanes leave is
  not offered to them: a pass of one item whose first lane is empty selects nothing and does not report
  itself capped, whatever the second lane holds.\<close>

theorem few_items_leave_lanes_out:
  assumes "enumerates it" and "dlq_run xs empty_dlq = q" and "ahead (lane_pool cap q) C l1 = []"
  shows "sl_selected (fill_circuit_close_lanes (lane_page it cap q) None m1 m2 [l1, l2] 1 C) = []
    \<and> \<not> sl_capped (fill_circuit_close_lanes (lane_page it cap q) None m1 m2 [l1, l2] 1 C)"
proof -
  have L: "lane_pages (lane_page it cap q) (lane_pool cap q)"
    using assms(1,2) by (auto intro: lane_pages_dlq simp: dlq_run_inv)
  let ?s0 = "\<lparr>sl_selected = [], sl_cursors = C, sl_scan_exhausted = [], sl_capped = False\<rparr>"
  define x where "x = fill_one_lane (lane_page it cap q) l1 1 ?s0"
  have "fst x = 0" "sl_selected (snd x) = []" "\<not> sl_capped (snd x)"
    using lane_pages.fill_one(1,2,5) [OF L, of 1 l1 ?s0] assms(3) by (simp_all add: x_def)
  moreover have "fill_circuit_close_lanes (lane_page it cap q) None m1 m2 [l1, l2] 1 C = snd x"
    using calculation(1) by (simp add: fill_circuit_close_lanes_def past_deadline_def Let_def split_beta x_def)
  ultimately show ?thesis by simp
qed

theorem few_items_leave_lanes_out_witness:
  "sl_selected (fill_circuit_close_lanes (lane_page sorted_list_of_set 3 two_parked) None (\<lambda>_. 0) (\<lambda>_. 0) (rev sample_lanes) 1 []) = []
   \<and> length (ahead (lane_pool 3 two_parked) [] (''timeout'', Some ''payment'', None)) = 2"
  using few_items_leave_lanes_out [OF enumerates_sorted two_parked_run, of 3 "[]"
      "(OPEN_CIRCUIT_FAILURE_TYPE, Some ''payment'', Some POLICY_CHAIN_CAPTURE_SOURCE)" "\<lambda>_. 0" "\<lambda>_. 0" "(''timeout'', Some ''payment'', None)"]
    two_parked_ahead
  by (simp add: sample_lanes_def)

section \<open>Accounting\<close>

definition counted :: "batch_replay_result \<Rightarrow> bool" where
  "counted b \<longleftrightarrow> length (br_results b) = br_success_count b + br_failed_count b + br_skipped_count b"

lemma counted_add: "counted b \<Longrightarrow> counted (add_result r b)"
  by (simp add: counted_def add_result_def Let_def)

lemma add_result_frames [simp]:
  "br_total (add_result r b) = br_total b" "length (br_results (add_result r b)) = Suc (length (br_results b))"
  by (simp_all add: add_result_def Let_def)

definition balanced :: "batch_replay_result \<Rightarrow> bool" where
  "balanced b \<longleftrightarrow> counted b \<and> br_total b = length (br_results b)"

lemma sweep_counts:
  assumes "counted b" and "length (br_results b) = i" and "br_total b = i + length es"
  shows "balanced (fst (sweep_entries cf pk deadline trigger sn esc sel carried i es b W))"
  using assms
proof (induction es arbitrary: i b W)
  case (Cons x es)
  obtain key e where x: "x = (key, e)" by force
  obtain r d W1 where r: "execute_replay_within cf (pk_call pk i) (fo_id e) deadline (pk_stopped pk i) (pk_after pk i) trigger (Some e) False W = ((r, d), W1)"
    by (metis surj_pair)
  have stop: "balanced (stop_pass_at sel i carried y z b)" for y z
    using Cons.prems by (simp add: stop_pass_at_def counted_def balanced_def)
  have go: "balanced (fst (sweep_entries cf pk deadline trigger sn esc sel carried (Suc i) es (add_result r b) V))" for V
    using Cons.IH [of "add_result r b" "Suc i" V] Cons.prems by (simp add: counted_add)
  show ?case using stop go by (simp add: x r)
qed (simp add: balanced_def)

text \<open>The totals of a pass count exactly the replays it ran: every result is a success, a failure or a skip, and an
  entry the pass did not get to is in none of them.\<close>

theorem pass_accounts_for_every_replay:
  "let b = fst (replay_on_circuit_close_locked cf it pk gov ftm sn max_items esc deadline cursors n trigger W)
   in br_total b = length (br_results b) \<and> br_total b = br_success_count b + br_failed_count b + br_skipped_count b"
proof -
  have "balanced (fst (sweep_entries cf pk deadline trigger sn esc sel cursors 0 (sl_selected sel)
      (new_batch_result\<lparr>br_total := length (sl_selected sel), br_capped := sl_capped sel,
         br_lane_cursors := sl_cursors sel, br_scan_exhausted_lanes := sl_scan_exhausted sel\<rparr>) W))" for sel
    by (rule sweep_counts) (simp_all add: counted_def new_batch_result_def)
  then have "balanced (fst (replay_on_circuit_close_locked cf it pk gov ftm sn max_items esc deadline cursors n trigger W))"
    by (simp add: replay_on_circuit_close_locked_def end_recovery_with_no_lane_def Let_def split_beta)
      (simp add: balanced_def counted_def new_batch_result_def)
  then show ?thesis by (simp add: balanced_def counted_def Let_def)
qed

section \<open>One recovery per domain\<close>

text \<open>(C19) While a recovery holds the lock of its domain, a recovery of any name stored as that domain joins it: it
  replays nothing and changes nothing.\<close>

theorem one_recovery_per_domain:
  assumes "try_acquire_recovery_lock now owner ttl (recovery_lock_subject sn) W = (RECOVERY_LOCK_ACQUIRED, W1)"
    and "recovery_lock_subject sn' = recovery_lock_subject sn" and "now' \<le> now + seconds ttl"
    and "st_locks V = st_locks W1" and "st_cache V \<noteq> None"
  shows "replay_on_circuit_close cf it pk gov ftm now' owner' ttl' sn' max_items esc deadline cursors n trigger V =
    (new_batch_result\<lparr>br_inflight_skipped := True\<rparr>, V)"
proof -
  let ?name = "replay_inflight_lock_name (recovery_lock_subject sn)"
  have "dict_get (st_locks V) ?name = Some \<lparr>lk_owner = owner, lk_expires = now + seconds ttl\<rparr>"
    using assms(1,4) by (auto simp: try_acquire_recovery_lock_def lock_acquire_def dict_simps Let_def split: option.splits if_splits)
  then have "lock_acquire now' ?name owner' (seconds ttl') (st_locks V) = (False, st_locks V)"
    using assms(3) by (simp add: lock_acquire_def lock_expired_def)
  then have "try_acquire_recovery_lock now' owner' ttl' (recovery_lock_subject sn) V = (RECOVERY_LOCK_HELD, V)"
    using assms(5) by (simp add: try_acquire_recovery_lock_def)
  then show ?thesis by (simp add: replay_on_circuit_close_def assms(2))
qed

theorem one_recovery_per_domain_witness:
  "recovery_lock_subject ''Payment'' = recovery_lock_subject ''payment''
   \<and> replay_on_circuit_close (sample_config (sample_handler (Pair job_failed))) sorted_list_of_set
       \<lparr>pk_fill = (\<lambda>_. 0), pk_refill = (\<lambda>_. 0), pk_before = (\<lambda>_. 0), pk_after = (\<lambda>_. 0), pk_stopped = (\<lambda>_. False), pk_call = (\<lambda>_. sample_call)\<rparr>
       \<lparr>gv_allowed = True, gv_block_reason = None, gv_block_message = []\<rparr> [] 9 ''b'' 60 ''Payment'' 10 True None [] 0 AUTO_REPLAY_CIRCUIT_CLOSE
       (snd (try_acquire_recovery_lock 5 ''a'' 60 (recovery_lock_subject ''payment'') (parked\<lparr>st_cache := Some (empty_cache [])\<rparr>)))
     = (new_batch_result\<lparr>br_inflight_skipped := True\<rparr>,
        snd (try_acquire_recovery_lock 5 ''a'' 60 (recovery_lock_subject ''payment'') (parked\<lparr>st_cache := Some (empty_cache [])\<rparr>)))"
proof
  show s: "recovery_lock_subject ''Payment'' = recovery_lock_subject ''payment''" by code_simp
  let ?W = "parked\<lparr>st_cache := Some (empty_cache [])\<rparr>"
  let ?a = "try_acquire_recovery_lock 5 ''a'' 60 (recovery_lock_subject ''payment'') ?W"
  have a: "?a = (RECOVERY_LOCK_ACQUIRED, snd ?a)" and c: "st_cache (snd ?a) \<noteq> None"
    by (simp_all add: try_acquire_recovery_lock_def lock_acquire_def parked_def)
  have "(9::int) \<le> 5 + seconds 60" by (simp add: seconds_def)
  from one_recovery_per_domain [OF a s this refl c]
  show "replay_on_circuit_close (sample_config (sample_handler (Pair job_failed))) sorted_list_of_set
       \<lparr>pk_fill = (\<lambda>_. 0), pk_refill = (\<lambda>_. 0), pk_before = (\<lambda>_. 0), pk_after = (\<lambda>_. 0), pk_stopped = (\<lambda>_. False), pk_call = (\<lambda>_. sample_call)\<rparr>
       \<lparr>gv_allowed = True, gv_block_reason = None, gv_block_message = []\<rparr> [] 9 ''b'' 60 ''Payment'' 10 True None [] 0 AUTO_REPLAY_CIRCUIT_CLOSE (snd ?a)
     = (new_batch_result\<lparr>br_inflight_skipped := True\<rparr>, snd ?a)" .
qed

end
