(* ===== verification/Adaptive_Replay.thy ===== *)
theory Adaptive_Replay
  imports Py_Float Prelude
begin

text \<open>
  The size of a replay batch, adjusted to how the batches fare (\<open>services/adaptive_replay.py\<close>).  The manager's
  methods run under its lock, so each is one function of its state.
\<close>

section \<open>State\<close>

record adaptive_config =
  ad_min_items :: int
  ad_max_items :: int
  ad_initial_items :: int
  ad_decrease_ratio :: rat
  ad_increase_step :: int
  ad_failure_threshold :: rat
  ad_success_streak_required :: int

definition default_adaptive_config :: adaptive_config where
  "default_adaptive_config =
     \<lparr>ad_min_items = 10, ad_max_items = 100, ad_initial_items = 50, ad_decrease_ratio = fl (8 / 10), ad_increase_step = 5,
      ad_failure_threshold = fl (2 / 10), ad_success_streak_required = 3\<rparr>"

record batch_history_entry =
  bh_timestamp :: instant
  bh_total :: int
  bh_success :: int
  bh_failures :: int
  bh_failure_rate :: rat
  bh_max_items :: int

record adaptive_manager =
  am_config :: adaptive_config
  am_current_items :: int
  am_success_streak :: int
  am_history :: "batch_history_entry list"

definition new_adaptive_manager :: adaptive_manager where
  "new_adaptive_manager =
     \<lparr>am_config = default_adaptive_config, am_current_items = ad_initial_items default_adaptive_config,
      am_success_streak = 0, am_history = []\<rparr>"

section \<open>Operations\<close>

definition adaptive_configure :: "adaptive_config \<Rightarrow> adaptive_manager \<Rightarrow> adaptive_manager" where
  "adaptive_configure c m =
     m\<lparr>am_config := c,
       am_current_items := (if am_current_items m < ad_min_items c then ad_min_items c
                            else if am_current_items m > ad_max_items c then ad_max_items c
                            else am_current_items m)\<rparr>"

text \<open>\<open>int(x)\<close> for a finite float.\<close>

definition py_int_of :: "rat \<Rightarrow> int" where
  "py_int_of x = (if x < 0 then - \<lfloor>- x\<rfloor> else \<lfloor>x\<rfloor>)"

definition adjust_max_items :: "rat \<Rightarrow> int \<Rightarrow> adaptive_manager \<Rightarrow> adaptive_manager" where
  "adjust_max_items failure_rate failures m =
     (let c = am_config m
      in if failure_rate \<ge> ad_failure_threshold c
         then m\<lparr>am_current_items := max (ad_min_items c) (py_int_of (fmul (fl (of_int (am_current_items m))) (ad_decrease_ratio c))),
                am_success_streak := 0\<rparr>
         else if failures = 0
         then let streak = am_success_streak m + 1
              in if streak \<ge> ad_success_streak_required c
                 then m\<lparr>am_current_items := min (ad_max_items c) (am_current_items m + ad_increase_step c), am_success_streak := 0\<rparr>
                 else m\<lparr>am_success_streak := streak\<rparr>
         else m\<lparr>am_success_streak := 0\<rparr>)"

definition record_batch_result :: "instant \<Rightarrow> int \<Rightarrow> int \<Rightarrow> int \<Rightarrow> adaptive_manager \<Rightarrow> adaptive_manager" where
  "record_batch_result now n_items success failures m =
     (if n_items = 0 then m
      else
        let rate = fdiv failures n_items;
            h = am_history m @ [\<lparr>bh_timestamp = now, bh_total = n_items, bh_success = success, bh_failures = failures,
                   bh_failure_rate = rate, bh_max_items = am_current_items m\<rparr>]
        in adjust_max_items rate failures (m\<lparr>am_history := (if length h > 100 then last_n 100 h else h)\<rparr>))"

definition adaptive_reset :: "adaptive_manager \<Rightarrow> adaptive_manager" where
  "adaptive_reset m = m\<lparr>am_current_items := ad_initial_items (am_config m), am_success_streak := 0, am_history := []\<rparr>"

section \<open>The size stays within its bounds\<close>

datatype adaptive_op =
    Configure adaptive_config
  | Record instant int int int
  | Reset

fun adaptive_step :: "adaptive_op \<Rightarrow> adaptive_manager \<Rightarrow> adaptive_manager" where
  "adaptive_step (Configure c) m = adaptive_configure c m"
| "adaptive_step (Record now n_items success failures) m = record_batch_result now n_items success failures m"
| "adaptive_step Reset m = adaptive_reset m"

text \<open>A configuration whose bounds are in order, whose batches can only shrink on failure and grow on success, and whose initial size is
  within the bounds.\<close>

definition sane :: "adaptive_config \<Rightarrow> bool" where
  "sane c \<longleftrightarrow> 0 \<le> ad_min_items c \<and> ad_min_items c \<le> ad_max_items c \<and> ad_max_items c < 2 ^ 49
     \<and> ad_min_items c \<le> ad_initial_items c \<and> ad_initial_items c \<le> ad_max_items c
     \<and> 0 \<le> ad_decrease_ratio c \<and> ad_decrease_ratio c \<le> 7 / 8 \<and> 0 \<le> ad_increase_step c"

definition sized :: "adaptive_manager \<Rightarrow> bool" where
  "sized m \<longleftrightarrow> sane (am_config m) \<and> ad_min_items (am_config m) \<le> am_current_items m \<and> am_current_items m \<le> ad_max_items (am_config m)
     \<and> length (am_history m) \<le> 100"

lemma shrunk_size:
  assumes "0 \<le> n" and "n < 2 ^ 49" and "0 \<le> r" and "r \<le> 7 / 8"
  shows "py_int_of (fmul (fl (of_int n)) r) \<le> n" and "0 < n \<Longrightarrow> py_int_of (fmul (fl (of_int n)) r) < n"
proof -
  have n: "fl (of_int n) = of_int n" using assms(1,2) by (intro fl_of_int) simp
  have nn: "0 \<le> fl (of_int n * r)" using fl_mono [of 0 "of_int n * r"] assms by simp
  have "fl (of_int n * r) < of_int n" if "0 < n"
  proof -
    have "\<bar>8 * n - 1\<bar> < 2 ^ 53" using assms(2) that by simp
    from representableI [OF this, of "-3"] have "representable (of_int n - 1 / 8 :: rat)"
      by (simp add: power_int_minus field_simps)
    moreover have "of_int n * r \<le> of_int n - 1 / 8"
    proof -
      have "(1::rat) \<le> of_int n" using that by simp
      moreover have "of_int n * r \<le> of_int n * (7 / 8)" using assms(4) that by (intro mult_left_mono) simp_all
      ultimately show ?thesis by linarith
    qed
    ultimately have "fl (of_int n * r) \<le> of_int n - 1 / 8" by (rule fl_below)
    then show ?thesis by linarith
  qed
  then show "0 < n \<Longrightarrow> py_int_of (fmul (fl (of_int n)) r) < n"
    using nn by (simp add: py_int_of_def fmul_def n floor_less_iff)
  then show "py_int_of (fmul (fl (of_int n)) r) \<le> n" using assms(1) by (cases "n = 0") (auto simp: py_int_of_def fmul_def n)
qed

lemma sane_default: "sane default_adaptive_config"
proof -
  have "0 \<le> fl (8 / 10)" using fl_mono [of 0 "8 / 10"] by simp
  moreover have "representable (of_int 7 * 2 powi (-3))" by (rule representableI) simp
  then have "fl (8 / 10) \<le> 7 / 8" using fl_below [of "7 / 8" "8 / 10"] by (simp add: power_int_minus)
  ultimately show ?thesis by (simp add: sane_def default_adaptive_config_def)
qed

lemma sized_step:
  assumes "sized m" and "\<And>c. x = Configure c \<Longrightarrow> sane c"
  shows "sized (adaptive_step x m)"
proof (cases x)
  case (Record now n_items success failures)
  have "py_int_of (fmul (fl (of_int (am_current_items m))) (ad_decrease_ratio (am_config m))) \<le> am_current_items m"
    using assms(1) by (intro shrunk_size(1)) (auto simp: sized_def sane_def)
  then show ?thesis
    using assms(1) unfolding Record
    by (auto simp: sized_def sane_def record_batch_result_def adjust_max_items_def Let_def length_last_n)
qed (use assms in \<open>auto simp: sized_def sane_def adaptive_configure_def adaptive_reset_def\<close>)

text \<open>The batch size stays between the configured bounds, whatever batches are recorded and however often the manager is
  reconfigured or reset, as long as every configuration is in order.\<close>

theorem batch_size_stays_bounded:
  assumes "\<forall>c. Configure c \<in> set xs \<longrightarrow> sane c" and "fold adaptive_step xs new_adaptive_manager = m"
  shows "ad_min_items (am_config m) \<le> am_current_items m \<and> am_current_items m \<le> ad_max_items (am_config m)"
proof -
  have "sized n \<Longrightarrow> \<forall>c. Configure c \<in> set ys \<longrightarrow> sane c \<Longrightarrow> sized (fold adaptive_step ys n)" for ys n
    by (induction ys arbitrary: n) (simp_all add: sized_step)
  moreover have "sized new_adaptive_manager"
    using sane_default by (simp add: sized_def new_adaptive_manager_def) (simp add: default_adaptive_config_def)
  ultimately show ?thesis using assms unfolding sized_def by blast
qed

theorem batch_size_stays_bounded_witness:
  "am_current_items (fold adaptive_step [Record 0 10 10 0, Reset] new_adaptive_manager) \<le> 100"
  using batch_size_stays_bounded [of "[Record 0 10 10 0, Reset]" "fold adaptive_step [Record 0 10 10 0, Reset] new_adaptive_manager"]
  by (simp add: adaptive_reset_def record_batch_result_def adjust_max_items_def new_adaptive_manager_def default_adaptive_config_def Let_def)

section \<open>Failing batches reach the floor\<close>

text \<open>A batch that fails at least as often as the threshold says.\<close>

definition failing :: "adaptive_config \<Rightarrow> adaptive_op \<Rightarrow> bool" where
  "failing c x = (case x of Record now n_items success failures \<Rightarrow> n_items \<noteq> 0 \<and> fdiv failures n_items \<ge> ad_failure_threshold c | _ \<Rightarrow> False)"

lemma failing_step:
  assumes "sized m" and "failing (am_config m) x" and "0 < ad_min_items (am_config m)"
  shows "am_config (adaptive_step x m) = am_config m"
    and "am_current_items m = ad_min_items (am_config m) \<Longrightarrow> am_current_items (adaptive_step x m) = ad_min_items (am_config m)"
    and "ad_min_items (am_config m) < am_current_items m \<Longrightarrow> am_current_items (adaptive_step x m) < am_current_items m"
proof -
  obtain now n_items success failures where x: "x = Record now n_items success failures"
    using assms(2) by (cases x) (auto simp: failing_def)
  let ?s = "py_int_of (fmul (fl (of_int (am_current_items m))) (ad_decrease_ratio (am_config m)))"
  have s: "?s < am_current_items m"
    using assms(1,3) by (intro shrunk_size(2)) (auto simp: sized_def sane_def)
  show "am_config (adaptive_step x m) = am_config m"
    by (simp add: x record_batch_result_def adjust_max_items_def Let_def)
  have "am_current_items (adaptive_step x m) = max (ad_min_items (am_config m)) ?s"
    using assms(2) by (simp add: x failing_def record_batch_result_def adjust_max_items_def Let_def)
  then show "am_current_items m = ad_min_items (am_config m) \<Longrightarrow> am_current_items (adaptive_step x m) = ad_min_items (am_config m)"
      "ad_min_items (am_config m) < am_current_items m \<Longrightarrow> am_current_items (adaptive_step x m) < am_current_items m"
    using s by simp_all
qed

text \<open>Batches that keep failing bring the size down to the configured minimum, in at most as many batches as it is above it,
  and it stays there while they fail.\<close>

theorem failing_batches_reach_the_floor:
  assumes "sized m" and "0 < ad_min_items (am_config m)" and "\<forall>x \<in> set xs. failing (am_config m) x"
    and "am_current_items m - ad_min_items (am_config m) \<le> int (length xs)"
  shows "am_current_items (fold adaptive_step xs m) = ad_min_items (am_config m)"
  using assms
proof (induction xs arbitrary: m)
  case Nil
  then show ?case by (simp add: sized_def)
next
  case (Cons x xs)
  have x: "failing (am_config m) x" using Cons.prems(3) by simp
  note step = failing_step [OF Cons.prems(1) x Cons.prems(2)]
  have s: "sized (adaptive_step x m)"
    using Cons.prems(1) x by (intro sized_step) (auto simp: failing_def)
  have "am_current_items (adaptive_step x m) - ad_min_items (am_config m) \<le> int (length xs)"
    using step(2,3) Cons.prems(1,4) by (cases "am_current_items m = ad_min_items (am_config m)") (auto simp: sized_def)
  from Cons.IH [OF s, unfolded step(1), OF Cons.prems(2) _ this] Cons.prems(3) show ?case by simp
qed

theorem failing_batches_reach_the_floor_witness:
  "am_current_items (fold adaptive_step (replicate 40 (Record 0 10 0 10)) new_adaptive_manager) = 10"
proof -
  have "sized new_adaptive_manager"
    using sane_default by (simp add: sized_def new_adaptive_manager_def) (simp add: default_adaptive_config_def)
  moreover have "fl (2 / 10) \<le> fl 1" by (rule fl_mono) simp
  then have "failing (am_config new_adaptive_manager) (Record 0 10 0 10)"
    using fl_of_int [of 1] by (simp add: failing_def new_adaptive_manager_def default_adaptive_config_def fdiv_def)
  ultimately show ?thesis
    using failing_batches_reach_the_floor [of new_adaptive_manager "replicate 40 (Record 0 10 0 10)"]
    by (simp add: new_adaptive_manager_def default_adaptive_config_def)
qed

end
