(* ===== verification/Replay_Batch.thy ===== *)
theory Replay_Batch
  imports Replay_Sweep Adaptive_Replay
begin

text \<open>
  Batches of replays (\<open>replay_batch\<close> and its helpers in \<open>services/replay_service/service.py\<close>): the settings that come
  from the runtime configuration or the static ones (\<open>settings/replay_automation.py\<close>), the adaptive batch size and the
  selection by domain priority.
\<close>

section \<open>Settings\<close>

record replay_automation_settings =
  ra_adaptive_enabled :: bool
  ra_priority_enabled :: bool
  ra_domain_priorities :: "(string, string) dict"
  ra_domain_max_retries :: "(string, int) dict"
  ra_service_failure_type_map :: "(string, pyval) dict"
  ra_adaptive_min_items :: int
  ra_adaptive_max_items :: int
  ra_adaptive_initial_items :: int
  ra_adaptive_failure_threshold :: rat

text \<open>The block \<open>replay_automation\<close> of the runtime configuration manager, which is another package: a key may be
  missing.  \<open>None\<close> stands for no manager, for a failed read and for no block.\<close>

record runtime_replay_config =
  rt_adaptive_enabled :: "bool option"
  rt_priority_enabled :: "bool option"
  rt_domain_priorities :: "(string, string) dict option"
  rt_domain_max_retries :: "(string, int) dict option"
  rt_service_failure_type_map :: "(string, pyval) dict option"
  rt_adaptive_min_items :: "int option"
  rt_adaptive_max_items :: "int option"
  rt_adaptive_initial_items :: "int option"
  rt_adaptive_failure_threshold :: "rat option"

type_synonym replay_settings = "runtime_replay_config option \<times> replay_automation_settings"

definition setting_of :: "(runtime_replay_config \<Rightarrow> 'a option) \<Rightarrow> (replay_automation_settings \<Rightarrow> 'a) \<Rightarrow> replay_settings \<Rightarrow> 'a" where
  "setting_of f g S =
     (case fst S of
        None \<Rightarrow> g (snd S)
      | Some c \<Rightarrow> (case f c of None \<Rightarrow> g (snd S) | Some v \<Rightarrow> v))"

definition is_adaptive_enabled :: "replay_settings \<Rightarrow> bool" where
  "is_adaptive_enabled S = setting_of rt_adaptive_enabled ra_adaptive_enabled S"

definition is_priority_enabled :: "replay_settings \<Rightarrow> bool" where
  "is_priority_enabled S = setting_of rt_priority_enabled ra_priority_enabled S"

definition get_domain_priorities :: "replay_settings \<Rightarrow> (string, string) dict" where
  "get_domain_priorities S = setting_of rt_domain_priorities ra_domain_priorities S"

definition get_domain_max_retries :: "replay_settings \<Rightarrow> string \<Rightarrow> int option" where
  "get_domain_max_retries S dm = dict_get (setting_of rt_domain_max_retries ra_domain_max_retries S) dm"

definition load_failure_type_map :: "replay_settings \<Rightarrow> (string, pyval) dict" where
  "load_failure_type_map S = setting_of rt_service_failure_type_map ra_service_failure_type_map S"

definition get_adaptive_config :: "replay_settings \<Rightarrow> adaptive_config" where
  "get_adaptive_config S =
     default_adaptive_config\<lparr>ad_min_items := setting_of rt_adaptive_min_items ra_adaptive_min_items S,
       ad_max_items := setting_of rt_adaptive_max_items ra_adaptive_max_items S,
       ad_initial_items := setting_of rt_adaptive_initial_items ra_adaptive_initial_items S,
       ad_failure_threshold := setting_of rt_adaptive_failure_threshold ra_adaptive_failure_threshold S\<rparr>"

text \<open>The batch size, the manager, and whether the manager is to hear of the batch.\<close>

definition get_effective_max_items :: "replay_settings \<Rightarrow> int \<Rightarrow> bool option \<Rightarrow> adaptive_manager \<Rightarrow> int \<times> bool \<times> adaptive_manager" where
  "get_effective_max_items S max_items use_adaptive m =
     (let enabled = (case use_adaptive of None \<Rightarrow> is_adaptive_enabled S | Some b \<Rightarrow> b)
      in if \<not> enabled then (max_items, False, m)
         else let m1 = adaptive_configure (get_adaptive_config S) m in (am_current_items m1, True, m1))"

section \<open>Selection by priority\<close>

definition dlq_find_replayable ::
    "(string set \<Rightarrow> string list) \<Rightarrow> int \<Rightarrow> string option \<Rightarrow> string option \<Rightarrow> int \<Rightarrow> dlq \<Rightarrow> failed_op list" where
  "dlq_find_replayable it cap dm ft limit q = pg_entries (dlq_find_replayable_page it cap dm ft None limit None q)"

definition priority_levels :: "string list" where
  "priority_levels = [''critical'', ''normal'', ''low'']"

definition domains_by_priority :: "(string, string) dict \<Rightarrow> string list" where
  "domains_by_priority ps = concat (map (\<lambda>level. map fst (filter (\<lambda>(dm, p). p = level) ps)) priority_levels)"

fun fetch_domains ::
    "(string set \<Rightarrow> string list) \<Rightarrow> replay_settings \<Rightarrow> int \<Rightarrow> string option \<Rightarrow> dlq \<Rightarrow> string list \<Rightarrow> int
       \<Rightarrow> (failed_op list \<times> string list) \<times> int" where
  "fetch_domains it S max_replays ft q [] remaining = (([], []), remaining)"
| "fetch_domains it S max_replays ft q (dm # dms) remaining =
     (if remaining \<le> 0 then (([], []), remaining)
      else
        let cap = (case get_domain_max_retries S dm of None \<Rightarrow> max_replays | Some n \<Rightarrow> n);
            es = dlq_find_replayable it cap (Some dm) ft remaining q;
            ((fs, ds), r) = fetch_domains it S max_replays ft q dms (remaining - int (length es))
        in ((es @ fs, if es \<noteq> [] then dm # ds else ds), r))"

text \<open>The entries of the domains without a priority, until the batch is full.\<close>

fun fetch_rest :: "string set \<Rightarrow> failed_op list \<Rightarrow> int \<Rightarrow> failed_op list \<times> string list \<Rightarrow> failed_op list \<times> string list" where
  "fetch_rest configured [] remaining acc = acc"
| "fetch_rest configured (e # es) remaining (fs, ds) =
     (if remaining \<le> 0 then (fs, ds)
      else if fo_domain e \<notin> configured
      then fetch_rest configured es (remaining - 1) (fs @ [e], add_new (fo_domain e) ds)
      else fetch_rest configured es remaining (fs, ds))"

definition get_entries_by_priority ::
    "(string set \<Rightarrow> string list) \<Rightarrow> replay_settings \<Rightarrow> string option \<Rightarrow> int \<Rightarrow> int \<Rightarrow> dlq \<Rightarrow> failed_op list \<times> string list" where
  "get_entries_by_priority it S ft max_replays limit q =
     (let ps = get_domain_priorities S;
          ((es, ds), remaining) = fetch_domains it S max_replays ft q (domains_by_priority ps) limit
      in if remaining > 0
         then fetch_rest (fst ` set ps) (dlq_find_replayable it max_replays None ft (remaining + int (length es)) q) remaining (es, ds)
         else (es, ds))"

section \<open>The batch\<close>

fun batch_entries ::
    "replay_config \<Rightarrow> (nat \<Rightarrow> replay_call) \<Rightarrow> string \<Rightarrow> nat \<Rightarrow> failed_op list \<Rightarrow> batch_replay_result \<Rightarrow> stores
       \<Rightarrow> batch_replay_result \<times> stores" where
  "batch_entries cf ks trigger i [] b W = (b, W)"
| "batch_entries cf ks trigger i (e # es) b W =
     (let (r, W1) = execute_replay cf (ks i) (fo_id e) trigger (Some e) False W
      in batch_entries cf ks trigger (i + 1) es (add_result r b) W1)"

definition replay_batch ::
    "replay_config \<Rightarrow> (string set \<Rightarrow> string list) \<Rightarrow> replay_settings \<Rightarrow> (nat \<Rightarrow> replay_call) \<Rightarrow> governance_result \<Rightarrow> instant
       \<Rightarrow> string option \<Rightarrow> string option \<Rightarrow> int \<Rightarrow> bool option \<Rightarrow> bool option \<Rightarrow> string \<Rightarrow> stores \<times> adaptive_manager
       \<Rightarrow> batch_replay_result \<times> stores \<times> adaptive_manager" where
  "replay_batch cf it S ks gov now dm ft max_items use_adaptive use_priority trigger =
     (\<lambda>(W, m).
       if \<not> gv_allowed gov
       then (new_batch_result\<lparr>br_governance_blocked := True, br_governance_block_reason := gv_block_message gov\<rparr>,
             emit (DLQ_REPLAY_BLOCKED None (gv_block_reason gov)) W, m)
       else
         let (limit, adaptive, m1) = get_effective_max_items S max_items use_adaptive m;
             cap = cf_max_replay_attempts cf;
             by_priority = ((case use_priority of None \<Rightarrow> is_priority_enabled S | Some b \<Rightarrow> b) \<and> dm = None);
             (es, ds) = (if by_priority
                         then let (es, ds) = get_entries_by_priority it S ft cap limit (st_dlq W) in (es, Some ds)
                         else (dlq_find_replayable it cap dm ft limit (st_dlq W), None));
             b = new_batch_result\<lparr>br_total := length es, br_capped := (int (length es) = limit), br_priority_used := by_priority,
                    br_domains_processed := ds\<rparr>;
             (b1, W1) = batch_entries cf ks trigger 0 es b W;
             m2 = (if adaptive
                   then record_batch_result now (int (br_total b1)) (int (br_success_count b1)) (int (br_failed_count b1)) m1 else m1)
         in (b1, record_batch_completion (case dm of None \<Rightarrow> ''all'' | Some d \<Rightarrow> str_or d ''all'') b1 W1, m2))"

section \<open>Facts about the selection\<close>

lemma find_replayable_entries:
  assumes "dlq_inv q" and "enumerates it"
  shows "dlq_find_replayable it cap dm ft limit q = map snd (take (nat limit) (replayable cap dm ft None q))"
proof -
  have "filter (past None \<circ> fst) (replayable cap dm ft None q) = replayable cap dm ft None q"
    by (simp add: past_def)
  then show ?thesis by (simp add: dlq_find_replayable_def page_entries [OF assms])
qed

lemma find_replayable_length:
  assumes "dlq_inv q" and "enumerates it" and "0 < limit"
  shows "int (length (dlq_find_replayable it cap dm ft limit q)) \<le> limit"
  using assms(3) by (simp add: find_replayable_entries [OF assms(1,2)])

lemma find_replayable_match:
  assumes "dlq_inv q" and "enumerates it" and "e \<in> set (dlq_find_replayable it cap dm ft limit q)"
  shows "replay_match cap dm ft None e" and "e \<in> snd ` set (storage q)"
  using assms(3)
  by (auto simp: find_replayable_entries [OF assms(1,2)] replayable_def positioned_mem dest!: in_set_takeD)

lemma fetch_domains_length:
  assumes "dlq_inv q" and "enumerates it"
  shows "int (length (fst (fst (fetch_domains it S cap ft q dms n)))) = n - snd (fetch_domains it S cap ft q dms n)
    \<and> (0 \<le> n \<longrightarrow> 0 \<le> snd (fetch_domains it S cap ft q dms n))"
proof (induction dms arbitrary: n)
  case (Cons dm dms)
  define es where "es = dlq_find_replayable it (case get_domain_max_retries S dm of None \<Rightarrow> cap | Some n \<Rightarrow> n) (Some dm) ft n q"
  have "int (length es) \<le> n" if "0 < n"
    unfolding es_def using that by (rule find_replayable_length [OF assms(1,2)])
  then show ?case using Cons.IH [of "n - int (length es)"] by (auto simp: Let_def split_beta simp flip: es_def)
qed simp

lemma fetch_rest_length:
  "int (length (fst (fetch_rest K es n (fs, ds)))) \<le> int (length fs) + max 0 n"
proof (induction es arbitrary: n fs ds)
  case (Cons e es)
  show ?case using Cons.IH [of "n - 1" "fs @ [e]" "add_new (fo_domain e) ds"] Cons.IH [of n fs ds] by auto
qed simp

lemma fetch_domains_mem:
  "e \<in> set (fst (fst (fetch_domains it S cap ft q dms n))) \<Longrightarrow>
     \<exists>dm \<in> set dms. \<exists>cap' n'. e \<in> set (dlq_find_replayable it cap' (Some dm) ft n' q)"
proof (induction dms arbitrary: n)
  case (Cons dm dms)
  define c where "c = (case get_domain_max_retries S dm of None \<Rightarrow> cap | Some n \<Rightarrow> n)"
  define es where "es = dlq_find_replayable it c (Some dm) ft n q"
  have "e \<in> set es \<or> e \<in> set (fst (fst (fetch_domains it S cap ft q dms (n - int (length es)))))"
    using Cons.prems by (simp add: Let_def split_beta flip: c_def es_def split: if_splits)
  then show ?case using Cons.IH unfolding es_def by (meson list.set_intros)
qed simp

lemma fetch_rest_mem: "e \<in> set (fst (fetch_rest K es n (fs, ds))) \<Longrightarrow> e \<in> set fs \<or> e \<in> set es \<and> fo_domain e \<notin> K"
proof (induction es arbitrary: n fs ds)
  case (Cons x es)
  show ?case using Cons.prems Cons.IH [of "n - 1" "fs @ [x]" "add_new (fo_domain x) ds"] Cons.IH [of n fs ds] by (auto split: if_splits)
qed simp

text \<open>A batch selected by priority has no more entries than the limit.\<close>

lemma priority_batch_bounded:
  assumes "dlq_inv q" and "enumerates it" and "0 \<le> limit"
  shows "int (length (fst (get_entries_by_priority it S ft cap limit q))) \<le> limit"
proof -
  obtain es ds r where f: "fetch_domains it S cap ft q (domains_by_priority (get_domain_priorities S)) limit = ((es, ds), r)"
    by (metis surj_pair)
  have r: "int (length es) = limit - r" "0 \<le> r"
    using fetch_domains_length [OF assms(1,2), of S cap ft "domains_by_priority (get_domain_priorities S)" limit] assms(3) f by simp_all
  have "int (length (fst (fetch_rest K xs r (es, ds)))) \<le> limit" for K xs
    using fetch_rest_length [of K xs r es ds] r by simp
  then show ?thesis using r by (simp add: get_entries_by_priority_def f Let_def)
qed

lemma domains_by_priority_mem: "dm \<in> set (domains_by_priority ps) \<longleftrightarrow> (\<exists>p \<in> set priority_levels. (dm, p) \<in> set ps)"
  by (force simp: domains_by_priority_def)

text \<open>A domain whose priority is none of the three levels is in no batch selected by priority: it is not fetched as a
  domain with a priority, and left out as one that has one.\<close>

theorem misspelt_priority_is_never_selected:
  assumes "enumerates it" and "dict_wf (get_domain_priorities S)" and "dict_get (get_domain_priorities S) dm = Some p"
    and "p \<notin> set priority_levels" and "[] \<notin> fst ` set (get_domain_priorities S)"
    and "e \<in> set (fst (get_entries_by_priority it S ft cap limit (dlq_run xs empty_dlq)))"
  shows "fo_domain e \<noteq> dm"
proof
  assume dm: "fo_domain e = dm"
  define q where "q = dlq_run xs empty_dlq"
  define ps where "ps = get_domain_priorities S"
  have q: "dlq_inv q" by (simp add: q_def dlq_run_inv)
  have mem: "(dm, p) \<in> set ps" using assms(2,3) by (simp add: ps_def dict_wf_mem)
  then have k: "dm \<in> fst ` set ps" by force
  obtain es ds r where f: "fetch_domains it S cap ft q (domains_by_priority ps) limit = ((es, ds), r)" by (metis surj_pair)
  have "e \<in> set es \<or> (\<exists>ys. e \<in> set (fst (fetch_rest (fst ` set ps) ys r (es, ds))))"
    using assms(6) by (auto simp: get_entries_by_priority_def Let_def f simp flip: q_def ps_def split: if_splits)
  then have "e \<in> set es" using fetch_rest_mem [of e "fst ` set ps"] k dm by blast
  then have "e \<in> set (fst (fst (fetch_domains it S cap ft q (domains_by_priority ps) limit)))" by (simp add: f)
  from fetch_domains_mem [OF this] obtain d c n where d: "d \<in> set (domains_by_priority ps)" and e: "e \<in> set (dlq_find_replayable it c (Some d) ft n q)"
    by blast
  have "d \<noteq> []" using d assms(5) by (force simp: domains_by_priority_mem ps_def)
  then have "d = dm" using find_replayable_match(1) [OF q assms(1) e] dm by (simp add: replay_match_def truthy_def)
  moreover have "dict_wf ps" using assms(2) by (simp add: ps_def)
  ultimately show False using d mem assms(4) by (metis domains_by_priority_mem dict_wf_mem option.inject)
qed

definition sample_settings :: "(string, string) dict \<Rightarrow> (string, int) dict \<Rightarrow> replay_settings" where
  "sample_settings ps limits = (None,
     \<lparr>ra_adaptive_enabled = False, ra_priority_enabled = True, ra_domain_priorities = ps, ra_domain_max_retries = limits,
      ra_service_failure_type_map = [], ra_adaptive_min_items = 10, ra_adaptive_max_items = 100, ra_adaptive_initial_items = 50,
      ra_adaptive_failure_threshold = 1 / 5\<rparr>)"

lemma sample_settings_sel [simp]:
  "get_domain_priorities (sample_settings ps limits) = ps" "get_domain_max_retries (sample_settings ps limits) dm = dict_get limits dm"
  by (simp_all add: sample_settings_def get_domain_priorities_def get_domain_max_retries_def setting_of_def)

theorem misspelt_priority_is_never_selected_witness:
  "fo_domain (hd (fst (get_entries_by_priority sorted_list_of_set (sample_settings [(''payment'', ''urgent'')] []) None 3 10
      (dlq_run [Create 0 sample_op, Create 1 (sample_op\<lparr>no_domain := ''orders''\<rparr>)] empty_dlq)))) \<noteq> ''payment''"
proof -
  let ?S = "sample_settings [(''payment'', ''urgent'')] []"
  let ?es = "fst (get_entries_by_priority sorted_list_of_set ?S None 3 10
      (dlq_run [Create 0 sample_op, Create 1 (sample_op\<lparr>no_domain := ''orders''\<rparr>)] empty_dlq))"
  have "length ?es = 1" by code_simp
  then have e: "hd ?es \<in> set ?es" by (intro hd_in_set) auto
  show ?thesis
    by (rule misspelt_priority_is_never_selected [OF enumerates_sorted _ _ _ _ e, of "''payment''" "''urgent''"])
      (simp_all add: priority_levels_def dict_wf_def)
qed

lemma execute_over_limit:
  assumes "stored eid W = Some e" and "fo_status e = PENDING" and "cf_max_replay_attempts cf \<le> fo_retry_count e"
    and "fst (truncate_gate (cf_truncate_blocks cf) e)" and "handler_refusal (get_replay_handler (fo_domain e) (cf_registry cf)) e = None"
  shows "fst (execute_replay cf k eid trigger (Some e) trial W) = result_failed eid ''max_replays_exceeded''
    \<and> st_dlq (snd (execute_replay cf k eid trigger (Some e) trial W)) = st_dlq W"
proof -
  have n: "fst (dlq_try_acquire_for_replay (rc_now k) eid (cf_max_replay_attempts cf) False (st_dlq W)) = None"
    using assms(3) by (simp add: stored_acquire(1) [OF assms(1)])
  have g: "dlq_get_by_id eid (st_dlq W) = Some e" using assms(1) by (simp add: dlq_get_by_id_def stored_def)
  show ?thesis
    using refused_acquire [OF n] assms(2,4,5) by (simp add: execute_replay_def g n Let_def split_beta)
qed

text \<open>A limit of a domain above the global one lets the selection by priority choose an entry that the replay then
  refuses: the acquisition compares the count with the global limit only.\<close>

theorem raised_domain_limit_is_refused:
  assumes "enumerates it" and "dlq_run xs empty_dlq = st_dlq W"
    and "get_domain_priorities S = (dm, ''critical'') # ps" and "get_domain_max_retries S dm = Some n" and "0 < limit"
    and "(pos, e) \<in> set (take (nat limit) (replayable n (Some dm) ft None (st_dlq W)))"
    and "cf_max_replay_attempts cf \<le> fo_retry_count e" and "fst (truncate_gate (cf_truncate_blocks cf) e)"
    and "handler_refusal (get_replay_handler (fo_domain e) (cf_registry cf)) e = None"
  shows "e \<in> set (fst (get_entries_by_priority it S ft (cf_max_replay_attempts cf) limit (st_dlq W)))
    \<and> fst (execute_replay cf k (fo_id e) trigger (Some e) False W) = result_failed (fo_id e) ''max_replays_exceeded''
    \<and> st_dlq (snd (execute_replay cf k (fo_id e) trigger (Some e) False W)) = st_dlq W"
proof -
  have q: "dlq_inv (st_dlq W)" using dlq_run_inv [of empty_dlq xs] assms(2) by simp
  have found: "e \<in> set (dlq_find_replayable it n (Some dm) ft limit (st_dlq W))"
    using assms(6) by (force simp: find_replayable_entries [OF q assms(1)])
  define es where "es = dlq_find_replayable it n (Some dm) ft limit (st_dlq W)"
  define dms where "dms = domains_by_priority (get_domain_priorities S)"
  have keep: "set fs \<subseteq> set (fst (fetch_rest K ys m (fs, ds)))" for K ys m fs ds
  proof (induction ys arbitrary: m fs ds)
    case (Cons y ys)
    show ?case using Cons.IH [of "fs @ [y]" "m - 1" "add_new (fo_domain y) ds"] Cons.IH [of fs m ds] by auto
  qed simp
  obtain xs' ds r where f: "fetch_domains it S (cf_max_replay_attempts cf) ft (st_dlq W) dms limit = ((xs', ds), r)" by (metis surj_pair)
  have "dms = dm # tl dms" by (simp add: dms_def assms(3) domains_by_priority_def priority_levels_def)
  then obtain dms' where "dms = dm # dms'" by blast
  then have "e \<in> set xs'" using f assms(4,5) found by (auto simp: Let_def split_beta)
  then have sel: "e \<in> set (fst (get_entries_by_priority it S ft (cf_max_replay_attempts cf) limit (st_dlq W)))"
    using subsetD [OF keep [of xs']] by (simp add: get_entries_by_priority_def Let_def f flip: dms_def)
  have "fo_status e = PENDING" "e \<in> snd ` set (storage (st_dlq W))"
    using find_replayable_match [OF q assms(1) found] by (simp_all add: replay_match_def)
  moreover have "stored (fo_id e) W = Some e"
    using q calculation(2) by (auto simp: stored_def dlq_inv_def dict_wf_mem dest: dict_allD)
  ultimately show ?thesis
    using sel assms(7-9) execute_over_limit by simp
qed

theorem raised_domain_limit_is_refused_witness:
  "\<exists>e. e \<in> set (fst (get_entries_by_priority sorted_list_of_set (sample_settings [(''payment'', ''critical'')] [(''payment'', 10)]) None 3 5
       (dlq_run [Create 0 (sample_op\<lparr>no_retry_count := 5\<rparr>)] empty_dlq)))
   \<and> fst (execute_replay (sample_config (sample_handler (Pair job_failed))) sample_call (fo_id e) MANUAL_REPLAY (Some e) False
       (parked\<lparr>st_dlq := dlq_run [Create 0 (sample_op\<lparr>no_retry_count := 5\<rparr>)] empty_dlq\<rparr>)) = result_failed (fo_id e) ''max_replays_exceeded''"
proof -
  define q where "q = dlq_run [Create 0 (sample_op\<lparr>no_retry_count := 5\<rparr>)] empty_dlq"
  let ?W = "parked\<lparr>st_dlq := q\<rparr>"
  let ?cf = "sample_config (sample_handler (Pair job_failed))"
  let ?S = "sample_settings [(''payment'', ''critical'')] [(''payment'', 10)]"
  define x where "x = hd (replayable 10 (Some ''payment'') None None q)"
  have "map (\<lambda>(p, e). (fo_retry_count e, fo_domain e, fo_request_data e)) (replayable 10 (Some ''payment'') None None q) = [(5, ''payment'', [])]"
    unfolding q_def by code_simp
  then have x: "replayable 10 (Some ''payment'') None None q = [x]" "fo_retry_count (snd x) = 5" "fo_domain (snd x) = ''payment''"
      "fo_request_data (snd x) = []"
    unfolding x_def by (auto simp: map_eq_Cons_conv)
  have m: "(fst x, snd x) \<in> set (take (nat 5) (replayable 10 (Some ''payment'') None None (st_dlq ?W)))" by (simp add: x(1))
  have t: "fst (truncate_gate (cf_truncate_blocks ?cf) (snd x))" by (simp add: truncate_gate_def x(4) dict_simps py_true_def)
  have h: "handler_refusal (get_replay_handler (fo_domain (snd x)) (cf_registry ?cf)) (snd x) = None" by (simp add: x(3) sample_lookup)
  have W: "dlq_run [Create 0 (sample_op\<lparr>no_retry_count := 5\<rparr>)] empty_dlq = st_dlq ?W" by (simp flip: q_def del: dlq_run.simps)
  have "snd x \<in> set (fst (get_entries_by_priority sorted_list_of_set ?S None 3 5 (st_dlq ?W)))
    \<and> fst (execute_replay ?cf sample_call (fo_id (snd x)) MANUAL_REPLAY (Some (snd x)) False ?W) = result_failed (fo_id (snd x)) ''max_replays_exceeded''"
    using raised_domain_limit_is_refused [OF enumerates_sorted W _ _ _ m _ t h, of ?S "[]"] x(2) by simp
  then show ?thesis by (intro exI [of _ "snd x"]) (simp flip: q_def del: dlq_run.simps)
qed

end
