(* ===== verification/Recovery_Walk.thy ===== *)
theory Recovery_Walk
  imports Replay_Sweep
begin

text \<open>
  The walk that picks the entry of a recovery trial (\<open>_LaneWalk\<close>, \<open>_walk_candidates\<close> and \<open>_examine\<close> of
  \<open>services/replay_service/recovery.py\<close>).  A stored cursor is a text: the position it encodes, or \<open>None\<close> when it
  encodes none.  The source's loop ends only when every lane is walked round, so it is a partial function here, and
  that it returns on the pages of the queue is proved.
\<close>

section \<open>One lane\<close>

type_synonym cursor_text = "position option"

definition TRIAL_CANDIDATE_PAGE :: int where
  "TRIAL_CANDIDATE_PAGE = 20"

record candidate_walk =
  cw_candidate :: "failed_op option"
  cw_cursors :: "(string, cursor_text) dict"
  cw_reached_deadline :: bool

definition new_candidate_walk :: candidate_walk where
  "new_candidate_walk = \<lparr>cw_candidate = None, cw_cursors = [], cw_reached_deadline = False\<rparr>"

record lane_walk =
  lw_lane :: lane
  lw_key :: string
  lw_cursor :: "cursor_text option"
  lw_start :: "position option"
  lw_wrapped :: bool
  lw_done :: bool
  lw_last_page :: bool

text \<open>The position a text decodes to, with no text decoding to none.\<close>

definition decoded :: "cursor_text option \<Rightarrow> position option" where
  "decoded c = (case c of None \<Rightarrow> None | Some p \<Rightarrow> p)"

definition begin_walk :: "(string, cursor_text) dict \<Rightarrow> lane \<Rightarrow> lane_walk" where
  "begin_walk after l =
     (let start = dict_get after (key_of l)
      in \<lparr>lw_lane = l, lw_key = key_of l, lw_cursor = start, lw_start = decoded start, lw_wrapped = (start = None),
          lw_done = False, lw_last_page = False\<rparr>)"

definition move_to :: "position \<Rightarrow> lane_walk \<Rightarrow> candidate_walk \<Rightarrow> lane_walk \<times> candidate_walk" where
  "move_to p lw w = (lw\<lparr>lw_cursor := Some (Some p)\<rparr>, w\<lparr>cw_cursors := dict_set (lw_key lw) (Some p) (cw_cursors w)\<rparr>)"

definition end_reached :: "lane_walk \<Rightarrow> lane_walk" where
  "end_reached lw = (if lw_wrapped lw then lw\<lparr>lw_done := True\<rparr> else lw\<lparr>lw_wrapped := True, lw_cursor := None\<rparr>)"

definition finish_page :: "lane_walk \<Rightarrow> lane_walk" where
  "finish_page lw = (if lw_last_page lw \<and> \<not> lw_done lw then end_reached (lw\<lparr>lw_last_page := False\<rparr>) else lw)"

text \<open>The positions of a page's entries, up to the first past where a wrapped walk began; the flag tells whether there is one.\<close>

fun walk_positioned :: "bool \<Rightarrow> position option \<Rightarrow> failed_op list \<Rightarrow> (position \<times> failed_op) list \<times> bool" where
  "walk_positioned wrapped start [] = ([], False)"
| "walk_positioned wrapped start (e # es) =
     (case fo_created_at e of
        None \<Rightarrow> walk_positioned wrapped start es
      | Some t \<Rightarrow>
          let p = replay_cursor_position t (fo_id e)
          in if wrapped \<and> (case start of None \<Rightarrow> False | Some s \<Rightarrow> p > s) then ([], True)
             else let (found, past_start) = walk_positioned wrapped start es in ((p, e) # found, past_start))"

definition read_page :: "page_reader \<Rightarrow> lane_walk \<Rightarrow> candidate_walk \<Rightarrow> (position \<times> failed_op) list \<times> lane_walk \<times> candidate_walk" where
  "read_page read lw w =
     (let pg = read (lw_lane lw) TRIAL_CANDIDATE_PAGE (decoded (lw_cursor lw))
      in if pg_entries pg = []
         then (case pg_next_cursor pg of
                 Some c \<Rightarrow> if pg_scan_exhausted pg then ([], move_to c lw w) else ([], end_reached lw, w)
               | None \<Rightarrow> ([], end_reached lw, w))
         else
           let (found, past_start) = walk_positioned (lw_wrapped lw) (lw_start lw) (pg_entries pg)
           in if past_start then (found, lw\<lparr>lw_done := True\<rparr>, w)
              else if found = []
              then (case pg_next_cursor pg of
                      Some c \<Rightarrow> if Some (Some c) \<noteq> lw_cursor lw then ([], move_to c lw w) else ([], end_reached lw, w)
                    | None \<Rightarrow> ([], end_reached lw, w))
              else (found, lw\<lparr>lw_last_page := int (length (pg_entries pg)) < TRIAL_CANDIDATE_PAGE \<and> \<not> pg_scan_exhausted pg\<rparr>, w))"

section \<open>The walk\<close>

text \<open>The pages of the lanes that are not done; an entry carries the index of its lane.\<close>

fun read_pages :: "page_reader \<Rightarrow> nat \<Rightarrow> lane_walk list \<Rightarrow> candidate_walk \<Rightarrow> (position \<times> nat \<times> failed_op) list \<times> lane_walk list \<times> candidate_walk" where
  "read_pages read i [] w = ([], [], w)"
| "read_pages read i (lw # lws) w =
     (if lw_done lw
      then let (ms, ls, w1) = read_pages read (i + 1) lws w in (ms, lw # ls, w1)
      else let (found, lw1, w1) = read_page read lw w;
               (ms, ls, w2) = read_pages read (i + 1) lws w1
           in (map (\<lambda>(p, e). (p, i, e)) found @ ms, lw1 # ls, w2))"

text \<open>The gates: the truncation gate and the handler's own answer.\<close>

definition trial_allowed :: "bool option \<Rightarrow> handler \<Rightarrow> failed_op \<Rightarrow> bool" where
  "trial_allowed blocks h e \<longleftrightarrow> fst (truncate_gate blocks e) \<and> handler_refusal h e = None"

text \<open>\<open>me j\<close> is the monotonic clock after entry \<open>j\<close> of the round.\<close>

fun examine ::
    "bool option \<Rightarrow> handler \<Rightarrow> int option \<Rightarrow> (nat \<Rightarrow> int) \<Rightarrow> nat \<Rightarrow> (position \<times> nat \<times> failed_op) list \<Rightarrow> lane_walk list \<Rightarrow> candidate_walk
       \<Rightarrow> bool \<times> lane_walk list \<times> candidate_walk" where
  "examine blocks h deadline me j [] lws w = (False, lws, w)"
| "examine blocks h deadline me j ((p, i, e) # ms) lws w =
     (let (lw1, w1) = (case fo_created_at e of
                         None \<Rightarrow> (lws ! i, w)
                       | Some t \<Rightarrow> move_to (replay_cursor_position t (fo_id e)) (lws ! i) w);
          lws1 = lws[i := lw1]
      in if trial_allowed blocks h e then (True, lws1, w1\<lparr>cw_candidate := Some e\<rparr>)
         else if past_deadline deadline (me j) then (True, lws1, w1\<lparr>cw_reached_deadline := True\<rparr>)
         else examine blocks h deadline me (j + 1) ms lws1 w1)"

text \<open>One round, from the reading of the pages on: whether the walk ends in it.\<close>

definition walk_round ::
    "page_reader \<Rightarrow> bool option \<Rightarrow> handler \<Rightarrow> int option \<Rightarrow> (nat \<Rightarrow> int) \<Rightarrow> lane_walk list \<Rightarrow> candidate_walk \<Rightarrow> bool \<times> lane_walk list \<times> candidate_walk" where
  "walk_round read blocks h deadline me lws w =
     (let (merged, lws1, w1) = read_pages read 0 lws w;
          (stop, lws2, w2) = examine blocks h deadline me 0 (sort_key fst merged) lws1 w1
      in (stop, map2 (\<lambda>was lw. if lw_done was \<or> stop then lw else finish_page lw) lws lws2, w2))"

text \<open>\<open>m n\<close> is the monotonic clock before round \<open>n\<close>.\<close>

partial_function (option) walk_rounds ::
    "page_reader \<Rightarrow> bool option \<Rightarrow> handler \<Rightarrow> int option \<Rightarrow> (nat \<Rightarrow> int) \<Rightarrow> (nat \<Rightarrow> nat \<Rightarrow> int) \<Rightarrow> nat \<Rightarrow> lane_walk list \<Rightarrow> candidate_walk
       \<Rightarrow> candidate_walk option" where
  "walk_rounds read blocks h deadline m me n lws w =
     (if list_all lw_done lws then Some w
      else if past_deadline deadline (m n) then Some (w\<lparr>cw_reached_deadline := True\<rparr>)
      else case walk_round read blocks h deadline (me n) lws w of
             (stop, lws2, w2) \<Rightarrow> if stop then Some w2 else walk_rounds read blocks h deadline m me (n + 1) lws2 w2)"

declare walk_rounds.simps [code]

definition walk_candidates ::
    "replay_config \<Rightarrow> page_reader \<Rightarrow> int option \<Rightarrow> (nat \<Rightarrow> int) \<Rightarrow> (nat \<Rightarrow> nat \<Rightarrow> int) \<Rightarrow> string \<Rightarrow> lane list \<Rightarrow> (string, cursor_text) dict
       \<Rightarrow> candidate_walk option" where
  "walk_candidates cf read deadline m me dm lanes after =
     walk_rounds read (cf_truncate_blocks cf) (get_replay_handler dm (cf_registry cf)) deadline m me 0
       (map (begin_walk after) lanes) new_candidate_walk"

section \<open>One lane in one round\<close>

text \<open>What a round that does not end the walk does to a lane: the entries it yields, and the lane afterwards.\<close>

definition round_found :: "page_reader \<Rightarrow> lane_walk \<Rightarrow> (position \<times> failed_op) list" where
  "round_found read lw = (if lw_done lw then [] else fst (read_page read lw new_candidate_walk))"

definition round_lane :: "page_reader \<Rightarrow> lane_walk \<Rightarrow> lane_walk" where
  "round_lane read lw =
     (if lw_done lw then lw
      else let lw1 = fst (snd (read_page read lw new_candidate_walk)); found = round_found read lw
           in finish_page (if found = [] then lw1 else lw1\<lparr>lw_cursor := Some (Some (fst (last found)))\<rparr>))"

text \<open>What a lane has yet to yield: up to its end and then, unless it has wrapped, up to where it began.\<close>

definition before_start :: "position option \<Rightarrow> position \<Rightarrow> bool" where
  "before_start start p = (case start of None \<Rightarrow> True | Some s \<Rightarrow> p \<le> s)"

definition still_ahead :: "(lane \<Rightarrow> (position \<times> failed_op) list) \<Rightarrow> lane_walk \<Rightarrow> (position \<times> failed_op) set" where
  "still_ahead pool lw =
     (let rest = {x \<in> set (pool (lw_lane lw)). past (decoded (lw_cursor lw)) (fst x)};
          again = {x \<in> set (pool (lw_lane lw)). before_start (lw_start lw) (fst x)}
      in if lw_done lw then {} else if lw_wrapped lw then rest \<inter> again else rest \<union> again)"

definition walk_measure :: "(lane \<Rightarrow> (position \<times> failed_op) list) \<Rightarrow> lane_walk \<Rightarrow> nat" where
  "walk_measure pool lw =
     (if lw_done lw then 0
      else (if lw_wrapped lw then 0 else length (pool (lw_lane lw)) + 1)
           + length (filter (past (decoded (lw_cursor lw)) \<circ> fst) (pool (lw_lane lw))) + 1)"

lemma decoded_simps [simp]: "decoded None = None" "decoded (Some p) = p"
  by (simp_all add: decoded_def)

lemma begin_covers: "still_ahead pool (begin_walk after l) = set (pool l)"
  by (cases "dict_get after (key_of l)")
    (auto simp: still_ahead_def begin_walk_def Let_def before_start_def past_def decoded_def split: option.splits)

lemma walk_positioned_found:
  "walk_positioned wrapped start es = (found, b) \<Longrightarrow>
     (\<forall>e \<in> set es. fo_created_at e \<noteq> None) \<Longrightarrow>
     found = takeWhile (\<lambda>x. \<not> (wrapped \<and> \<not> before_start start (fst x))) (positioned es)
     \<and> (b \<longleftrightarrow> found \<noteq> positioned es)"
proof (induction es arbitrary: found b)
  case Nil
  then show ?case by (auto simp: positioned_def map_filter_simps)
next
  case (Cons e es)
  obtain t where t: "fo_created_at e = Some t" using Cons.prems(2) by auto
  obtain f c where r: "walk_positioned wrapped start es = (f, c)" by fastforce
  have p: "positioned (e # es) = (replay_cursor_position t (fo_id e), e) # positioned es"
    by (simp add: positioned_def map_filter_simps t)
  have c: "(case start of None \<Rightarrow> False | Some s \<Rightarrow> p > s) = (\<not> before_start start p)" for p
    by (simp add: before_start_def not_le split: option.split)
  show ?case
  proof (cases "wrapped \<and> \<not> before_start start (replay_cursor_position t (fo_id e))")
    case True
    then show ?thesis using Cons.prems(1) by (simp add: t p c Let_def)
  next
    case False
    then have "walk_positioned wrapped start (e # es) = ((replay_cursor_position t (fo_id e), e) # f, c)"
      by (simp add: t c Let_def if_not_P [OF False] r del: de_Morgan_conj)
    moreover have "f = takeWhile (\<lambda>x. \<not> (wrapped \<and> \<not> before_start start (fst x))) (positioned es) \<and> (c \<longleftrightarrow> f \<noteq> positioned es)"
      using Cons.IH [OF r] Cons.prems(2) by simp
    moreover have "takeWhile (\<lambda>x. \<not> (wrapped \<and> \<not> before_start start (fst x))) (positioned (e # es)) =
        (replay_cursor_position t (fo_id e), e) # takeWhile (\<lambda>x. \<not> (wrapped \<and> \<not> before_start start (fst x))) (positioned es)"
      using False by (simp add: p)
    ultimately show ?thesis using Cons.prems(1) by (simp only: p prod.inject list.inject) blast
  qed
qed

lemma sorted_takeWhile_filter:
  "sorted (map f xs) \<Longrightarrow> (\<And>x y. f x \<le> f y \<Longrightarrow> P y \<Longrightarrow> P x) \<Longrightarrow> takeWhile P xs = filter P xs"
proof (induction xs)
  case (Cons x xs)
  then show ?case
    by (auto simp: filter_empty_conv) (metis filter_False)
qed simp

lemma sum_list_strict_less:
  fixes f g :: "'a \<Rightarrow> nat"
  assumes "\<And>x. x \<in> set xs \<Longrightarrow> f x \<le> g x" and "\<exists>x \<in> set xs. f x < g x"
  shows "sum_list (map f xs) < sum_list (map g xs)"
  using assms
proof (induction xs)
  case (Cons x xs)
  have le: "sum_list (map f xs) \<le> sum_list (map g xs)" using Cons.prems(1) by (intro sum_list_mono) simp
  show ?case
  proof (cases "f x < g x")
    case True
    then show ?thesis using le by simp
  next
    case False
    then show ?thesis using Cons.IH Cons.prems by (auto simp: add_le_less_mono)
  qed
qed simp

section \<open>Examining the entries of a round\<close>

definition of_lane :: "nat \<Rightarrow> (position \<times> nat \<times> failed_op) list \<Rightarrow> (position \<times> nat \<times> failed_op) list" where
  "of_lane i ms = filter (\<lambda>x. fst (snd x) = i) ms"

definition tagged :: "nat \<Rightarrow> (position \<times> failed_op) list \<Rightarrow> (position \<times> nat \<times> failed_op) list" where
  "tagged i xs = map (\<lambda>(p, e). (p, i, e)) xs"

lemma of_lane_simps [simp]:
  "of_lane i [] = []" "of_lane i (x # ms) = (if fst (snd x) = i then x # of_lane i ms else of_lane i ms)"
  "of_lane i (xs @ ys) = of_lane i xs @ of_lane i ys"
  by (simp_all add: of_lane_def)

lemma of_lane_tagged [simp]: "of_lane i (tagged j xs) = (if i = j then tagged j xs else [])"
  by (induction xs) (auto simp: tagged_def)

lemma tagged_simps [simp]: "tagged i xs = [] \<longleftrightarrow> xs = []" "map fst (tagged i xs) = map fst xs"
  by (simp_all add: tagged_def comp_def split_beta)

lemma fst_last_tagged: "xs \<noteq> [] \<Longrightarrow> fst (last (tagged i xs)) = fst (last xs)"
  by (simp add: tagged_def last_map split_beta)

definition cursor_after :: "(position \<times> nat \<times> failed_op) list \<Rightarrow> lane_walk \<Rightarrow> lane_walk" where
  "cursor_after ms lw = (if ms = [] then lw else lw\<lparr>lw_cursor := Some (Some (fst (last ms)))\<rparr>)"

definition well_placed :: "nat \<Rightarrow> (position \<times> nat \<times> failed_op) list \<Rightarrow> bool" where
  "well_placed n ms \<longleftrightarrow> (\<forall>(p, i, e) \<in> set ms. i < n \<and> (\<exists>t. fo_created_at e = Some t \<and> p = replay_cursor_position t (fo_id e)))"

text \<open>When no entry ends the walk, every lane's cursor stands at the last of its entries.\<close>

lemma examine_all:
  assumes "examine blocks h deadline me j ms lws w = (False, lws1, w1)" and "well_placed (length lws) ms"
  shows "length lws1 = length lws" and "i < length lws \<Longrightarrow> lws1 ! i = cursor_after (of_lane i ms) (lws ! i)"
    and "\<forall>x \<in> set ms. \<not> trial_allowed blocks h (snd (snd x))"
    and "cw_candidate w1 = cw_candidate w \<and> cw_reached_deadline w1 = cw_reached_deadline w"
proof -
  have "length lws1 = length lws \<and> (\<forall>i < length lws. lws1 ! i = cursor_after (of_lane i ms) (lws ! i))
      \<and> (\<forall>x \<in> set ms. \<not> trial_allowed blocks h (snd (snd x)))
      \<and> cw_candidate w1 = cw_candidate w \<and> cw_reached_deadline w1 = cw_reached_deadline w"
    using assms
  proof (induction ms arbitrary: j lws w)
    case (Cons x ms)
    obtain p k e where x: "x = (p, k, e)" by (cases x)
    obtain t where t: "fo_created_at e = Some t" "p = replay_cursor_position t (fo_id e)" and k: "k < length lws"
      using Cons.prems(2) by (auto simp: x well_placed_def)
    let ?l = "lws[k := (lws ! k)\<lparr>lw_cursor := Some (Some p)\<rparr>]"
    let ?w = "w\<lparr>cw_cursors := dict_set (lw_key (lws ! k)) (Some p) (cw_cursors w)\<rparr>"
    have na: "\<not> trial_allowed blocks h e" and r: "examine blocks h deadline me (j + 1) ms ?l ?w = (False, lws1, w1)"
      using Cons.prems(1) by (auto simp: x t move_to_def Let_def split: if_splits)
    have "well_placed (length ?l) ms" using Cons.prems(2) by (simp add: well_placed_def)
    from Cons.IH [OF r this] show ?case using na k
      by (auto simp: x cursor_after_def nth_list_update)
  qed (simp add: cursor_after_def)
  then show "length lws1 = length lws" and "i < length lws \<Longrightarrow> lws1 ! i = cursor_after (of_lane i ms) (lws ! i)"
    and "\<forall>x \<in> set ms. \<not> trial_allowed blocks h (snd (snd x))"
    and "cw_candidate w1 = cw_candidate w \<and> cw_reached_deadline w1 = cw_reached_deadline w" by simp_all
qed

text \<open>When one does, it is an entry that both gates allow, or the deadline has passed.\<close>

lemma examine_stops:
  assumes "examine blocks h deadline me j ms lws w = (True, lws1, w1)"
  shows "(\<exists>x \<in> set ms. cw_candidate w1 = Some (snd (snd x)) \<and> trial_allowed blocks h (snd (snd x)))
       \<or> deadline \<noteq> None \<and> cw_reached_deadline w1 \<and> cw_candidate w1 = cw_candidate w"
  using assms
proof (induction ms arbitrary: j lws w)
  case (Cons x ms)
  obtain p k e where x: "x = (p, k, e)" by (cases x)
  obtain l w2 where l: "(case fo_created_at e of None \<Rightarrow> (lws ! k, w)
      | Some t \<Rightarrow> move_to (replay_cursor_position t (fo_id e)) (lws ! k) w) = (l, w2)" by fastforce
  then have c: "cw_candidate w2 = cw_candidate w" by (auto simp: move_to_def split: option.splits)
  show ?case
  proof (cases "trial_allowed blocks h e")
    case True
    then show ?thesis using Cons.prems by (auto simp: x l Let_def)
  next
    case na: False
    show ?thesis
    proof (cases "past_deadline deadline (me j)")
      case True
      then show ?thesis using Cons.prems na c by (auto simp: x l Let_def past_deadline_def split: option.splits)
    next
      case False
      then have "examine blocks h deadline me (j + 1) ms (lws[k := l]) w2 = (True, lws1, w1)"
        using Cons.prems na by (simp add: x l Let_def)
      from Cons.IH [OF this] c show ?thesis by auto
    qed
  qed
qed simp

section \<open>The walk returns\<close>

context lane_pages
begin

abbreviation rest_of :: "lane_walk \<Rightarrow> (position \<times> failed_op) list" where
  "rest_of lw \<equiv> filter (past (decoded (lw_cursor lw)) \<circ> fst) (pool (lw_lane lw))"

lemma trial_page:
  "pg_entries (read l TRIAL_CANDIDATE_PAGE c) = map snd (take 20 (filter (past c \<circ> fst) (pool l)))"
  using entries [of TRIAL_CANDIDATE_PAGE l c] by (simp add: TRIAL_CANDIDATE_PAGE_def)

lemma positioned_pool:
  assumes "set xs \<subseteq> set (pool l)"
  shows "positioned (map snd xs) = xs" and "\<forall>e \<in> set (map snd xs). fo_created_at e \<noteq> None"
proof -
  have "\<exists>t. fo_created_at e = Some t \<and> p = replay_cursor_position t (fo_id e)" if "(p, e) \<in> set xs" for p e
    using that assms positions [of p e l] by blast
  then show "positioned (map snd xs) = xs" and "\<forall>e \<in> set (map snd xs). fo_created_at e \<noteq> None"
    by (induction xs) (force simp: positioned_def map_filter_simps)+
qed

lemma sorted_rest: "sorted (map fst (rest_of lw))"
  using sorted_pool [of "lw_lane lw"] by (simp add: sorted_wrt_filter sorted_map)

text \<open>The page of a lane: empty at its end, else what precedes the start again, with the flag of having passed it.\<close>

lemma read_page_cases:
  assumes "\<not> lw_done lw"
  defines "P \<equiv> \<lambda>x. lw_wrapped lw \<longrightarrow> before_start (lw_start lw) (fst x)"
  shows "read_page read lw w =
    (if rest_of lw = [] then ([], end_reached lw, w)
     else let page = take 20 (rest_of lw); found = takeWhile P page
          in if found \<noteq> page then (found, lw\<lparr>lw_done := True\<rparr>, w)
             else (page, lw\<lparr>lw_last_page := length page < 20\<rparr>, w))"
proof (cases "rest_of lw = []")
  case True
  then show ?thesis by (simp add: read_page_def trial_page not_exhausted Let_def split: option.split)
next
  case False
  let ?page = "take 20 (rest_of lw)"
  have sub: "set ?page \<subseteq> set (pool (lw_lane lw))" by (auto dest: in_set_takeD)
  obtain found b where f: "walk_positioned (lw_wrapped lw) (lw_start lw) (map snd ?page) = (found, b)" by fastforce
  have P: "P = (\<lambda>x. \<not> (lw_wrapped lw \<and> \<not> before_start (lw_start lw) (fst x)))" by (auto simp: P_def)
  have fb: "found = takeWhile P ?page" "b \<longleftrightarrow> found \<noteq> ?page"
    using walk_positioned_found [OF f positioned_pool(2) [OF sub]] positioned_pool(1) [OF sub] unfolding P by simp_all
  have ne: "map snd ?page \<noteq> []" "?page \<noteq> []" using False by simp_all
  have "read_page read lw w = (if found \<noteq> ?page then (found, lw\<lparr>lw_done := True\<rparr>, w)
      else (?page, lw\<lparr>lw_last_page := length ?page < 20\<rparr>, w))"
  proof (cases b)
    case True
    then show ?thesis unfolding read_page_def Let_def trial_page f if_not_P [OF ne(1)] using fb(2) by simp
  next
    case False
    then have "found = ?page" using fb(2) by simp
    then show ?thesis unfolding read_page_def Let_def trial_page f if_not_P [OF ne(1)]
      using False ne(2) by (simp add: not_exhausted TRIAL_CANDIDATE_PAGE_def)
  qed
  then show ?thesis unfolding Let_def if_not_P [OF False] fb(1) .
qed

lemma page_prefix:
  assumes "takeWhile P (take 20 xs) \<noteq> take 20 xs" and "sorted (map fst xs)"
    and "\<And>x y. fst x \<le> fst y \<Longrightarrow> P y \<Longrightarrow> P x"
  shows "set (takeWhile P (take 20 xs)) = {x \<in> set xs. P x}"
proof -
  obtain x where x: "x \<in> set (take 20 xs)" "\<not> P x"
    using assms(1) by (metis takeWhile_eq_all_conv)
  have "takeWhile P xs = takeWhile P (take 20 xs @ drop 20 xs)" by simp
  also have "\<dots> = takeWhile P (take 20 xs)" using x by (intro takeWhile_append1)
  finally have "takeWhile P (take 20 xs) = filter P xs"
    using sorted_takeWhile_filter [of fst xs P] assms(2,3) by simp
  then show ?thesis by auto
qed

text \<open>In a round a lane yields entries of its pool, loses nothing of what it had ahead, and comes nearer to its end.\<close>

lemma round_lane_step:
  assumes a: "\<not> lw_done lw" "\<not> lw_last_page lw"
  shows "still_ahead pool lw \<subseteq> set (round_found read lw) \<union> still_ahead pool (round_lane read lw)"
    and "set (round_found read lw) \<subseteq> set (pool (lw_lane lw))"
    and "walk_measure pool (round_lane read lw) < walk_measure pool lw"
    and "lw_done (round_lane read lw) \<or> \<not> lw_last_page (round_lane read lw)"
proof -
  let ?P = "\<lambda>x. lw_wrapped lw \<longrightarrow> before_start (lw_start lw) (fst x)" and ?rest = "rest_of lw"
  let ?page = "take 20 ?rest" and ?found = "takeWhile ?P (take 20 ?rest)"
  have len: "length (filter (past None \<circ> fst) P) = length P" for P :: "(position \<times> failed_op) list"
    by (simp add: past_def comp_def)
  consider (empty) "?rest = []" | (round) "?rest \<noteq> []" "?found \<noteq> ?page" | (page) "?rest \<noteq> []" "?found = ?page" by blast
  then have "still_ahead pool lw \<subseteq> set (round_found read lw) \<union> still_ahead pool (round_lane read lw)
    \<and> set (round_found read lw) \<subseteq> set (pool (lw_lane lw))
    \<and> walk_measure pool (round_lane read lw) < walk_measure pool lw
    \<and> (lw_done (round_lane read lw) \<or> \<not> lw_last_page (round_lane read lw))"
  proof cases
    case empty
    then have f: "round_found read lw = []" and l: "round_lane read lw = end_reached lw"
      using a by (simp_all add: round_found_def round_lane_def read_page_cases finish_page_def end_reached_def)
    have "{x \<in> set (pool (lw_lane lw)). past (decoded (lw_cursor lw)) (fst x)} = {}"
      using empty by (auto simp: filter_empty_conv)
    then show ?thesis using a empty
      by (auto simp: f l end_reached_def still_ahead_def walk_measure_def Let_def past_def)
  next
    case round
    then have f: "round_found read lw = ?found" and l: "lw_done (round_lane read lw)"
      using a by (simp_all add: round_found_def round_lane_def read_page_cases finish_page_def Let_def)
    have w: "lw_wrapped lw" using round(2) by (metis takeWhile_eq_all_conv)
    have "set ?found = {x \<in> set ?rest. ?P x}"
      using round(2) sorted_rest by (rule page_prefix) (auto simp: before_start_def split: option.splits)
    then show ?thesis using a w by (auto simp: f l still_ahead_def walk_measure_def Let_def)
  next
    case page
    let ?lw = "lw\<lparr>lw_last_page := False, lw_cursor := Some (Some (fst (last ?page)))\<rparr>"
    have rp: "read_page read lw w = (?page, lw\<lparr>lw_last_page := length ?page < 20\<rparr>, w)" for w
      unfolding read_page_cases [OF a(1)] Let_def page(2) using page(1) by simp
    have f: "round_found read lw = ?page" using a(1) by (simp only: round_found_def rp if_False fst_conv)
    have ne: "?page \<noteq> []" using page(1) by simp
    have l: "round_lane read lw = (if length ?page < 20 then end_reached ?lw else ?lw)"
      unfolding round_lane_def f rp Let_def if_not_P [OF ne] if_not_P [OF a(1)] fst_conv snd_conv finish_page_def
      using a by (cases lw) (simp add: end_reached_def)
    have n: "length ?page - 1 < length ?rest" "last ?page = ?rest ! (length ?page - 1)"
      using page(1) by (simp_all add: last_conv_nth nth_take) (simp add: less_le_trans [of _ "min (length ?rest) 20"] min_def)
    have nx: "rest_of ?lw = drop 20 ?rest"
      using past_nth [OF sorted_pool distinct_pool n(1)] n(2) page(1) by (cases "length ?rest < 20") (simp_all add: min_def)
    have split: "set ?rest = set ?page \<union> set (drop 20 ?rest)"
      by (metis append_take_drop_id set_append)
    have short: "length ?page < 20 \<Longrightarrow> drop 20 ?rest = []" by simp
    have lt: "length (drop 20 ?rest) < length ?rest" using page(1) by simp
    show ?thesis
    proof (cases "length ?page < 20")
      case True
      then have "set ?rest = set ?page" using split short by simp
      moreover have "round_lane read lw = end_reached ?lw" using l True by simp
      ultimately show ?thesis using a len lt
        by (auto simp: f end_reached_def still_ahead_def walk_measure_def Let_def past_def simp del: take_all_iff)
    next
      case False
      then have rl: "round_lane read lw = ?lw" using l by simp
      have "set (rest_of ?lw) = set (drop 20 ?rest)" by (simp only: nx)
      then have "{x \<in> set (pool (lw_lane lw)). past (decoded (lw_cursor lw)) (fst x)}
          \<subseteq> set ?page \<union> {x \<in> set (pool (lw_lane lw)). past (Some (fst (last ?page))) (fst x)}"
        using split by (simp add: set_filter comp_def)
      moreover have "set ?page \<subseteq> set (pool (lw_lane lw))" by (auto dest: in_set_takeD)
      ultimately show ?thesis using a nx lt
        by (simp add: f rl still_ahead_def walk_measure_def Let_def) blast
    qed
  qed
  then show "still_ahead pool lw \<subseteq> set (round_found read lw) \<union> still_ahead pool (round_lane read lw)"
    and "set (round_found read lw) \<subseteq> set (pool (lw_lane lw))"
    and "walk_measure pool (round_lane read lw) < walk_measure pool lw"
    and "lw_done (round_lane read lw) \<or> \<not> lw_last_page (round_lane read lw)" by blast+
qed

lemma read_page_lane:
  assumes "\<not> lw_done lw"
  shows "read_page read lw w = (fst (read_page read lw v), fst (snd (read_page read lw v)), w)"
  unfolding read_page_cases [OF assms] Let_def by (simp only: fst_conv snd_conv split: if_split) simp

definition lane_read :: "lane_walk \<Rightarrow> lane_walk" where
  "lane_read lw = (if lw_done lw then lw else fst (snd (read_page read lw new_candidate_walk)))"

lemma read_pages_eq:
  "read_pages read i lws w =
     (concat (map (\<lambda>(j, lw). tagged (i + j) (round_found read lw)) (enumerate 0 lws)), map lane_read lws, w)"
proof (induction lws arbitrary: i)
  case (Cons lw lws)
  have e: "map (\<lambda>(j, lw). tagged (i + j) (round_found read lw)) (enumerate 0 (lw # lws)) =
      tagged i (round_found read lw) # map (\<lambda>(j, lw). tagged (i + 1 + j) (round_found read lw)) (enumerate 0 lws)"
    by (simp add: enumerate_Suc_eq comp_def split_beta)
  show ?case
  proof (cases "lw_done lw")
    case True
    then show ?thesis unfolding e concat.simps by (simp add: Cons.IH round_found_def [of read lw] lane_read_def [of lw])
  next
    case False
    then show ?thesis unfolding e concat.simps
      using read_page_lane [OF False, of w new_candidate_walk]
      by (simp add: Cons.IH round_found_def [of read lw] lane_read_def [of lw] tagged_def [of i])
  qed
qed simp

lemma of_lane_concat:
  "k < length lws \<Longrightarrow> of_lane k (concat (map (\<lambda>(j, lw). tagged j (round_found read lw)) (enumerate 0 lws))) = tagged k (round_found read (lws ! k))"
proof (induction lws rule: rev_induct)
  case (snoc lw lws)
  have "of_lane (length lws) (concat (map (\<lambda>(j, lw). tagged j (round_found read lw)) (enumerate 0 lws))) = []"
    by (auto simp: of_lane_def filter_empty_conv tagged_def in_set_enumerate_eq)
  then show ?case using snoc by (auto simp: enumerate_append_eq nth_append less_Suc_eq)
qed simp

lemma round_found_sorted: "sorted (map fst (round_found read lw))"
proof (cases "lw_done lw")
  case False
  have "sorted (map fst (takeWhile P (take 20 (rest_of lw))))" for P
    using sorted_rest [of lw] by (metis map_append sorted_append take_map takeWhile_dropWhile_id sorted_wrt_take)
  moreover have "sorted (map fst (take 20 (rest_of lw)))"
    using sorted_rest [of lw] by (metis take_map sorted_wrt_take)
  ultimately show ?thesis using False by (simp add: round_found_def read_page_cases Let_def)
qed (simp add: round_found_def)

lemma round_found_sub: "set (round_found read lw) \<subseteq> set (pool (lw_lane lw))"
  by (cases "lw_done lw")
    (auto simp: round_found_def read_page_cases Let_def dest!: set_takeWhileD in_set_takeD split: if_splits)

lemma walk_round_cases:
  assumes r: "walk_round read blocks h deadline me lws w = (stop, lws2, w2)"
  shows "\<not> stop \<Longrightarrow> lws2 = map (round_lane read) lws
      \<and> (\<forall>lw \<in> set lws. \<forall>x \<in> set (round_found read lw). \<not> trial_allowed blocks h (snd x))
      \<and> cw_candidate w2 = cw_candidate w \<and> cw_reached_deadline w2 = cw_reached_deadline w"
    and "stop \<Longrightarrow> (\<exists>lw \<in> set lws. \<exists>x \<in> set (pool (lw_lane lw)). cw_candidate w2 = Some (snd x) \<and> trial_allowed blocks h (snd x))
      \<or> deadline \<noteq> None \<and> cw_reached_deadline w2 \<and> cw_candidate w2 = cw_candidate w"
proof -
  let ?M = "concat (map (\<lambda>(j, lw). tagged j (round_found read lw)) (enumerate 0 lws))"
  have M: "(p, i, e) \<in> set ?M \<longleftrightarrow> i < length lws \<and> (p, e) \<in> set (round_found read (lws ! i))" for p i e
  proof -
    have "(p, i, e) \<in> set ?M \<longleftrightarrow> (\<exists>j lw. (j, lw) \<in> set (enumerate 0 lws) \<and> (p, i, e) \<in> set (tagged j (round_found read lw)))" by auto
    also have "\<dots> \<longleftrightarrow> i < length lws \<and> (p, e) \<in> set (round_found read (lws ! i))"
      by (auto simp: tagged_def in_set_enumerate_eq)
    finally show ?thesis .
  qed
  obtain lws3 where ex: "examine blocks h deadline me 0 (sort_key fst ?M) (map lane_read lws) w = (stop, lws3, w2)"
    and l2: "lws2 = map2 (\<lambda>was lw. if lw_done was \<or> stop then lw else finish_page lw) lws lws3"
    using r unfolding walk_round_def read_pages_eq [of 0, unfolded add_0] Let_def prod.case by (simp only: split: prod.splits) blast
  have wp: "well_placed (length (map lane_read lws)) (sort_key fst ?M)"
    unfolding well_placed_def set_sort length_map
  proof (rule ballI, clarify)
    fix t eid i e assume "((t, eid), i, e) \<in> set ?M"
    then have "i < length lws" "((t, eid), e) \<in> set (pool (lw_lane (lws ! i)))" using M round_found_sub by blast+
    then show "i < length lws \<and> (\<exists>u. fo_created_at e = Some u \<and> (t, eid) = replay_cursor_position u (fo_id e))" using positions by blast
  qed
  have lane: "of_lane k (sort_key fst ?M) = tagged k (round_found read (lws ! k))" if "k < length lws" for k
    unfolding of_lane_def filter_sort of_lane_concat [OF that, unfolded of_lane_def]
    by (simp add: sort_key_id_if_sorted round_found_sorted)
  { assume ns: "\<not> stop"
    note ea = examine_all [OF ex [unfolded eq_False [THEN iffD2, OF ns]] wp]
    have "lws2 ! k = round_lane read (lws ! k)" if k: "k < length lws" for k
    proof -
      have "lws3 ! k = cursor_after (tagged k (round_found read (lws ! k))) (lane_read (lws ! k))"
        using ea(2) [of k] lane [OF k] k by simp
      then show ?thesis using k ns ea(1)
        by (auto simp: l2 round_lane_def cursor_after_def lane_read_def round_found_def fst_last_tagged Let_def)
    qed
    moreover have "length lws2 = length lws" using ea(1) by (simp add: l2)
    ultimately have "lws2 = map (round_lane read) lws" by (simp add: list_eq_iff_nth_eq)
    moreover have "\<not> trial_allowed blocks h (snd x)" if "lw \<in> set lws" "x \<in> set (round_found read lw)" for lw x
    proof -
      obtain i where "i < length lws" "lw = lws ! i" using \<open>lw \<in> set lws\<close> by (auto simp: in_set_conv_nth)
      then have "(fst x, i, snd x) \<in> set ?M" using that(2) M by simp
      then have "(fst x, i, snd x) \<in> set (sort_key fst ?M)" by (simp only: set_sort)
      from bspec [OF ea(3) this] show ?thesis by simp
    qed
    ultimately show "lws2 = map (round_lane read) lws
      \<and> (\<forall>lw \<in> set lws. \<forall>x \<in> set (round_found read lw). \<not> trial_allowed blocks h (snd x))
      \<and> cw_candidate w2 = cw_candidate w \<and> cw_reached_deadline w2 = cw_reached_deadline w"
      using ea(4) by blast }
  { assume stop
    from examine_stops [OF ex [unfolded eq_True [THEN iffD2, OF this]]]
    show "(\<exists>lw \<in> set lws. \<exists>x \<in> set (pool (lw_lane lw)). cw_candidate w2 = Some (snd x) \<and> trial_allowed blocks h (snd x))
      \<or> deadline \<noteq> None \<and> cw_reached_deadline w2 \<and> cw_candidate w2 = cw_candidate w"
    proof
      assume "\<exists>x \<in> set (sort_key fst ?M). cw_candidate w2 = Some (snd (snd x)) \<and> trial_allowed blocks h (snd (snd x))"
      then obtain p i e where x: "(p, i, e) \<in> set ?M" "cw_candidate w2 = Some e" "trial_allowed blocks h e"
        unfolding set_sort by (metis prod.collapse)
      then have "lws ! i \<in> set lws" "(p, e) \<in> set (pool (lw_lane (lws ! i)))"
        using M round_found_sub nth_mem by blast+
      then show ?thesis using x by force
    qed blast }
qed

lemma round_lane_keeps: "lw_lane (round_lane read lw) = lw_lane lw"
  by (cases "lw_done lw") (auto simp: round_lane_def read_page_cases finish_page_def end_reached_def Let_def)

lemma walk_rounds_returns:
  assumes "\<forall>lw \<in> set lws. lw_done lw \<or> \<not> lw_last_page lw" and "cw_candidate w = None" and "\<not> cw_reached_deadline w"
  shows "\<exists>v. walk_rounds read blocks h deadline m me n lws w = Some v \<and>
    (case cw_candidate v of
       Some e \<Rightarrow> trial_allowed blocks h e \<and> (\<exists>lw \<in> set lws. e \<in> snd ` set (pool (lw_lane lw)))
     | None \<Rightarrow> if cw_reached_deadline v then deadline \<noteq> None
               else \<forall>lw \<in> set lws. \<forall>x \<in> still_ahead pool lw. \<not> trial_allowed blocks h (snd x))"
  using assms
proof (induction "\<Sum>lw \<leftarrow> lws. walk_measure pool lw" arbitrary: lws w n rule: less_induct)
  case less
  show ?case
  proof (cases "list_all lw_done lws")
    case True
    then show ?thesis using less.prems
      by (auto simp: walk_rounds.simps [of read blocks h deadline m me n lws w] still_ahead_def list_all_iff)
  next
    case nd: False
    show ?thesis
    proof (cases "past_deadline deadline (m n)")
      case True
      then show ?thesis using nd less.prems
        by (auto simp: walk_rounds.simps [of read blocks h deadline m me n lws w] past_deadline_def split: option.splits)
    next
      case False
      obtain stop lws2 w2 where r: "walk_round read blocks h deadline (me n) lws w = (stop, lws2, w2)" by (metis surj_pair)
      note rc = walk_round_cases [OF r]
      have unfold: "walk_rounds read blocks h deadline m me n lws w =
          (if stop then Some w2 else walk_rounds read blocks h deadline m me (n + 1) lws2 w2)"
        using nd False by (simp add: walk_rounds.simps [of read blocks h deadline m me n lws w] r)
      show ?thesis
      proof (cases stop)
        case True
        then show ?thesis using rc(2) less.prems(2) unfold by (auto split: option.splits intro!: bexI intro: rev_image_eqI)
      next
        case ns: False
        then have l2: "lws2 = map (round_lane read) lws" and c2: "cw_candidate w2 = None" "\<not> cw_reached_deadline w2"
          and na: "\<forall>lw \<in> set lws. \<forall>x \<in> set (round_found read lw). \<not> trial_allowed blocks h (snd x)"
          using rc(1) less.prems by simp_all
        have inv: "lw_done (round_lane read lw) \<or> \<not> lw_last_page (round_lane read lw)"
          and le: "walk_measure pool (round_lane read lw) \<le> walk_measure pool lw"
          and cov: "still_ahead pool lw \<subseteq> set (round_found read lw) \<union> still_ahead pool (round_lane read lw)"
          if "lw \<in> set lws" for lw
          using round_lane_step [of lw] less.prems(1) that
          by (cases "lw_done lw"; force simp: round_lane_def still_ahead_def)+
        obtain lw0 where lw0: "lw0 \<in> set lws" "\<not> lw_done lw0" using nd by (auto simp: list_all_iff)
        then have "walk_measure pool (round_lane read lw0) < walk_measure pool lw0"
          using round_lane_step(3) [of lw0] less.prems(1) by blast
        then have "(\<Sum>lw \<leftarrow> lws2. walk_measure pool lw) < (\<Sum>lw \<leftarrow> lws. walk_measure pool lw)"
          unfolding l2 map_map using le lw0(1) by (intro sum_list_strict_less) auto
        from less.hyps [OF this _ c2, of "n + 1"] inv
        obtain v where "walk_rounds read blocks h deadline m me (n + 1) lws2 w2 = Some v"
          and v: "case cw_candidate v of
             Some e \<Rightarrow> trial_allowed blocks h e \<and> (\<exists>lw \<in> set lws2. e \<in> snd ` set (pool (lw_lane lw)))
           | None \<Rightarrow> if cw_reached_deadline v then deadline \<noteq> None
                     else \<forall>lw \<in> set lws2. \<forall>x \<in> still_ahead pool lw. \<not> trial_allowed blocks h (snd x)"
          by (auto simp: l2)
        then have "walk_rounds read blocks h deadline m me n lws w = Some v" using unfold ns by simp
        moreover have "\<forall>lw \<in> set lws. \<forall>x \<in> still_ahead pool lw. \<not> trial_allowed blocks h (snd x)"
          if "\<forall>lw \<in> set lws2. \<forall>x \<in> still_ahead pool lw. \<not> trial_allowed blocks h (snd x)"
          using that na cov by (simp add: l2) blast
        moreover have "(\<exists>lw \<in> set lws2. e \<in> snd ` set (pool (lw_lane lw))) = (\<exists>lw \<in> set lws. e \<in> snd ` set (pool (lw_lane lw)))" for e
          by (simp add: l2 round_lane_keeps)
        ultimately show ?thesis using v by (cases "cw_candidate v"; cases "cw_reached_deadline v") simp_all
      qed
    qed
  qed
qed

end

lemma walk_of_queue:
  assumes "enumerates it" and "dlq_inv q"
    and "allowed = trial_allowed (cf_truncate_blocks cf) (get_replay_handler dm (cf_registry cf))"
  shows "\<exists>w. walk_candidates cf (lane_page it cap q) deadline m me dm lanes after = Some w \<and>
    (case cw_candidate w of
       Some e \<Rightarrow> allowed e \<and> (\<exists>l \<in> set lanes. e \<in> snd ` set (lane_pool cap q l))
     | None \<Rightarrow> if cw_reached_deadline w then deadline \<noteq> None
               else \<forall>l \<in> set lanes. \<forall>e \<in> snd ` set (lane_pool cap q l). \<not> allowed e)"
proof -
  have L: "lane_pages (lane_page it cap q) (lane_pool cap q)" using assms(1,2) by (auto intro: lane_pages_dlq)
  have "\<forall>lw \<in> set (map (begin_walk after) lanes). lw_done lw \<or> \<not> lw_last_page lw"
    by (simp add: begin_walk_def Let_def)
  from lane_pages.walk_rounds_returns [OF L this, where w = new_candidate_walk and n = 0 and m = m and me = me
      and deadline = deadline and blocks = "cf_truncate_blocks cf" and h = "get_replay_handler dm (cf_registry cf)"]
  obtain w where "walk_candidates cf (lane_page it cap q) deadline m me dm lanes after = Some w"
    and w: "case cw_candidate w of
       Some e \<Rightarrow> allowed e \<and> (\<exists>lw \<in> set (map (begin_walk after) lanes). e \<in> snd ` set (lane_pool cap q (lw_lane lw)))
     | None \<Rightarrow> if cw_reached_deadline w then deadline \<noteq> None
               else \<forall>lw \<in> set (map (begin_walk after) lanes). \<forall>x \<in> still_ahead (lane_pool cap q) lw. \<not> allowed (snd x)"
    unfolding walk_candidates_def assms(3) by (auto simp: new_candidate_walk_def)
  moreover have "lw_lane (begin_walk after l) = l" for l by (simp add: begin_walk_def Let_def)
  ultimately show ?thesis
    by (intro exI [of _ w]) (cases "cw_candidate w"; cases "cw_reached_deadline w"; simp add: begin_covers)
qed

text \<open>(C21) The walk over the lanes of a recovery returns, whatever cursors it starts from.  The entry it returns is one of the
  lanes' and passes both gates; it returns none only if no entry of any lane passes them, or at a deadline.\<close>

theorem walk_finds_a_candidate:
  assumes "enumerates it" and "dlq_run xs empty_dlq = q" and "recovery_lanes (cf_registry cf) dm ftm = lanes"
    and "allowed = trial_allowed (cf_truncate_blocks cf) (get_replay_handler dm (cf_registry cf))"
  shows "\<exists>w. walk_candidates cf (lane_page it cap q) deadline m me dm lanes after = Some w \<and>
    (case cw_candidate w of
       Some e \<Rightarrow> allowed e \<and> (\<exists>l \<in> set lanes. e \<in> snd ` set (lane_pool cap q l))
     | None \<Rightarrow> if cw_reached_deadline w then deadline \<noteq> None
               else \<forall>l \<in> set lanes. \<forall>e \<in> snd ` set (lane_pool cap q l). \<not> allowed e)"
proof -
  have "dlq_inv q" unfolding assms(2) [symmetric] by (rule dlq_run_inv) simp
  from walk_of_queue [OF assms(1) this assms(4)] show ?thesis .
qed

text \<open>Two parked entries, walked from past the first: the second is the candidate.\<close>

theorem walk_finds_a_candidate_witness:
  "\<exists>w. walk_candidates ((sample_config (sample_handler (Pair job_failed)))\<lparr>cf_registry := sample_registry\<rparr>)
      (lane_page sorted_list_of_set 3 two_parked) None (\<lambda>_. 0) (\<lambda>_ _. 0) ''payment'' sample_lanes
      [(''timeout|payment'', Some (0, ''1''))] = Some w
    \<and> cw_candidate w \<noteq> None"
proof -
  let ?cf = "(sample_config (sample_handler (Pair job_failed)))\<lparr>cf_registry := sample_registry\<rparr>"
  have l: "recovery_lanes (cf_registry ?cf) ''payment'' [] = sample_lanes" by code_simp
  have "list_ex (\<lambda>l. list_ex (\<lambda>x. trial_allowed (cf_truncate_blocks ?cf) (get_replay_handler ''payment'' (cf_registry ?cf)) (snd x))
      (lane_pool 3 two_parked l)) sample_lanes" by code_simp
  then have "\<exists>l \<in> set sample_lanes. \<exists>e \<in> snd ` set (lane_pool 3 two_parked l).
      trial_allowed (cf_truncate_blocks ?cf) (get_replay_handler ''payment'' (cf_registry ?cf)) e"
    by (auto simp: list_ex_iff)
  then show ?thesis
    using walk_finds_a_candidate [OF enumerates_sorted two_parked_run l refl, of 3 None "\<lambda>_. 0" "\<lambda>_ _. 0" "[(''timeout|payment'', Some (0, ''1''))]"]
    by (auto split: option.splits if_splits)
qed

end
