(* ===== verification/Backoff.thy ===== *)
theory Backoff
  imports Py_Float Prelude
begin

text \<open>
  The delays between attempts (\<open>core/backoff.py\<close>).  A call of \<open>random.uniform\<close> reads one draw \<open>u\<close> of \<open>random.random()\<close>,
  which lies in \<open>[0, 1)\<close> and is an argument of the functions here.  The power of two floats is the C library's: a parameter
  \<open>fpow\<close> whose value \<open>None\<close> is the \<open>OverflowError\<close>.  A product that overflows to infinity compares like one above the
  cap, which is what it is in a model without a largest double.
\<close>

section \<open>Jitter\<close>

definition py_uniform :: "rat \<Rightarrow> rat \<Rightarrow> rat \<Rightarrow> rat" where
  "py_uniform u a b = fl (a + fl (fl (b - a) * u))"

definition apply_capped_jitter :: "rat \<Rightarrow> rat \<Rightarrow> rat \<Rightarrow> bool \<Rightarrow> rat \<Rightarrow> rat" where
  "apply_capped_jitter u raw_delay max_delay jitter jitter_factor =
     (if \<not> jitter then max 0 (min raw_delay max_delay)
      else if raw_delay \<ge> max_delay then max 0 (fl (max_delay - py_uniform u 0 (fmul max_delay jitter_factor)))
      else let jitter_range = fmul raw_delay jitter_factor;
               jittered = fl (raw_delay + py_uniform u (- jitter_range) jitter_range)
           in max 0 (min jittered max_delay))"

section \<open>The strategies\<close>

record exponential_backoff =
  eb_base_delay :: rat
  eb_max_delay :: rat
  eb_multiplier :: rat
  eb_jitter :: bool
  eb_jitter_factor :: rat

record linear_backoff =
  lb_base_delay :: rat
  lb_increment :: rat
  lb_max_delay :: rat
  lb_jitter :: bool
  lb_jitter_factor :: rat

record constant_backoff =
  kb_delay :: rat
  kb_jitter :: bool
  kb_jitter_factor :: rat
  kb_max_delay :: "rat option"

record decorrelated_backoff =
  db_base_delay :: rat
  db_max_delay :: rat
  db_previous_delay :: "rat option"

datatype backoff_strategy =
    ExponentialBackoff exponential_backoff
  | LinearBackoff linear_backoff
  | ConstantBackoff constant_backoff
  | DecorrelatedJitterBackoff decorrelated_backoff

definition exponential_raw :: "(rat \<Rightarrow> int \<Rightarrow> rat option) \<Rightarrow> exponential_backoff \<Rightarrow> int \<Rightarrow> rat" where
  "exponential_raw fpow b attempt =
     (case fpow (eb_multiplier b) (attempt - 1) of
        None \<Rightarrow> eb_max_delay b
      | Some x \<Rightarrow> fmul (eb_base_delay b) x)"

definition exponential_calculate :: "(rat \<Rightarrow> int \<Rightarrow> rat option) \<Rightarrow> rat \<Rightarrow> int \<Rightarrow> exponential_backoff \<Rightarrow> rat" where
  "exponential_calculate fpow u attempt b =
     apply_capped_jitter u (exponential_raw fpow b attempt) (eb_max_delay b) (eb_jitter b) (eb_jitter_factor b)"

definition linear_calculate :: "rat \<Rightarrow> int \<Rightarrow> linear_backoff \<Rightarrow> rat" where
  "linear_calculate u attempt b =
     apply_capped_jitter u (fl (lb_base_delay b + fmul (lb_increment b) (fl (of_int (attempt - 1)))))
       (lb_max_delay b) (lb_jitter b) (lb_jitter_factor b)"

definition constant_calculate :: "rat \<Rightarrow> int \<Rightarrow> constant_backoff \<Rightarrow> rat" where
  "constant_calculate u attempt b =
     (case kb_max_delay b of
        Some mx \<Rightarrow> apply_capped_jitter u (kb_delay b) mx (kb_jitter b) (kb_jitter_factor b)
      | None \<Rightarrow> if kb_jitter b
                then let jitter_range = fmul (kb_delay b) (kb_jitter_factor b)
                     in max 0 (fl (kb_delay b + py_uniform u (- jitter_range) jitter_range))
                else kb_delay b)"

definition decorrelated_calculate :: "rat \<Rightarrow> int \<Rightarrow> decorrelated_backoff \<Rightarrow> rat \<times> decorrelated_backoff" where
  "decorrelated_calculate u attempt b =
     (let d = min (case db_previous_delay b of
                     None \<Rightarrow> db_base_delay b
                   | Some p \<Rightarrow> if attempt = 1 then db_base_delay b else py_uniform u (db_base_delay b) (fmul p 3))
                  (db_max_delay b)
      in (d, b\<lparr>db_previous_delay := Some d\<rparr>))"

fun calculate :: "(rat \<Rightarrow> int \<Rightarrow> rat option) \<Rightarrow> rat \<Rightarrow> int \<Rightarrow> backoff_strategy \<Rightarrow> rat \<times> backoff_strategy" where
  "calculate fpow u attempt (ExponentialBackoff b) = (exponential_calculate fpow u attempt b, ExponentialBackoff b)"
| "calculate fpow u attempt (LinearBackoff b) = (linear_calculate u attempt b, LinearBackoff b)"
| "calculate fpow u attempt (ConstantBackoff b) = (constant_calculate u attempt b, ConstantBackoff b)"
| "calculate fpow u attempt (DecorrelatedJitterBackoff b) =
     (let (d, b1) = decorrelated_calculate u attempt b in (d, DecorrelatedJitterBackoff b1))"

fun backoff_reset :: "backoff_strategy \<Rightarrow> backoff_strategy" where
  "backoff_reset (DecorrelatedJitterBackoff b) = DecorrelatedJitterBackoff (b\<lparr>db_previous_delay := None\<rparr>)"
| "backoff_reset b = b"

text \<open>\<open>delays(n)\<close>, with one draw for each delay: the attempts from \<open>i\<close> on.\<close>

fun delays_from :: "(rat \<Rightarrow> int \<Rightarrow> rat option) \<Rightarrow> int \<Rightarrow> rat list \<Rightarrow> backoff_strategy \<Rightarrow> rat list \<times> backoff_strategy" where
  "delays_from fpow i [] b = ([], b)"
| "delays_from fpow i (u # us) b =
     (let (d, b1) = calculate fpow u i b; (ds, b2) = delays_from fpow (i + 1) us b1 in (d # ds, b2))"

definition delays :: "(rat \<Rightarrow> int \<Rightarrow> rat option) \<Rightarrow> rat list \<Rightarrow> backoff_strategy \<Rightarrow> rat list \<times> backoff_strategy" where
  "delays fpow us b = delays_from fpow 1 us b"

section \<open>Construction\<close>

text \<open>Keyword arguments: those that were passed.\<close>

record backoff_args =
  ka_base_delay :: "rat option"
  ka_max_delay :: "rat option"
  ka_multiplier :: "rat option"
  ka_increment :: "rat option"
  ka_delay :: "rat option"
  ka_jitter :: "bool option"
  ka_jitter_factor :: "rat option"

definition no_args :: backoff_args where
  "no_args = \<lparr>ka_base_delay = None, ka_max_delay = None, ka_multiplier = None, ka_increment = None, ka_delay = None,
     ka_jitter = None, ka_jitter_factor = None\<rparr>"

abbreviation given :: "'a option \<Rightarrow> 'a \<Rightarrow> 'a" where
  "given x d \<equiv> (case x of None \<Rightarrow> d | Some v \<Rightarrow> v)"

datatype backoff_error =
    UnknownStrategy string
  | UnexpectedArgument

definition get_backoff_calculator :: "string \<Rightarrow> backoff_args \<Rightarrow> backoff_error + backoff_strategy" where
  "get_backoff_calculator strategy k =
     (if strategy = ''exponential'' then
        if ka_increment k = None \<and> ka_delay k = None
        then Inr (ExponentialBackoff \<lparr>eb_base_delay = given (ka_base_delay k) 1, eb_max_delay = given (ka_max_delay k) 60,
               eb_multiplier = given (ka_multiplier k) 2, eb_jitter = given (ka_jitter k) True,
               eb_jitter_factor = given (ka_jitter_factor k) (fl (2 / 10))\<rparr>)
        else Inl UnexpectedArgument
      else if strategy = ''linear'' then
        if ka_multiplier k = None \<and> ka_delay k = None
        then Inr (LinearBackoff \<lparr>lb_base_delay = given (ka_base_delay k) 1, lb_increment = given (ka_increment k) 1,
               lb_max_delay = given (ka_max_delay k) 60, lb_jitter = given (ka_jitter k) False,
               lb_jitter_factor = given (ka_jitter_factor k) (fl (1 / 10))\<rparr>)
        else Inl UnexpectedArgument
      else if strategy = ''constant'' then
        if ka_base_delay k = None \<and> ka_multiplier k = None \<and> ka_increment k = None
        then Inr (ConstantBackoff \<lparr>kb_delay = given (ka_delay k) 5, kb_jitter = given (ka_jitter k) False,
               kb_jitter_factor = given (ka_jitter_factor k) (fl (1 / 10)), kb_max_delay = ka_max_delay k\<rparr>)
        else Inl UnexpectedArgument
      else if strategy = ''decorrelated'' then
        if ka_multiplier k = None \<and> ka_increment k = None \<and> ka_delay k = None \<and> ka_jitter k = None \<and> ka_jitter_factor k = None
        then Inr (DecorrelatedJitterBackoff \<lparr>db_base_delay = given (ka_base_delay k) 1, db_max_delay = given (ka_max_delay k) 60,
               db_previous_delay = None\<rparr>)
        else Inl UnexpectedArgument
      else Inl (UnknownStrategy strategy))"

text \<open>\<open>from_settings\<close> takes a field from its overrides or else from the settings; an override it does not read is ignored.\<close>

record backoff_settings =
  bs_exponential_base_delay :: rat
  bs_exponential_max_delay :: rat
  bs_exponential_multiplier :: rat
  bs_exponential_jitter_factor :: rat
  bs_linear_base_delay :: rat
  bs_linear_increment :: rat
  bs_linear_max_delay :: rat
  bs_linear_jitter_factor :: rat
  bs_constant_delay :: rat
  bs_constant_jitter_factor :: rat
  bs_decorrelated_base_delay :: rat
  bs_decorrelated_max_delay :: rat

definition exponential_from_settings :: "backoff_settings \<Rightarrow> backoff_args \<Rightarrow> exponential_backoff" where
  "exponential_from_settings s k =
     \<lparr>eb_base_delay = given (ka_base_delay k) (bs_exponential_base_delay s), eb_max_delay = given (ka_max_delay k) (bs_exponential_max_delay s),
      eb_multiplier = given (ka_multiplier k) (bs_exponential_multiplier s), eb_jitter = given (ka_jitter k) True,
      eb_jitter_factor = given (ka_jitter_factor k) (bs_exponential_jitter_factor s)\<rparr>"

definition linear_from_settings :: "backoff_settings \<Rightarrow> backoff_args \<Rightarrow> linear_backoff" where
  "linear_from_settings s k =
     \<lparr>lb_base_delay = given (ka_base_delay k) (bs_linear_base_delay s), lb_increment = given (ka_increment k) (bs_linear_increment s),
      lb_max_delay = given (ka_max_delay k) (bs_linear_max_delay s), lb_jitter = given (ka_jitter k) False,
      lb_jitter_factor = given (ka_jitter_factor k) (bs_linear_jitter_factor s)\<rparr>"

definition constant_from_settings :: "backoff_settings \<Rightarrow> backoff_args \<Rightarrow> constant_backoff" where
  "constant_from_settings s k =
     \<lparr>kb_delay = given (ka_delay k) (bs_constant_delay s), kb_jitter = given (ka_jitter k) False,
      kb_jitter_factor = given (ka_jitter_factor k) (bs_constant_jitter_factor s), kb_max_delay = None\<rparr>"

definition decorrelated_from_settings :: "backoff_settings \<Rightarrow> backoff_args \<Rightarrow> decorrelated_backoff" where
  "decorrelated_from_settings s k =
     \<lparr>db_base_delay = given (ka_base_delay k) (bs_decorrelated_base_delay s), db_max_delay = given (ka_max_delay k) (bs_decorrelated_max_delay s),
      db_previous_delay = None\<rparr>"

text \<open>The ranges the settings are validated against.\<close>

definition valid_backoff_settings :: "backoff_settings \<Rightarrow> bool" where
  "valid_backoff_settings s \<longleftrightarrow>
     (let short = (\<lambda>x. fl (1 / 10) \<le> x \<and> x \<le> 60); long = (\<lambda>x. 1 \<le> x \<and> x \<le> 3600); factor = (\<lambda>x. 0 \<le> x \<and> x \<le> 1)
      in short (bs_exponential_base_delay s) \<and> long (bs_exponential_max_delay s)
       \<and> fl (11 / 10) \<le> bs_exponential_multiplier s \<and> bs_exponential_multiplier s \<le> 10 \<and> factor (bs_exponential_jitter_factor s)
       \<and> short (bs_linear_base_delay s) \<and> short (bs_linear_increment s) \<and> 1 \<le> bs_linear_max_delay s \<and> bs_linear_max_delay s \<le> 600
       \<and> factor (bs_linear_jitter_factor s) \<and> fl (1 / 10) \<le> bs_constant_delay s \<and> bs_constant_delay s \<le> 300
       \<and> factor (bs_constant_jitter_factor s) \<and> short (bs_decorrelated_base_delay s) \<and> long (bs_decorrelated_max_delay s))"

section \<open>The laws of a draw\<close>

lemma representable_fl [simp]: "representable (fl x)"
proof -
  have p: "representable (fl_pos x)" if x: "0 < x" for x
  proof -
    let ?n = "round_even (x / ulp x)"
    have "of_int ?n * ulp x \<le> 2 ^ 53 * ulp x" "2 ^ 52 * ulp x \<le> of_int ?n * ulp x"
      using fl_pos_bounds [OF x] by (simp_all add: fl_pos_def powi_exp2_ulp)
    then have "(of_int ?n :: rat) \<le> of_int (2 ^ 53)" "of_int (2 ^ 52) \<le> (of_int ?n :: rat)" by simp_all
    then have n: "?n \<le> 2 ^ 53" "2 ^ 52 \<le> ?n" by (simp_all only: of_int_le_iff)
    show ?thesis
    proof (cases "?n = 2 ^ 53")
      case True
      then have "fl_pos x = of_int 1 * 2 powi (exp2 x + 1)" by (simp add: fl_pos_def powi_exp2_ulp)
      then show ?thesis using representableI [of 1 "exp2 x + 1"] by simp
    next
      case False
      then show ?thesis using n representableI [of ?n "exp2 x - 52"] by (simp add: fl_pos_def ulp_def)
    qed
  qed
  have z: "representable 0" using representable_of_int [of 0] by simp
  show ?thesis using p [of x] p [of "- x"] z by (simp add: fl_def representable_minus)
qed

lemma fl_nonneg: "0 \<le> x \<Longrightarrow> 0 \<le> fl x"
  using fl_mono [of 0 x] by simp

text \<open>Between 0 and a double, and between a double and its opposite, a draw stays within its ends.\<close>

lemma uniform_bounds:
  assumes u: "0 \<le> u" "u \<le> 1"
  shows "0 \<le> j \<Longrightarrow> representable j \<Longrightarrow> 0 \<le> py_uniform u 0 j \<and> py_uniform u 0 j \<le> j"
    and "0 \<le> j \<Longrightarrow> representable j \<Longrightarrow> - j \<le> py_uniform u (- j) j \<and> py_uniform u (- j) j \<le> j"
    and "representable a \<Longrightarrow> a \<le> b \<Longrightarrow> a \<le> py_uniform u a b"
    and "representable a \<Longrightarrow> 0 \<le> a \<Longrightarrow> 0 \<le> b \<Longrightarrow> 0 \<le> py_uniform u a b"
proof -
  have part: "0 \<le> fl (d * u) \<and> fl (d * u) \<le> d" if "0 \<le> d" "representable d" for d
    using that u fl_below [of d "d * u"] by (auto simp: fl_nonneg mult_left_le)
  { assume "0 \<le> j" "representable j"
    then show "0 \<le> py_uniform u 0 j \<and> py_uniform u 0 j \<le> j"
      using part [of j] by (simp add: py_uniform_def fl_representable) }
  { assume j: "0 \<le> j" "representable j"
    obtain m k where "j = of_int m * 2 powi k" "\<bar>m\<bar> < 2 ^ 53" using j(2) by (auto simp: representable_def)
    then have r: "representable (2 * j)" using representableI [of m "k + 1"] by (simp add: power_int_add mult.commute mult.left_commute)
    have "- j \<le> fl (- j + fl (2 * j * u))" using part [OF _ r] j by (intro fl_above) (simp_all add: representable_minus)
    moreover have "fl (- j + fl (2 * j * u)) \<le> j" using part [OF _ r] j by (intro fl_below) simp_all
    ultimately show "- j \<le> py_uniform u (- j) j \<and> py_uniform u (- j) j \<le> j"
      using r by (simp add: py_uniform_def fl_representable) }
  { assume a: "representable a" "a \<le> b"
    then show "a \<le> py_uniform u a b"
      using part [of "fl (b - a)"] fl_nonneg [of "b - a"] unfolding py_uniform_def by (intro fl_above) simp_all }
  { assume a: "representable a" "0 \<le> a" "0 \<le> b"
    then have d: "- a \<le> fl (b - a)" using fl_above [of "- a" "b - a"] by (simp add: representable_minus)
    have "- a \<le> fl (b - a) * u"
    proof (cases "0 \<le> fl (b - a)")
      case True
      then show ?thesis using u a(2) mult_nonneg_nonneg [of "fl (b - a)" u] by linarith
    next
      case False
      then have "fl (b - a) \<le> fl (b - a) * u" using u by (simp add: mult_le_cancel_left2)
      then show ?thesis using d by linarith
    qed
    then have "- a \<le> fl (fl (b - a) * u)" using a(1) by (intro fl_above) (simp_all add: representable_minus)
    then show "0 \<le> py_uniform u a b" unfolding py_uniform_def by (intro fl_nonneg) simp }
qed

section \<open>The cap\<close>

fun cap_of :: "backoff_strategy \<Rightarrow> rat option" where
  "cap_of (ExponentialBackoff b) = Some (eb_max_delay b)"
| "cap_of (LinearBackoff b) = Some (lb_max_delay b)"
| "cap_of (ConstantBackoff b) = kb_max_delay b"
| "cap_of (DecorrelatedJitterBackoff b) = Some (db_max_delay b)"

text \<open>Delays and factors are not negative, and the doubles that the arithmetic starts from are doubles.\<close>

fun backoff_ok :: "backoff_strategy \<Rightarrow> bool" where
  "backoff_ok (ExponentialBackoff b) \<longleftrightarrow> 0 \<le> eb_max_delay b \<and> representable (eb_max_delay b) \<and> 0 \<le> eb_jitter_factor b"
| "backoff_ok (LinearBackoff b) \<longleftrightarrow> 0 \<le> lb_max_delay b \<and> representable (lb_max_delay b) \<and> 0 \<le> lb_jitter_factor b"
| "backoff_ok (ConstantBackoff b) \<longleftrightarrow>
     (case kb_max_delay b of None \<Rightarrow> True | Some mx \<Rightarrow> 0 \<le> mx \<and> representable mx) \<and> 0 \<le> kb_jitter_factor b"
| "backoff_ok (DecorrelatedJitterBackoff b) \<longleftrightarrow>
     0 \<le> db_max_delay b \<and> 0 \<le> db_base_delay b \<and> representable (db_base_delay b)
     \<and> (case db_previous_delay b of None \<Rightarrow> True | Some p \<Rightarrow> 0 \<le> p)"

lemma capped_jitter_bounds:
  assumes "0 \<le> mx" and "representable mx" and "0 \<le> f" and "0 \<le> u" and "u \<le> 1"
  shows "0 \<le> apply_capped_jitter u raw mx j f \<and> apply_capped_jitter u raw mx j f \<le> mx"
proof -
  have "0 \<le> py_uniform u 0 (fmul mx f)"
    using assms uniform_bounds(1) [of u "fmul mx f"] by (simp add: fmul_def fl_nonneg)
  then have "fl (mx - py_uniform u 0 (fmul mx f)) \<le> mx" using assms(2) by (intro fl_below) simp_all
  then show ?thesis using assms(1) by (simp add: apply_capped_jitter_def Let_def)
qed

lemma calculate_bounds:
  assumes "backoff_ok b" and "cap_of b = Some mx" and "0 \<le> u" and "u < 1" and "calculate fpow u i b = (d, b1)"
  shows "0 \<le> d \<and> d \<le> mx \<and> backoff_ok b1 \<and> cap_of b1 = Some mx"
proof (cases b)
  case (DecorrelatedJitterBackoff x)
  have "0 \<le> py_uniform u (db_base_delay x) (fmul p 3)" if "db_previous_delay x = Some p" for p
    using uniform_bounds(4) [of u "db_base_delay x" "fmul p 3"] assms that
    by (simp add: DecorrelatedJitterBackoff fmul_def fl_nonneg)
  then show ?thesis using assms
    by (auto simp: DecorrelatedJitterBackoff decorrelated_calculate_def Let_def split: option.splits if_splits)
qed (use assms capped_jitter_bounds [of mx] in
      \<open>auto simp: exponential_calculate_def linear_calculate_def constant_calculate_def split: option.splits\<close>)

text \<open>Whatever is drawn, every delay of a schedule lies between zero and the strategy's cap: the cap bounds what is
  returned, jitter included, and the power may overflow.\<close>

theorem delays_within_cap:
  assumes "backoff_ok b" and "cap_of b = Some mx" and "\<forall>u \<in> set us. 0 \<le> u \<and> u < 1"
  shows "\<forall>d \<in> set (fst (delays fpow us b)). 0 \<le> d \<and> d \<le> mx"
proof -
  have "backoff_ok b \<Longrightarrow> cap_of b = Some mx \<Longrightarrow> \<forall>d \<in> set (fst (delays_from fpow i us b)). 0 \<le> d \<and> d \<le> mx" for i
    using assms(3)
  proof (induction us arbitrary: i b)
    case (Cons u us)
    obtain d b1 where c: "calculate fpow u i b = (d, b1)" by (cases "calculate fpow u i b")
    have "0 \<le> d \<and> d \<le> mx \<and> backoff_ok b1 \<and> cap_of b1 = Some mx"
      using calculate_bounds [OF Cons.prems(1,2) _ _ c] Cons.prems(3) by simp
    with Cons.IH [of b1 "i + 1"] Cons.prems(3) show ?case by (auto simp: c split: prod.split)
  qed simp
  then show ?thesis using assms(1,2) by (simp add: delays_def)
qed

text \<open>A power with the doubles' range: a model of the C function.\<close>

definition rounded_pow :: "rat \<Rightarrow> int \<Rightarrow> rat option" where
  "rounded_pow m k = (let x = fl (m powi k) in if \<bar>x\<bar> < 2 powi 1024 then Some x else None)"

theorem delays_within_cap_witness:
  "length (fst (delays rounded_pow [1/2, 0, 3/4] (DecorrelatedJitterBackoff \<lparr>db_base_delay = 1, db_max_delay = 60, db_previous_delay = None\<rparr>))) = 3
   \<and> hd (fst (delays rounded_pow [1/2, 0, 3/4] (DecorrelatedJitterBackoff \<lparr>db_base_delay = 1, db_max_delay = 60, db_previous_delay = None\<rparr>))) \<le> 60"
proof -
  let ?b = "DecorrelatedJitterBackoff \<lparr>db_base_delay = 1, db_max_delay = 60, db_previous_delay = None\<rparr>"
  have len: "length (fst (delays_from fpow i us b)) = length us" for fpow i us b
    by (induction us arbitrary: i b) (simp_all add: case_prod_beta Let_def)
  have "representable 1" using representable_of_int [of 1] by simp
  then have "\<forall>d \<in> set (fst (delays rounded_pow [1/2, 0, 3/4] ?b)). 0 \<le> d \<and> d \<le> 60"
    by (intro delays_within_cap) auto
  moreover have "length (fst (delays rounded_pow [1/2, 0, 3/4] ?b)) = 3" by (simp only: delays_def len) simp
  ultimately show ?thesis by (metis list.size(3) list.set_sel(1) zero_neq_numeral)
qed

section \<open>The jitter\<close>

text \<open>With jitter a delay stays within its factor of the delay without: below the cap on either side of it, at the
  cap only below.\<close>

theorem jitter_stays_around:
  assumes "0 \<le> raw" and "0 \<le> mx" and "representable mx" and "0 \<le> f" and "0 \<le> u" and "u < 1"
    and d: "d = apply_capped_jitter u raw mx True f" and e: "e = apply_capped_jitter u raw mx False f"
  shows "fl (e - fmul e f) \<le> d \<and> d \<le> min mx (fl (e + fmul e f))"
proof (cases "raw \<ge> mx")
  case True
  then have e': "e = mx" using assms by (simp add: e apply_capped_jitter_def)
  have j: "0 \<le> fmul mx f" using assms by (simp add: fmul_def fl_nonneg)
  have u: "0 \<le> py_uniform u 0 (fmul mx f)" "py_uniform u 0 (fmul mx f) \<le> fmul mx f"
    using uniform_bounds(1) [of u "fmul mx f"] assms j by (simp_all add: fmul_def)
  have "fl (mx - fmul mx f) \<le> fl (mx - py_uniform u 0 (fmul mx f))" using u by (intro fl_mono) simp
  moreover have "fl (mx - py_uniform u 0 (fmul mx f)) \<le> mx" using u assms by (intro fl_below) simp_all
  moreover have "mx \<le> fl (mx + fmul mx f)" using j assms by (intro fl_above) simp_all
  ultimately show ?thesis using True assms by (simp add: d e' apply_capped_jitter_def)
next
  case False
  then have e': "e = raw" using assms by (simp add: e apply_capped_jitter_def)
  let ?j = "fmul raw f"
  have j: "0 \<le> ?j" using assms by (simp add: fmul_def fl_nonneg)
  have u: "- ?j \<le> py_uniform u (- ?j) ?j" "py_uniform u (- ?j) ?j \<le> ?j"
    using uniform_bounds(2) [of u ?j] assms j by (simp_all add: fmul_def)
  have "fl (raw - ?j) \<le> fl (raw + py_uniform u (- ?j) ?j)" "fl (raw + py_uniform u (- ?j) ?j) \<le> fl (raw + ?j)"
    using u by (auto intro: fl_mono)
  moreover have "fl (raw - ?j) \<le> mx" using False j assms by (intro fl_below) simp_all
  moreover have "0 \<le> fl (raw + ?j)" using j assms by (intro fl_nonneg) simp
  ultimately show ?thesis using False assms(2) by (auto simp: d e' apply_capped_jitter_def Let_def)
qed

theorem jitter_stays_around_witness:
  "fl (2 - fmul 2 (1/4)) \<le> apply_capped_jitter (1/2) 2 60 True (1/4)
   \<and> apply_capped_jitter (1/2) 2 60 True (1/4) \<le> min 60 (fl (2 + fmul 2 (1/4)))"
proof -
  have "representable 60" using representable_of_int [of 60] by simp
  from jitter_stays_around [OF _ _ this, of 2 "1/4" "1/2", OF _ _ _ _ _ refl refl] show ?thesis
    by (simp add: apply_capped_jitter_def)
qed

section \<open>Growth\<close>

text \<open>What the delays rely on of the power: it is 1 at the exponent 0, and it does not fall, nor come back from an
  overflow, as the exponent grows.\<close>

definition pow_grows :: "(rat \<Rightarrow> int \<Rightarrow> rat option) \<Rightarrow> rat \<Rightarrow> bool" where
  "pow_grows fpow m \<longleftrightarrow> fpow m 0 = Some 1
     \<and> (\<forall>k n. 0 \<le> k \<longrightarrow> k \<le> n \<longrightarrow> (case fpow m n of None \<Rightarrow> True | Some y \<Rightarrow> (case fpow m k of None \<Rightarrow> False | Some x \<Rightarrow> x \<le> y)))"

lemma rounded_pow_grows: "1 \<le> m \<Longrightarrow> pow_grows rounded_pow m"
proof -
  assume m: "1 \<le> m"
  have "fl 1 = 1" using fl_of_int [of 1] by simp
  moreover have "(1::rat) < 2 powi 1024" by (simp add: power_int_def)
  moreover have "0 \<le> fl (m powi k) \<and> fl (m powi k) \<le> fl (m powi n)" if "0 \<le> k" "k \<le> n" for k n
    using m that by (auto intro!: fl_mono fl_nonneg power_int_increasing)
  ultimately show ?thesis by (fastforce simp: pow_grows_def rounded_pow_def Let_def)
qed

lemma exponential_raw_grows:
  assumes "pow_grows fpow (eb_multiplier b)" and "0 \<le> eb_base_delay b" and "1 \<le> i" and "i \<le> k"
  shows "min (exponential_raw fpow b i) (eb_max_delay b) \<le> min (exponential_raw fpow b k) (eb_max_delay b)"
proof (cases "fpow (eb_multiplier b) (k - 1)")
  case (Some y)
  moreover obtain x where "fpow (eb_multiplier b) (i - 1) = Some x" "x \<le> y"
    using assms Some pow_grows_def [of fpow "eb_multiplier b", THEN iffD1, THEN conjunct2, rule_format, of "i - 1" "k - 1"]
    by (auto split: option.splits)
  ultimately have "exponential_raw fpow b i \<le> exponential_raw fpow b k"
    using assms(2) by (simp add: exponential_raw_def fmul_def fl_mono mult_left_mono)
  then show ?thesis by (simp add: min.coboundedI1)
qed (simp add: exponential_raw_def)

text \<open>Without jitter the exponential delays start at the base delay and never fall from one attempt to a later one, also
  past the attempt at which the power overflows.\<close>

theorem exponential_delays_grow:
  assumes "pow_grows fpow (eb_multiplier b)" and "\<not> eb_jitter b" and "0 \<le> eb_base_delay b" and "representable (eb_base_delay b)"
    and "eb_base_delay b \<le> eb_max_delay b" and "1 \<le> i" and "i \<le> k"
  shows "exponential_calculate fpow u 1 b = eb_base_delay b
    \<and> exponential_calculate fpow u i b \<le> exponential_calculate fpow v k b"
  using exponential_raw_grows [OF assms(1,3,6,7)] assms
  by (auto simp: exponential_calculate_def apply_capped_jitter_def exponential_raw_def pow_grows_def fmul_def fl_representable)

theorem exponential_delays_grow_witness:
  "exponential_calculate rounded_pow 0 1 \<lparr>eb_base_delay = 60, eb_max_delay = 540, eb_multiplier = 2, eb_jitter = False, eb_jitter_factor = 0\<rparr> = 60"
proof -
  have "representable 60" using representable_of_int [of 60] by simp
  then show ?thesis
    using exponential_delays_grow [OF rounded_pow_grows, of
        "\<lparr>eb_base_delay = 60, eb_max_delay = 540, eb_multiplier = 2, eb_jitter = False, eb_jitter_factor = 0\<rparr>" 1 1 0 0] by simp
qed

section \<open>Settings\<close>

text \<open>On settings that pass their validation, with no override, every strategy is in order; all but the constant one have a cap, the
  one configured.\<close>

lemma settings_backoff_ok:
  assumes "valid_backoff_settings s"
    and "representable (bs_exponential_max_delay s)" and "representable (bs_linear_max_delay s)" and "representable (bs_decorrelated_base_delay s)"
  shows "backoff_ok (ExponentialBackoff (exponential_from_settings s no_args))"
    and "backoff_ok (LinearBackoff (linear_from_settings s no_args))"
    and "backoff_ok (ConstantBackoff (constant_from_settings s no_args))"
    and "backoff_ok (DecorrelatedJitterBackoff (decorrelated_from_settings s no_args))"
  using assms fl_nonneg [of "1 / 10"]
  by (auto simp: valid_backoff_settings_def no_args_def exponential_from_settings_def linear_from_settings_def constant_from_settings_def
      decorrelated_from_settings_def)

end
