(* ===== verification/Recovery_Trial.thy ===== *)
theory Recovery_Trial
  imports Recovery_Walk Backoff CB_Evidence
begin

text \<open>
  The recovery tick (\<open>services/replay_service/recovery.py\<close>): the pacing record of a job name, the checks before a trial, the
  trial, the dispatch of the sweep after a success, and the loop over the job names with parked work.  What a tick reads
  from outside (clocks, the breaker service, the integrity gate, the kill switch and governance, whether a message could be
  published) is in the records \<open>tick_env\<close> and \<open>domain_reads\<close>.  A tick that would not return is \<open>None\<close>.
\<close>

section \<open>Cursors as texts\<close>

text \<open>\<open>f"{x:.6f}"\<close> for an instant's seconds.\<close>

definition pad6 :: "nat \<Rightarrow> string" where
  "pad6 n = (let s = nat_str n in replicate (6 - length s) (CHR ''0'') @ s)"

definition us_text :: "instant \<Rightarrow> string" where
  "us_text t = (if t < 0 then ''-'' else []) @ nat_str (nat (\<bar>t\<bar> div 1000000)) @ ''.'' @ pad6 (nat (\<bar>t\<bar> mod 1000000))"

definition encode_replay_cursor :: "position \<Rightarrow> string" where
  "encode_replay_cursor p = us_text (fst p) @ ''|'' @ snd p"

text \<open>\<open>fus\<close> is \<open>round(float(head), 6)\<close> in microseconds, \<open>None\<close> when \<open>float\<close> raises.  Texts of infinities and NaN are left out.\<close>

definition decode_replay_cursor :: "(string \<Rightarrow> int option) \<Rightarrow> string \<Rightarrow> position option" where
  "decode_replay_cursor fus cursor =
     (case dropWhile (\<lambda>c. c \<noteq> CHR ''|'') cursor of
        [] \<Rightarrow> None
      | _ # eid \<Rightarrow> map_option (\<lambda>t. (t, eid)) (fus (takeWhile (\<lambda>c. c \<noteq> CHR ''|'') cursor)))"

section \<open>Constants\<close>

definition RECOVERY_TRIAL_BASE_SECONDS :: int where
  "RECOVERY_TRIAL_BASE_SECONDS = 60"

definition RECOVERY_TRIAL_MAX_SECONDS :: int where
  "RECOVERY_TRIAL_MAX_SECONDS = 540"

definition LONGEST_REPLAY_TASK_MINUTES :: int where
  "LONGEST_REPLAY_TASK_MINUTES = 10"

definition PACING_KEY_PREFIX :: string where
  "PACING_KEY_PREFIX = ''replay:recovery_trial:''"

definition TRIAL_BACKOFF :: exponential_backoff where
  "TRIAL_BACKOFF = \<lparr>eb_base_delay = of_int RECOVERY_TRIAL_BASE_SECONDS, eb_max_delay = of_int RECOVERY_TRIAL_MAX_SECONDS,
     eb_multiplier = 2, eb_jitter = False, eb_jitter_factor = fl (2 / 10)\<rparr>"

datatype tick_status = TICK_DISABLED | TICK_IDLE | TICK_COMPLETED | TICK_UNSUPPORTED | TICK_BREAKER_STATE_UNAVAILABLE
  | TICK_GOVERNANCE_BLOCKED | TICK_INTEGRITY_BLOCKED

datatype trial_skip = SKIP_BREAKER_REFUSING | SKIP_OPERATOR_HOLD | SKIP_NO_LANES | SKIP_NOT_DUE | SKIP_RECOVERY_RUNNING
  | SKIP_LOCK_UNAVAILABLE | SKIP_NO_CANDIDATE | SKIP_DEADLINE

datatype trial_outcome = OUTCOME_SUCCEEDED | OUTCOME_FAILED | OUTCOME_STILL_RUNNING | OUTCOME_BREAKER_REFUSED | OUTCOME_NOT_RUN

datatype sweep_dispatch = DISPATCHED | SKIPPED_DISABLED | CELERY_MISSING | DISPATCH_ERROR
  | DISPATCH_LEFT_TO_CLOSED_EVENT | DISPATCH_HELD_BY_REFUSAL | DISPATCH_HELD_BY_PIN

section \<open>Pacing\<close>

text \<open>\<open>tp_next_at\<close> is a float, infinities and NaN included: a stored record can carry them.\<close>

record trial_pacing =
  tp_streak :: int
  tp_next_at :: pyval
  tp_after :: "(string, string) dict"

definition new_trial_pacing :: trial_pacing where
  "new_trial_pacing = \<lparr>tp_streak = 0, tp_next_at = PFloat 0, tp_after = []\<rparr>"

definition is_due :: "rat \<Rightarrow> trial_pacing \<Rightarrow> bool" where
  "is_due now p = (case tp_next_at p of PFloat x \<Rightarrow> now \<ge> x | PNegInf \<Rightarrow> True | _ \<Rightarrow> False)"

definition pacing_to_value :: "trial_pacing \<Rightarrow> pyval" where
  "pacing_to_value p =
     PDict [(''streak'', PInt (tp_streak p)), (''next_at'', tp_next_at p), (''after'', PDict (map (\<lambda>(k, s). (k, PStr s)) (tp_after p)))]"

text \<open>\<open>str(v)\<close>; \<open>rep\<close> is the rendering of floats and containers.\<close>

definition py_str :: "(pyval \<Rightarrow> string) \<Rightarrow> pyval \<Rightarrow> string" where
  "py_str rep v = (case v of PStr s \<Rightarrow> s | PInt n \<Rightarrow> int_str n | PBool b \<Rightarrow> if b then ''True'' else ''False'' | PNone \<Rightarrow> ''None'' | _ \<Rightarrow> rep v)"

text \<open>\<open>None\<close> when \<open>float\<close> of a huge int raises.\<close>

definition pacing_from_value :: "(pyval \<Rightarrow> string) \<Rightarrow> pyval option \<Rightarrow> trial_pacing option" where
  "pacing_from_value rep value =
     (case value of
        Some (PDict d) \<Rightarrow>
          let streak = (case dict_get_or d ''streak'' (PInt 0) of PInt n \<Rightarrow> if n < 0 then 0 else n | _ \<Rightarrow> 0);
              after = (case dict_get_or d ''after'' (PDict []) of PDict a \<Rightarrow> map (\<lambda>(k, v). (k, py_str rep v)) (filter (\<lambda>(k, v). py_true v) a) | _ \<Rightarrow> []);
              next_at = (case dict_get_or d ''next_at'' (PFloat 0) of
                           PInt n \<Rightarrow> if \<bar>fl (of_int n)\<bar> < 2 powi 1024 then Some (PFloat (fl (of_int n))) else None
                         | PFloat x \<Rightarrow> Some (PFloat x) | PInf \<Rightarrow> Some PInf | PNegInf \<Rightarrow> Some PNegInf | PNaN \<Rightarrow> Some PNaN
                         | _ \<Rightarrow> Some (PFloat 0))
          in map_option (\<lambda>x. \<lparr>tp_streak = streak, tp_next_at = x, tp_after = after\<rparr>) next_at
      | _ \<Rightarrow> Some new_trial_pacing)"

definition read_pacing :: "(pyval \<Rightarrow> string) \<Rightarrow> instant \<Rightarrow> string \<Rightarrow> stores \<Rightarrow> trial_pacing \<times> stores" where
  "read_pacing rep now dm W =
     (case st_cache W of
        None \<Rightarrow> (new_trial_pacing, W)
      | Some c \<Rightarrow> let (v, c1) = cache_get now (PACING_KEY_PREFIX @ dm) c
                  in (case pacing_from_value rep v of None \<Rightarrow> new_trial_pacing | Some p \<Rightarrow> p, W\<lparr>st_cache := Some c1\<rparr>))"

definition write_pacing :: "instant \<Rightarrow> string \<Rightarrow> trial_pacing \<Rightarrow> stores \<Rightarrow> stores" where
  "write_pacing now dm p W =
     W\<lparr>st_cache := map_option (cache_set now (PACING_KEY_PREFIX @ dm) (pacing_to_value p) (Some (seconds (2 * RECOVERY_TRIAL_MAX_SECONDS)))) (st_cache W)\<rparr>"

definition delete_pacing :: "string \<Rightarrow> stores \<Rightarrow> stores" where
  "delete_pacing dm W = W\<lparr>st_cache := map_option (\<lambda>c. snd (cache_delete (PACING_KEY_PREFIX @ dm) c)) (st_cache W)\<rparr>"

section \<open>Readings\<close>

text \<open>The breaker service as one read finds it; its rows are the fleet's.\<close>

type_synonym breaker_view = "env \<times> svc"

definition read_fleet_breaker_rows :: "breaker_view \<Rightarrow> cb_row list" where
  "read_fleet_breaker_rows v = repo_get_all_states (repository (snd v))"

definition rows_by_domain :: "cb_row list \<Rightarrow> (string, cb_row list) dict" where
  "rows_by_domain rows =
     fold (\<lambda>r d. let dm = resolve_stored_domain (PStr (service_name r)) in dict_set dm (dict_get_or d dm [] @ [r]) d) rows []"

definition projecting :: "breaker_view \<Rightarrow> string \<Rightarrow> cb_row list" where
  "projecting v dm = dict_get_or (rows_by_domain (read_fleet_breaker_rows v)) dm []"

definition refuses :: "breaker_view \<Rightarrow> cb_row \<Rightarrow> bool" where
  "refuses v r = fst (svc_refuses_calls (fst v) r (snd v))"

definition is_pinned :: "breaker_view \<Rightarrow> cb_row \<Rightarrow> bool" where
  "is_pinned v r = is_manual_pin_active (at_time (fst v)) r"

datatype publish = PUBLISHED | IMPORT_ERROR | PUBLISH_RAISES

record sweep_message =
  sm_service_name :: string
  sm_max_items :: int
  sm_max_continuations :: int
  sm_trigger :: string
  sm_escalate_failures :: bool
  sm_operator_requested :: bool

text \<open>For a whole tick: the replay service's configuration, the settings, and the parameters of the model.\<close>

record tick_env =
  te_config :: replay_config
  te_on_recovery_enabled :: bool
  te_trial_enabled :: bool
  te_max_items :: int
  te_max_continuations :: int
  te_stale_minutes :: int
  te_gives_back :: bool
  te_failure_types :: "(string, pyval) dict"
  te_lock_ttl :: int
  te_deadline :: "int option"
  te_iter :: "string set \<Rightarrow> string list"
  te_fpow :: "rat \<Rightarrow> int \<Rightarrow> rat option"
  te_float :: "string \<Rightarrow> int option"
  te_repr :: "pyval \<Rightarrow> string"

text \<open>For one job name, in the order in which they are made.\<close>

record domain_reads =
  dr_mono :: int
  dr_first :: breaker_view
  dr_now :: instant
  dr_clock :: rat
  dr_owner :: string
  dr_clock_locked :: rat
  dr_walk :: "nat \<Rightarrow> int"
  dr_walk_entry :: "nat \<Rightarrow> nat \<Rightarrow> int"
  dr_integrity :: bool
  dr_before :: "breaker_view option"
  dr_switch :: bool
  dr_governance :: governance_result
  dr_clock_paced :: rat
  dr_call :: replay_call
  dr_stopped :: bool
  dr_mono_after :: int
  dr_after :: "breaker_view option"
  dr_publish :: publish

section \<open>The tick\<close>

record trial_record =
  tr_domain :: string
  tr_dlq_id :: string
  tr_outcome :: trial_outcome
  tr_dispatch :: "sweep_dispatch option"

record recovery_tick_result =
  tk_status :: tick_status
  tk_released :: nat
  tk_trials :: "trial_record list"
  tk_skipped :: "(string, trial_skip) dict"

definition skip_domain :: "string \<Rightarrow> trial_skip \<Rightarrow> recovery_tick_result \<Rightarrow> recovery_tick_result" where
  "skip_domain dm r res = res\<lparr>tk_skipped := dict_set dm r (tk_skipped res)\<rparr>"

definition stale_release_minutes :: "int \<Rightarrow> int" where
  "stale_release_minutes configured = max configured LONGEST_REPLAY_TASK_MINUTES"

definition release_stale :: "tick_env \<Rightarrow> instant \<Rightarrow> stores \<Rightarrow> nat \<times> stores" where
  "release_stale te now W = on_dlq (dlq_release_stale_replaying now (stale_release_minutes (te_stale_minutes te))) W"

text \<open>\<open>minute\<close> is \<open>int(clock // 60)\<close>.\<close>

definition domains_with_work :: "tick_env \<Rightarrow> nat \<Rightarrow> stores \<Rightarrow> string list" where
  "domains_with_work te minute W =
     (let with_work = filter (\<lambda>dm. dlq_get_pending_count_by_domain dm (st_dlq W) \<noteq> 0) (registered_replay_domains (cf_registry (te_config te)));
          start = minute mod length with_work
      in if with_work = [] then [] else drop start with_work @ take start with_work)"

definition classify_trial :: "replay_result \<Rightarrow> trial_outcome" where
  "classify_trial r =
     (if \<not> rr_handler_ran r then OUTCOME_NOT_RUN
      else if skip_reason r = Some REASON_BREAKER_REFUSED then OUTCOME_BREAKER_REFUSED
      else if rr_skipped r then OUTCOME_NOT_RUN
      else if rr_success r then if fst (job_start_flags r) then OUTCOME_SUCCEEDED else OUTCOME_NOT_RUN
      else if rr_work_may_continue r then OUTCOME_STILL_RUNNING
      else OUTCOME_FAILED)"

definition skip_for_rows :: "breaker_view \<Rightarrow> string \<Rightarrow> cb_row list \<Rightarrow> recovery_tick_result \<Rightarrow> bool \<times> recovery_tick_result" where
  "skip_for_rows v dm rows res =
     (if list_ex (refuses v) rows then (True, skip_domain dm SKIP_BREAKER_REFUSING res)
      else if list_ex (is_pinned v) rows then (True, skip_domain dm SKIP_OPERATOR_HOLD res)
      else (False, res))"

definition last_checks_before_trial ::
    "domain_reads \<Rightarrow> string \<Rightarrow> recovery_tick_result \<Rightarrow> (tick_status option \<times> cb_row list option) \<times> recovery_tick_result" where
  "last_checks_before_trial dr dm res =
     (if \<not> dr_integrity dr then ((Some TICK_INTEGRITY_BLOCKED, None), res)
      else case dr_before dr of
             None \<Rightarrow> ((Some TICK_BREAKER_STATE_UNAVAILABLE, None), res)
           | Some v \<Rightarrow>
               let rows = projecting v dm; (skipped, res1) = skip_for_rows v dm rows res
               in if skipped then ((None, None), res1)
                  else if \<not> (dr_switch dr \<and> gv_allowed (dr_governance dr)) then ((Some TICK_GOVERNANCE_BLOCKED, None), res1)
                  else ((None, Some rows), res1))"

definition run_trial ::
    "tick_env \<Rightarrow> domain_reads \<Rightarrow> string \<Rightarrow> trial_pacing \<Rightarrow> (string, string) dict \<Rightarrow> failed_op \<Rightarrow> stores \<Rightarrow> trial_record \<times> stores" where
  "run_trial te dr dm pacing cursors candidate W =
     (let streak = tp_streak pacing + 1;
          W1 = write_pacing (dr_now dr) dm
                 \<lparr>tp_streak = streak, tp_next_at = PFloat (fl (dr_clock_paced dr + exponential_calculate (te_fpow te) 0 streak TRIAL_BACKOFF)), tp_after = cursors\<rparr> W;
          ((r, was_cut), W2) = execute_replay_within (te_config te) (dr_call dr) (fo_id candidate) (te_deadline te) (dr_stopped dr) (dr_mono_after dr)
                 AUTO_REPLAY_RECOVERY (Some candidate) True W1;
          outcome = classify_trial r;
          W3 = (if outcome = OUTCOME_SUCCEEDED then delete_pacing dm W2
                else if outcome = OUTCOME_NOT_RUN
                then write_pacing (dr_now dr) dm \<lparr>tp_streak = tp_streak pacing, tp_next_at = tp_next_at pacing, tp_after = cursors\<rparr> W2
                else W2)
      in (\<lparr>tr_domain = dm, tr_dlq_id = fo_id candidate, tr_outcome = outcome, tr_dispatch = None\<rparr>, W3))"

text \<open>\<open>{**pacing.after, **walk.cursors}\<close>: the cursors a walk moved are ones it encoded.\<close>

definition merged_cursors :: "(string, string) dict \<Rightarrow> (string, cursor_text) dict \<Rightarrow> (string, string) dict" where
  "merged_cursors after moved = fold (\<lambda>(k, c) d. case c of None \<Rightarrow> d | Some p \<Rightarrow> dict_set k (encode_replay_cursor p) d) moved after"

text \<open>The rows come back with the record of a trial that started.\<close>

definition trial_under_lock ::
    "tick_env \<Rightarrow> domain_reads \<Rightarrow> string \<Rightarrow> lane list \<Rightarrow> recovery_tick_result \<Rightarrow> stores
       \<Rightarrow> (tick_status option \<times> (trial_record \<times> cb_row list) option \<times> recovery_tick_result \<times> stores) option" where
  "trial_under_lock te dr dm lanes res W =
     (let (pacing, W1) = read_pacing (te_repr te) (dr_now dr) dm W
      in if \<not> is_due (dr_clock_locked dr) pacing then Some (None, None, skip_domain dm SKIP_NOT_DUE res, W1)
         else case walk_candidates (te_config te) (lane_page (te_iter te) (cf_max_replay_attempts (te_config te)) (st_dlq W1)) (te_deadline te)
                     (dr_walk dr) (dr_walk_entry dr) dm lanes (map (\<lambda>(k, s). (k, decode_replay_cursor (te_float te) s)) (tp_after pacing)) of
                None \<Rightarrow> None
              | Some w \<Rightarrow>
                  let cursors = merged_cursors (tp_after pacing) (cw_cursors w)
                  in case cw_candidate w of
                       None \<Rightarrow> Some (None, None, skip_domain dm (if cw_reached_deadline w then SKIP_DEADLINE else SKIP_NO_CANDIDATE) res,
                                  if cursors \<noteq> tp_after pacing then write_pacing (dr_now dr) dm (pacing\<lparr>tp_after := cursors\<rparr>) W1 else W1)
                     | Some e \<Rightarrow>
                         (case last_checks_before_trial dr dm res of
                            ((None, Some rows), res1) \<Rightarrow>
                              let (rec, W2) = run_trial te dr dm pacing cursors e W1 in Some (None, Some (rec, rows), res1, W2)
                          | ((stop, _), res1) \<Rightarrow> Some (stop, None, res1, W1)))"

definition dispatch_recovery_sweep ::
    "tick_env \<Rightarrow> publish \<Rightarrow> string \<Rightarrow> string \<Rightarrow> bool \<Rightarrow> bool \<Rightarrow> sweep_dispatch \<times> sweep_message list" where
  "dispatch_recovery_sweep te pub sn trigger esc requested =
     (if \<not> te_on_recovery_enabled te then (SKIPPED_DISABLED, [])
      else case pub of
             PUBLISHED \<Rightarrow> (DISPATCHED, [\<lparr>sm_service_name = sn, sm_max_items = te_max_items te, sm_max_continuations = te_max_continuations te,
                             sm_trigger = trigger, sm_escalate_failures = esc, sm_operator_requested = requested\<rparr>])
           | IMPORT_ERROR \<Rightarrow> (CELERY_MISSING, [])
           | PUBLISH_RAISES \<Rightarrow> (DISPATCH_ERROR, []))"

definition closed_by_trial :: "cb_row list \<Rightarrow> cb_row list \<Rightarrow> bool" where
  "closed_by_trial before after =
     (let state_before = fold (\<lambda>r d. dict_set (service_name r) (state r) d) before []
      in list_ex (\<lambda>r. state r = CLOSED \<and> (case dict_get state_before (service_name r) of None \<Rightarrow> False | Some st \<Rightarrow> st \<noteq> CLOSED)) after)"

definition dispatch_after_success :: "tick_env \<Rightarrow> domain_reads \<Rightarrow> string \<Rightarrow> cb_row list \<Rightarrow> sweep_dispatch \<times> sweep_message list" where
  "dispatch_after_success te dr dm rows_before =
     (let send = dispatch_recovery_sweep te (dr_publish dr) dm AUTO_REPLAY_RECOVERY False False
      in case dr_after dr of
           None \<Rightarrow> send
         | Some v \<Rightarrow>
             let rows = projecting v dm
             in if closed_by_trial rows_before rows then (DISPATCH_LEFT_TO_CLOSED_EVENT, [])
                else if list_ex (refuses v) rows then (DISPATCH_HELD_BY_REFUSAL, [])
                else if list_ex (is_pinned v) rows then (DISPATCH_HELD_BY_PIN, [])
                else send)"

type_synonym tick_state = "recovery_tick_result \<times> sweep_message list \<times> stores"

text \<open>\<open>rows\<close> are the rows the tick read when it began.\<close>

definition run_domain :: "tick_env \<Rightarrow> domain_reads \<Rightarrow> cb_row list \<Rightarrow> string \<Rightarrow> tick_state \<Rightarrow> (tick_status option \<times> tick_state) option" where
  "run_domain te dr rows dm S =
     (let (res, sent, W) = S; (skipped, res1) = skip_for_rows (dr_first dr) dm rows res
      in if skipped then Some (None, res1, sent, W)
         else
           let lanes = recovery_lanes (cf_registry (te_config te)) dm (te_failure_types te);
               (p, W1) = read_pacing (te_repr te) (dr_now dr) dm W;
               (st, W2) = try_acquire_recovery_lock (dr_now dr) (dr_owner dr) (te_lock_ttl te) dm W1
           in if lanes = [] then Some (None, skip_domain dm SKIP_NO_LANES res1, sent, W)
              else if \<not> is_due (dr_clock dr) p then Some (None, skip_domain dm SKIP_NOT_DUE res1, sent, W1)
              else if st = RECOVERY_LOCK_HELD then Some (None, skip_domain dm SKIP_RECOVERY_RUNNING res1, sent, W2)
              else if st = RECOVERY_LOCK_UNAVAILABLE then Some (None, skip_domain dm SKIP_LOCK_UNAVAILABLE res1, sent, W2)
              else case trial_under_lock te dr dm lanes res1 W2 of
                     None \<Rightarrow> None
                   | Some (stop, trial, res2, W3) \<Rightarrow>
                       let W4 = release_recovery_lock st (dr_owner dr) dm W3
                       in case trial of
                            None \<Rightarrow> Some (stop, res2, sent, W4)
                          | Some (rec, rows_before) \<Rightarrow>
                              let (rec1, ms) = (if tr_outcome rec = OUTCOME_SUCCEEDED
                                                then let (d, ms) = dispatch_after_success te dr dm rows_before in (rec\<lparr>tr_dispatch := Some d\<rparr>, ms)
                                                else (rec, []))
                              in Some (stop, res2\<lparr>tk_trials := tk_trials res2 @ [rec1]\<rparr>, sent @ ms, W4))"

text \<open>The loop, with the readings of each job name.\<close>

fun run_domains :: "tick_env \<Rightarrow> (string \<Rightarrow> domain_reads) \<Rightarrow> (string, cb_row list) dict \<Rightarrow> string list \<Rightarrow> tick_state \<Rightarrow> tick_state option" where
  "run_domains te rd rows [] S = Some S"
| "run_domains te rd rows (dm # dms) S =
     (if past_deadline (te_deadline te) (dr_mono (rd dm))
      then Some (fold (\<lambda>d res. skip_domain d SKIP_DEADLINE res) (dm # dms) (fst S), snd S)
      else case run_domain te (rd dm) (dict_get_or rows dm []) dm S of
             None \<Rightarrow> None
           | Some (Some stop, S1) \<Rightarrow> Some ((fst S1)\<lparr>tk_status := stop\<rparr>, snd S1)
           | Some (None, S1) \<Rightarrow> run_domains te rd rows dms S1)"

definition run_recovery_trials :: "tick_env \<Rightarrow> instant \<Rightarrow> nat \<Rightarrow> breaker_view option \<Rightarrow> (string \<Rightarrow> domain_reads) \<Rightarrow> stores \<Rightarrow> tick_state option" where
  "run_recovery_trials te now minute view rd W =
     (let res = \<lparr>tk_status = TICK_COMPLETED, tk_released = 0, tk_trials = [], tk_skipped = []\<rparr>
      in if \<not> (te_on_recovery_enabled te \<and> te_trial_enabled te) then Some (res\<lparr>tk_status := TICK_DISABLED\<rparr>, [], W)
         else
           let (n, W1) = release_stale te now W; res1 = res\<lparr>tk_released := n\<rparr>; dms = domains_with_work te minute W1
           in if dms = [] then Some (res1\<lparr>tk_status := TICK_IDLE\<rparr>, [], W1)
              else if \<not> te_gives_back te then Some (res1\<lparr>tk_status := TICK_UNSUPPORTED\<rparr>, [], W1)
              else case view of
                     None \<Rightarrow> Some (res1\<lparr>tk_status := TICK_BREAKER_STATE_UNAVAILABLE\<rparr>, [], W1)
                   | Some v \<Rightarrow> run_domains te rd (rows_by_domain (read_fleet_breaker_rows v)) dms (res1, [], W1))"

text \<open>The leader scheduler's way to queue a tick.  \<open>worker_missing\<close> is the answer of the worker probe; the counts of the in-memory queue
  do not raise.\<close>

datatype tick_dispatch = TICK_DISPATCHED | TICK_CELERY_MISSING | TICK_SWITCHED_OFF | TICK_NOTHING_PARKED | TICK_WORKER_MISSING | TICK_PUBLISH_FAILED

definition dispatch_recovery_tick :: "tick_env \<Rightarrow> bool \<Rightarrow> publish \<Rightarrow> stores \<Rightarrow> tick_dispatch" where
  "dispatch_recovery_tick te worker_missing pub W =
     (if pub = IMPORT_ERROR then TICK_CELERY_MISSING
      else if \<not> (te_on_recovery_enabled te \<and> te_trial_enabled te) then TICK_SWITCHED_OFF
      else if \<not> (dlq_count (te_iter te) (Some PENDING) None None (st_dlq W) > 0 \<or> dlq_count (te_iter te) (Some REPLAYING) None None (st_dlq W) > 0) then TICK_NOTHING_PARKED
      else if worker_missing then TICK_WORKER_MISSING
      else if pub = PUBLISH_RAISES then TICK_PUBLISH_FAILED
      else TICK_DISPATCHED)"

section \<open>Examples\<close>

text \<open>A job name with one parked entry whose handler fails, a calm breaker service and every check passed.\<close>

definition whole_pow :: "rat \<Rightarrow> int \<Rightarrow> rat option" where
  "whole_pow m k = (if k < 1024 then Some (m powi k) else None)"

definition sample_tick :: tick_env where
  "sample_tick =
     \<lparr>te_config = (sample_config (sample_handler (Pair job_failed)))\<lparr>cf_registry := sample_registry\<rparr>, te_on_recovery_enabled = True, te_trial_enabled = True,
      te_max_items = 100, te_max_continuations = 100, te_stale_minutes = 15, te_gives_back = True, te_failure_types = [], te_lock_ttl = 600,
      te_deadline = None, te_iter = sorted_list_of_set, te_fpow = whole_pow, te_float = (\<lambda>_. None), te_repr = (\<lambda>_. [])\<rparr>"

definition sample_reads :: domain_reads where
  "sample_reads =
     \<lparr>dr_mono = 0, dr_first = (calm 0, one_trip), dr_now = 5, dr_clock = 100, dr_owner = ''o'', dr_clock_locked = 100, dr_walk = (\<lambda>_. 0),
      dr_walk_entry = (\<lambda>_ _. 0), dr_integrity = True, dr_before = Some (calm 0, new_service None default_config), dr_switch = True,
      dr_governance = \<lparr>gv_allowed = True, gv_block_reason = None, gv_block_message = []\<rparr>, dr_clock_paced = 100, dr_call = sample_call,
      dr_stopped = False, dr_mono_after = 0, dr_after = None, dr_publish = PUBLISHED\<rparr>"

definition tick_begun :: recovery_tick_result where
  "tick_begun = \<lparr>tk_status = TICK_COMPLETED, tk_released = 0, tk_trials = [], tk_skipped = []\<rparr>"

definition parked_cached :: stores where
  "parked_cached = parked\<lparr>st_cache := Some (empty_cache [])\<rparr>"

lemma sample_handlers: "get_replay_handler d sample_registry =
    (if registry_key d = registry_key ''payment'' then (sample_handler (Pair job_failed))\<lparr>hd_failure_types := Some [PStr ''timeout'']\<rparr>
     else default_replay_handler d)"
  by (simp add: get_replay_handler_def sample_registry_def register_replay_handler_def sample_handler_def dict_simps)

lemma sample_simps [simp]: "te_iter sample_tick = sorted_list_of_set" "cf_registry (te_config sample_tick) = sample_registry"
    "st_dlq parked_cached = dlq_run [Create 0 sample_op] empty_dlq"
  by (simp_all add: sample_tick_def parked_cached_def parked_def)

section \<open>When a trial starts\<close>

lemma cache_frames [simp]:
  "st_dlq (snd (read_pacing rep now dm W)) = st_dlq W" "st_dlq (write_pacing now dm p W) = st_dlq W" "st_dlq (delete_pacing dm W) = st_dlq W"
  "st_dlq (release_recovery_lock st owner dm W) = st_dlq W" "st_dlq (snd (try_acquire_recovery_lock now owner ttl dm W)) = st_dlq W"
  by (simp_all add: read_pacing_def write_pacing_def delete_pacing_def release_recovery_lock_def try_acquire_recovery_lock_def split_beta Let_def
      split: option.split)

lemma skip_domain_frames [simp]: "tk_trials (skip_domain dm r res) = tk_trials res" "tk_status (skip_domain dm r res) = tk_status res"
    "dict_get (tk_skipped (skip_domain dm r res)) d = (if d = dm then Some r else dict_get (tk_skipped res) d)"
  by (simp_all add: skip_domain_def dict_simps)

text \<open>What must hold for a trial of a job name to start.\<close>

definition trial_permitted :: "domain_reads \<Rightarrow> cb_row list \<Rightarrow> string \<Rightarrow> bool" where
  "trial_permitted dr rows dm \<longleftrightarrow>
     \<not> list_ex (refuses (dr_first dr)) rows \<and> \<not> list_ex (is_pinned (dr_first dr)) rows
     \<and> dr_integrity dr \<and> dr_switch dr \<and> gv_allowed (dr_governance dr)
     \<and> (case dr_before dr of
          None \<Rightarrow> False
        | Some v \<Rightarrow> \<not> list_ex (refuses v) (projecting v dm) \<and> \<not> list_ex (is_pinned v) (projecting v dm))"

lemma last_checks_cases:
  assumes "last_checks_before_trial dr dm res = ((stop, rows), res1)"
  shows "tk_trials res1 = tk_trials res"
    and "\<And>d. dict_get (tk_skipped res1) d = dict_get (tk_skipped res) d \<or> d = dm \<and> dict_get (tk_skipped res1) d \<noteq> None"
    and "stop = None \<Longrightarrow> rows = None \<Longrightarrow> dict_get (tk_skipped res1) dm \<noteq> None"
    and "stop = None \<Longrightarrow> rows = Some rs \<Longrightarrow> dr_integrity dr \<and> dr_switch dr \<and> gv_allowed (dr_governance dr) \<and>
      (\<exists>v. dr_before dr = Some v \<and> rs = projecting v dm \<and> \<not> list_ex (refuses v) rs \<and> \<not> list_ex (is_pinned v) rs)"
  using assms by (auto simp: last_checks_before_trial_def skip_for_rows_def Let_def split: if_splits option.splits prod.splits)

lemma trial_under_lock_cases:
  assumes "trial_under_lock te dr dm lanes res W = Some (stop, trial, res1, W1)"
  shows "tk_trials res1 = tk_trials res"
    and "\<And>d. dict_get (tk_skipped res1) d = dict_get (tk_skipped res) d \<or> d = dm \<and> dict_get (tk_skipped res1) d \<noteq> None"
    and "trial = None \<Longrightarrow> st_dlq W1 = st_dlq W \<and> (stop \<noteq> None \<or> dict_get (tk_skipped res1) dm \<noteq> None)"
    and "trial = Some (rec, rows) \<Longrightarrow> stop = None \<and> tr_domain rec = dm
      \<and> is_due (dr_clock_locked dr) (fst (read_pacing (te_repr te) (dr_now dr) dm W))
      \<and> (\<exists>cursors e. (rec, W1) = run_trial te dr dm (fst (read_pacing (te_repr te) (dr_now dr) dm W)) cursors e
            (snd (read_pacing (te_repr te) (dr_now dr) dm W)))
      \<and> dr_integrity dr \<and> dr_switch dr \<and> gv_allowed (dr_governance dr)
      \<and> (\<exists>v. dr_before dr = Some v \<and> rows = projecting v dm \<and> \<not> list_ex (refuses v) rows \<and> \<not> list_ex (is_pinned v) rows)"
proof -
  obtain p W0 where r: "read_pacing (te_repr te) (dr_now dr) dm W = (p, W0)" by fastforce
  have q0: "st_dlq W0 = st_dlq W" using cache_frames(1) [of "te_repr te" "dr_now dr" dm W] by (simp only: r snd_conv)
  obtain stop' rows' res' where lc: "last_checks_before_trial dr dm res = ((stop', rows'), res')" by (metis surj_pair)
  note lcc = last_checks_cases [OF lc]
  consider (skip) x where "trial = None" "stop = None" "res1 = skip_domain dm x res" "st_dlq W1 = st_dlq W"
    | (checks) "trial = None" "stop = stop'" "res1 = res'" "W1 = W0" "stop' \<noteq> None \<or> rows' = None"
    | (run) cursors e rs rec where "stop' = None" "rows' = Some rs" "is_due (dr_clock_locked dr) p" "run_trial te dr dm p cursors e W0 = (rec, W1)"
        "trial = Some (rec, rs)" "stop = None" "res1 = res'"
    using assms q0 unfolding trial_under_lock_def r Let_def prod.case lc
    by (auto split: if_splits option.splits prod.splits)
  then have "tk_trials res1 = tk_trials res
      \<and> (\<forall>d. dict_get (tk_skipped res1) d = dict_get (tk_skipped res) d \<or> d = dm \<and> dict_get (tk_skipped res1) d \<noteq> None)
      \<and> (trial = None \<longrightarrow> st_dlq W1 = st_dlq W \<and> (stop \<noteq> None \<or> dict_get (tk_skipped res1) dm \<noteq> None))
      \<and> (\<forall>rec rows. trial = Some (rec, rows) \<longrightarrow> stop = None \<and> tr_domain rec = dm
          \<and> is_due (dr_clock_locked dr) p \<and> (\<exists>cursors e. (rec, W1) = run_trial te dr dm p cursors e W0)
          \<and> dr_integrity dr \<and> dr_switch dr \<and> gv_allowed (dr_governance dr)
          \<and> (\<exists>v. dr_before dr = Some v \<and> rows = projecting v dm \<and> \<not> list_ex (refuses v) rows \<and> \<not> list_ex (is_pinned v) rows))"
  proof cases
    case skip
    then show ?thesis by simp
  next
    case checks
    then show ?thesis using lcc(1-3) q0 by (cases stop') auto
  next
    case run
    have "tr_domain rec = dm" using run(4) by (auto simp: run_trial_def Let_def split_beta)
    then show ?thesis
      using run(3) run(4) [symmetric] lcc(1) lcc(2) lcc(4) [OF run(1,2)] unfolding run(5-7) by blast
  qed
  then show "tk_trials res1 = tk_trials res"
    and "\<And>d. dict_get (tk_skipped res1) d = dict_get (tk_skipped res) d \<or> d = dm \<and> dict_get (tk_skipped res1) d \<noteq> None"
    and "trial = None \<Longrightarrow> st_dlq W1 = st_dlq W \<and> (stop \<noteq> None \<or> dict_get (tk_skipped res1) dm \<noteq> None)"
    and "trial = Some (rec, rows) \<Longrightarrow> stop = None \<and> tr_domain rec = dm
      \<and> is_due (dr_clock_locked dr) (fst (read_pacing (te_repr te) (dr_now dr) dm W))
      \<and> (\<exists>cursors e. (rec, W1) = run_trial te dr dm (fst (read_pacing (te_repr te) (dr_now dr) dm W)) cursors e
            (snd (read_pacing (te_repr te) (dr_now dr) dm W)))
      \<and> dr_integrity dr \<and> dr_switch dr \<and> gv_allowed (dr_governance dr)
      \<and> (\<exists>v. dr_before dr = Some v \<and> rows = projecting v dm \<and> \<not> list_ex (refuses v) rows \<and> \<not> list_ex (is_pinned v) rows)"
    unfolding r fst_conv snd_conv by blast+
qed

lemma read_pacing_streak: "0 \<le> tp_streak (fst (read_pacing rep now dm W))"
  by (auto simp: read_pacing_def pacing_from_value_def new_trial_pacing_def Let_def split_beta
      split: option.splits pyval.splits)

lemma read_pacing_cache: "st_cache (snd (read_pacing rep now dm W)) = None \<longleftrightarrow> st_cache W = None"
  by (simp add: read_pacing_def split_beta Let_def split: option.split)

lemma read_pacing_cong: "st_cache W = st_cache V \<Longrightarrow> fst (read_pacing rep now dm W) = fst (read_pacing rep now dm V)"
  by (simp add: read_pacing_def split_beta Let_def split: option.split)

lemma read_pacing_again: "fst (read_pacing rep now dm (snd (read_pacing rep now dm W))) = fst (read_pacing rep now dm W)"
  by (simp add: read_pacing_def cache_get_def split_beta Let_def split: option.split)

lemma lock_keeps_cache: "st_cache (snd (try_acquire_recovery_lock now owner ttl dm W)) = st_cache W"
  by (simp add: try_acquire_recovery_lock_def split_beta Let_def)

lemma skip_for_rows_cases:
  assumes "skip_for_rows v dm rows res = (skipped, res1)"
  shows "tk_trials res1 = tk_trials res" and "skipped \<Longrightarrow> dict_get (tk_skipped res1) dm \<noteq> None"
    and "\<not> skipped \<Longrightarrow> res1 = res \<and> \<not> list_ex (refuses v) rows \<and> \<not> list_ex (is_pinned v) rows"
    and "\<And>d. d \<noteq> dm \<Longrightarrow> dict_get (tk_skipped res1) d = dict_get (tk_skipped res) d"
  using assms by (auto simp: skip_for_rows_def split: if_splits)

lemma acquired_cache: "fst (try_acquire_recovery_lock now owner ttl dm W) = RECOVERY_LOCK_ACQUIRED \<Longrightarrow>
    st_cache (snd (try_acquire_recovery_lock now owner ttl dm W)) \<noteq> None"
  by (auto simp: try_acquire_recovery_lock_def split_beta Let_def split: if_splits)

text \<open>A job name's turn either starts no trial, leaves the queue as it is and tells why, or starts one trial, which was permitted and due.\<close>

lemma run_domain_cases:
  assumes "run_domain te dr rows dm (res, sent, W) = Some (stop, res1, sent1, W1)"
  obtains (idle) "tk_trials res1 = tk_trials res" "sent1 = sent" "st_dlq W1 = st_dlq W" "stop \<noteq> None \<or> dict_get (tk_skipped res1) dm \<noteq> None"
      "\<And>d. d \<noteq> dm \<Longrightarrow> dict_get (tk_skipped res1) d = dict_get (tk_skipped res) d"
  | (trial) rec rec1 W2 p Wp cursors e where "stop = None" "tk_trials res1 = tk_trials res @ [rec1]" "tr_domain rec1 = dm" "tr_outcome rec1 = tr_outcome rec"
      "trial_permitted dr rows dm" "is_due (dr_clock dr) (fst (read_pacing (te_repr te) (dr_now dr) dm W))"
      "is_due (dr_clock_locked dr) p" "p = fst (read_pacing (te_repr te) (dr_now dr) dm W)" "st_cache Wp \<noteq> None" "st_dlq Wp = st_dlq W"
      "run_trial te dr dm p cursors e Wp = (rec, W2)" "W1 = release_recovery_lock RECOVERY_LOCK_ACQUIRED (dr_owner dr) dm W2"
      "\<And>d. d \<noteq> dm \<Longrightarrow> dict_get (tk_skipped res1) d = dict_get (tk_skipped res) d"
proof -
  obtain skipped res0 where sk: "skip_for_rows (dr_first dr) dm rows res = (skipped, res0)" by fastforce
  note skc = skip_for_rows_cases [OF sk]
  obtain p0 Wa where rp: "read_pacing (te_repr te) (dr_now dr) dm W = (p0, Wa)" by fastforce
  have qa: "st_dlq Wa = st_dlq W" using cache_frames(1) [of "te_repr te" "dr_now dr" dm W] by (simp only: rp snd_conv)
  obtain st Wb where al: "try_acquire_recovery_lock (dr_now dr) (dr_owner dr) (te_lock_ttl te) dm Wa = (st, Wb)" by fastforce
  have qb: "st_dlq Wb = st_dlq W" using cache_frames(5) [of "dr_now dr" "dr_owner dr" "te_lock_ttl te" dm Wa] by (simp only: al snd_conv qa)
  let ?lanes = "recovery_lanes (cf_registry (te_config te)) dm (te_failure_types te)"
  show thesis
  proof (cases "skipped \<or> ?lanes = [] \<or> \<not> is_due (dr_clock dr) p0 \<or> st \<noteq> RECOVERY_LOCK_ACQUIRED")
    case True
    then have "tk_trials res1 = tk_trials res \<and> sent1 = sent \<and> st_dlq W1 = st_dlq W \<and> dict_get (tk_skipped res1) dm \<noteq> None
        \<and> (\<forall>d. d \<noteq> dm \<longrightarrow> dict_get (tk_skipped res1) d = dict_get (tk_skipped res) d)"
      using assms skc qa qb unfolding run_domain_def sk rp al Let_def prod.case by (cases st) (auto split: if_splits)
    then show thesis by (intro idle) auto
  next
    case False
    then have st: "st = RECOVERY_LOCK_ACQUIRED" and ns: "\<not> skipped" and due: "is_due (dr_clock dr) p0" and ne: "?lanes \<noteq> []" by auto
    from skc(3) [OF ns] have r0: "res0 = res" by simp
    obtain stop2 tri res2 W3 where tl: "trial_under_lock te dr dm ?lanes res Wb = Some (stop2, tri, res2, W3)"
      and e: "(case tri of None \<Rightarrow> Some (stop2, res2, sent, release_recovery_lock st (dr_owner dr) dm W3)
                | Some (rec, rows_before) \<Rightarrow>
                    let (rec1, ms) = (if tr_outcome rec = OUTCOME_SUCCEEDED
                                      then let (d, ms) = dispatch_after_success te dr dm rows_before in (rec\<lparr>tr_dispatch := Some d\<rparr>, ms)
                                      else (rec, []))
                    in Some (stop2, res2\<lparr>tk_trials := tk_trials res2 @ [rec1]\<rparr>, sent @ ms, release_recovery_lock st (dr_owner dr) dm W3))
          = Some (stop, res1, sent1, W1)"
      using assms ns due ne st r0 unfolding run_domain_def sk rp al Let_def prod.case by (auto split: option.splits)
    note tlc = trial_under_lock_cases [OF tl]
    show thesis
    proof (cases tri)
      case None
      then show thesis using e tlc(1-3) qb by (intro idle) auto
    next
      case (Some x)
      obtain rec rb where x: "x = (rec, rb)" by fastforce
      obtain rec1 ms where rm: "(if tr_outcome rec = OUTCOME_SUCCEEDED
          then let (d, ms) = dispatch_after_success te dr dm rb in (rec\<lparr>tr_dispatch := Some d\<rparr>, ms) else (rec, [])) = (rec1, ms)" by fastforce
      have rec1: "tr_domain rec1 = tr_domain rec" "tr_outcome rec1 = tr_outcome rec"
        using rm by (auto simp: split_beta Let_def split: if_splits)
      have f: "stop = stop2" "res1 = res2\<lparr>tk_trials := tk_trials res2 @ [rec1]\<rparr>" "W1 = release_recovery_lock st (dr_owner dr) dm W3"
        using e by (simp_all add: Some x rm)
      note t = tlc(4) [OF Some [unfolded x]]
      from t obtain cursors e where run: "run_trial te dr dm (fst (read_pacing (te_repr te) (dr_now dr) dm Wb)) cursors e
          (snd (read_pacing (te_repr te) (dr_now dr) dm Wb)) = (rec, W3)" by metis
      have c: "st_cache (snd (read_pacing (te_repr te) (dr_now dr) dm Wb)) \<noteq> None"
        using acquired_cache [of "dr_now dr" "dr_owner dr" "te_lock_ttl te" dm Wa] st by (simp add: al read_pacing_cache)
      have "st_cache Wb = st_cache Wa" using lock_keeps_cache [of "dr_now dr" "dr_owner dr" "te_lock_ttl te" dm Wa] by (simp only: al snd_conv)
      then have p: "fst (read_pacing (te_repr te) (dr_now dr) dm Wb) = fst (read_pacing (te_repr te) (dr_now dr) dm W)"
        using read_pacing_again [of "te_repr te" "dr_now dr" dm W] read_pacing_cong [of Wb Wa] by (simp add: rp)
      show thesis
      proof (rule trial [OF _ _ _ rec1(2) _ _ _ p c _ run])
        show "trial_permitted dr rows dm" using t skc(3) [OF ns] by (auto simp: trial_permitted_def)
        show "W1 = release_recovery_lock RECOVERY_LOCK_ACQUIRED (dr_owner dr) dm W3" using f(3) st by simp
        show "dict_get (tk_skipped res1) d = dict_get (tk_skipped res) d" if "d \<noteq> dm" for d using that tlc(2) [of d] f(2) by auto
      qed (use t f rec1 tlc(1) due qb rp in auto)
    qed
  qed
qed

text \<open>(C20) A trial overrides no decision not to replay.  When a breaker of the job name refuses calls or carries an operator's pin, at the
  first look or just before the trial, when the breakers cannot be read, the integrity gate or governance says no or the kill
  switch is pulled, or when the job name is not due yet, then its turn starts no trial, dispatches nothing and leaves the queue as it is.\<close>

theorem trial_overrides_no_refusal:
  assumes "run_domain te dr rows dm (res, sent, W) = Some (stop, res1, sent1, W1)"
    and "\<not> trial_permitted dr rows dm \<or> \<not> is_due (dr_clock dr) (fst (read_pacing (te_repr te) (dr_now dr) dm W))"
  shows "tk_trials res1 = tk_trials res \<and> sent1 = sent \<and> st_dlq W1 = st_dlq W"
  using assms(1) by (cases rule: run_domain_cases) (use assms(2) in auto)

section \<open>The pace of the trials\<close>

text \<open>What the cache holds under a key.\<close>

definition held :: "string \<Rightarrow> cache \<Rightarrow> string \<times> cache_entry option" where
  "held k c = (key_prefix c, dict_get (cache_store c) (make_key c k))"

definition slot :: "string \<Rightarrow> stores \<Rightarrow> (string \<times> cache_entry option) option" where
  "slot k W = map_option (held k) (st_cache W)"

lemma held_other:
  assumes "key \<noteq> k"
  shows "held k (put_entry now key v ttl c) = held k c" "held k (drop_expired now key c) = held k c"
  using assms by (auto simp: held_def put_entry_def drop_expired_def make_key_def dict_simps split: option.split)

lemma held_other_ops:
  assumes "key \<noteq> k"
  shows "held k (snd (cache_setnx now key v ttl c)) = held k c" "held k (snd (cache_get now key c)) = held k c"
    "held k (snd (cache_cas_takeover now key rec sb ttl c)) = held k c"
    "held k (snd (cache_cas_dict_field now key f x rec ttl c)) = held k c"
  by (auto simp: cache_setnx_def cache_get_def cache_cas_takeover_def cache_cas_dict_field_def held_other [OF assms] Let_def
      split: option.splits)

lemma gate_next_other: "key \<noteq> k \<Longrightarrow> held k (snd (gate_next g now t t' key ttl claim ph c)) = held k c"
  using held_other_ops [of key k]
  by (cases ph; auto split: prod.splits bool.splits option.splits; metis snd_conv)

lemma gate_steps_other: "key \<noteq> k \<Longrightarrow> held k (snd (gate_steps n g now key ttl claim ph c)) = held k c"
  by (induction n arbitrary: ph c) (simp_all add: split_beta Let_def gate_next_other)

lemma slot_gate:
  assumes "key \<noteq> k"
  shows "slot k (snd (replay_gate_check cf x key W)) = slot k W" "slot k (mark_replay_key cf x key n r W) = slot k W"
    "slot k (on_gate cf (\<lambda>g. mark_failed g t key msg n ttl claim) W) = slot k W"
proof -
  have "map_option (held k) (snd (check_and_acquire g now key ttl claim oc)) = map_option (held k) oc" for g now ttl claim oc
    using gate_steps_other [OF assms]
    by (auto simp: check_and_acquire_def Let_def split: option.splits prod.splits check_phase.splits) (metis snd_conv)+
  then show "slot k (snd (replay_gate_check cf x key W)) = slot k W"
    by (auto simp: slot_def replay_gate_check_def Let_def split_beta split: option.split)
  show "slot k (mark_replay_key cf x key n r W) = slot k W"
    "slot k (on_gate cf (\<lambda>g. mark_failed g t key msg n ttl claim) W) = slot k W"
    using held_other_ops(4) [OF assms]
    by (auto simp: slot_def mark_replay_key_def on_gate_def mark_completed_def mark_failed_def map_option_case split: option.split)
qed

definition keeps_slot :: "string \<Rightarrow> handler \<Rightarrow> bool" where
  "keeps_slot k h \<longleftrightarrow> (\<forall>op W. slot k (snd (hd_replay h op W)) = slot k W)"

lemma slot_frames [simp]: "slot k (emit ev W) = slot k W" "slot k (snd (on_dlq f W)) = slot k W" "slot k (snd (give_back_attempt eid n W)) = slot k W"
    "slot k (release_recovery_lock st owner dm W) = slot k W"
  by (simp_all add: slot_def emit_def on_dlq_def give_back_attempt_def release_recovery_lock_def split_beta Let_def)

lemma acquired_slot:
  assumes "keeps_slot k h" and "\<And>x. idempotency_cache_key x \<noteq> k"
  shows "slot k (snd (replay_acquired cf x eid trigger h trial op W)) = slot k W"
proof -
  define key where "key = idempotency_cache_key (for_dlq_replay eid (fo_domain op) (fo_retry_count op))"
  have ne: "key \<noteq> k" using assms(2) by (simp add: key_def)
  obtain d n W1 where g: "replay_gate_check cf x key W = ((d, n), W1)" by (metis surj_pair)
  have W1: "slot k W1 = slot k W" using slot_gate(1) [OF ne, of cf x W, unfolded g] by simp
  obtain out W2 where o: "hd_replay h op W1 = (out, W2)" by force
  have W2: "slot k W2 = slot k W" using assms(1) o W1 unfolding keeps_slot_def by (metis snd_conv)
  have "slot k (snd (finish_crashed_replay cf x op ty msg key n trial c W2)) = slot k W2" for ty msg c
    by (simp add: finish_crashed_replay_def Let_def split_beta slot_gate [OF ne])
  moreover have "slot k (snd (finish_replay cf x eid trigger op r key n trial c W2)) = slot k W2" for r c
    by (simp add: finish_replay_def Let_def split_beta slot_gate [OF ne])
  ultimately show ?thesis
    using W1 W2 by (cases d; cases "ho_end out") (simp_all add: replay_acquired_def Let_def o g flip: key_def)
qed

lemma execute_slot:
  assumes "\<And>d. keeps_slot k (get_replay_handler d (cf_registry cf))" and "\<And>x. idempotency_cache_key x \<noteq> k"
  shows "slot k (snd (execute_replay cf x eid trigger entry trial W)) = slot k W"
  using acquired_slot [OF assms] by (simp add: execute_replay_def Let_def split_beta split: option.split)

text \<open>What the pace relies on of the power: powers of two are exact up to the largest exponent.\<close>

definition exact_pow :: "(rat \<Rightarrow> int \<Rightarrow> rat option) \<Rightarrow> bool" where
  "exact_pow fpow \<longleftrightarrow> (\<forall>k. 0 \<le> k \<longrightarrow> fpow 2 k = (if k < 1024 then Some (2 powi k) else None))"

lemma trial_delay:
  assumes "exact_pow fpow"
  shows "exponential_calculate fpow u (int n + 1) TRIAL_BACKOFF = min 540 (60 * 2 ^ n)"
proof (cases "n < 1024")
  case True
  have "representable (of_int 60 * 2 powi (int n))" by (rule representableI) simp
  then have "fmul 60 (2 powi (int n)) = 60 * 2 ^ n" by (simp add: fmul_def fl_representable power_int_of_nat)
  then show ?thesis using assms True
    by (simp add: exponential_calculate_def exponential_raw_def apply_capped_jitter_def TRIAL_BACKOFF_def exact_pow_def
        RECOVERY_TRIAL_BASE_SECONDS_def RECOVERY_TRIAL_MAX_SECONDS_def min.commute)
next
  case False
  have "(2::rat) ^ 4 \<le> 2 ^ n" using False by (intro power_increasing) simp_all
  then have "min 540 (60 * 2 ^ n) = (540::rat)" by simp
  then show ?thesis using assms False
    by (simp add: exponential_calculate_def exponential_raw_def apply_capped_jitter_def TRIAL_BACKOFF_def exact_pow_def
        RECOVERY_TRIAL_BASE_SECONDS_def RECOVERY_TRIAL_MAX_SECONDS_def)
qed

lemma written_pacing_read:
  assumes "slot (PACING_KEY_PREFIX @ dm) W = slot (PACING_KEY_PREFIX @ dm) (write_pacing t dm p V)" and "st_cache V \<noteq> None"
    and "now \<le> t + seconds 1080" and "tp_next_at p = PFloat x" and "0 \<le> tp_streak p"
  shows "tp_next_at (fst (read_pacing rep now dm W)) = PFloat x" and "tp_streak (fst (read_pacing rep now dm W)) = tp_streak p"
proof -
  obtain c0 where c0: "st_cache V = Some c0" using assms(2) by auto
  obtain c where c: "st_cache W = Some c" "held (PACING_KEY_PREFIX @ dm) c =
      (key_prefix c0, Some \<lparr>ca_value = pacing_to_value p, ca_expires = Some (t + seconds 1080)\<rparr>)"
    using assms(1) by (auto simp: slot_def write_pacing_def c0 held_def cache_set_def put_entry_def make_key_def dict_simps
        expires_after_def RECOVERY_TRIAL_MAX_SECONDS_def)
  then have "fst (cache_get now (PACING_KEY_PREFIX @ dm) c) = Some (pacing_to_value p)"
    using assms(3) by (auto simp: held_def cache_get_def live_entry_def entry_expired_def)
  then show "tp_next_at (fst (read_pacing rep now dm W)) = PFloat x" and "tp_streak (fst (read_pacing rep now dm W)) = tp_streak p"
    using assms(4,5) by (auto simp: read_pacing_def c pacing_to_value_def pacing_from_value_def Let_def split_beta dict_simps dict_get_or_def)
qed

text \<open>(C22) Trials that keep failing back off.  After a trial whose job failed, still runs or was refused by its breaker, the streak is one
  longer and the job name is due again exactly when its interval has passed: sixty seconds after the first failure, doubling up to nine minutes;
  so the pace holds for as long as the record lives in the cache.\<close>

theorem failing_trials_back_off:
  assumes "run_domain te dr rows dm (res, sent, W) = Some (stop, res1, sent1, W1)" and "tk_trials res1 = tk_trials res @ [r]"
    and "tr_outcome r \<notin> {OUTCOME_SUCCEEDED, OUTCOME_NOT_RUN}"
    and "\<forall>d. keeps_slot (PACING_KEY_PREFIX @ dm) (get_replay_handler d (cf_registry (te_config te)))"
    and "exact_pow (te_fpow te)" and "now \<le> dr_now dr + seconds 1080"
    and "int n = tp_streak (fst (read_pacing (te_repr te) (dr_now dr) dm W))"
    and "fst (read_pacing (te_repr te) now dm W1) = p"
  shows "tp_streak p = int n + 1 \<and> (is_due t p \<longleftrightarrow> fl (dr_clock_paced dr + min 540 (60 * 2 ^ n)) \<le> t)"
  using assms(1)
proof (cases rule: run_domain_cases)
  case idle
  then show ?thesis using assms(2) by simp
next
  case (trial rec rec1 W2 q Wp cursors e)
  let ?k = "PACING_KEY_PREFIX @ dm"
  let ?p = "\<lparr>tp_streak = tp_streak q + 1, tp_next_at = PFloat (fl (dr_clock_paced dr + exponential_calculate (te_fpow te) 0 (tp_streak q + 1) TRIAL_BACKOFF)),
      tp_after = cursors\<rparr>"
  have "idempotency_cache_key x \<noteq> ?k" for x by (simp add: idempotency_cache_key_def PACING_KEY_PREFIX_def)
  then have ex: "slot ?k (snd (execute_replay_within (te_config te) (dr_call dr) (fo_id e) (te_deadline te) (dr_stopped dr) (dr_mono_after dr)
      AUTO_REPLAY_RECOVERY (Some e) True V)) = slot ?k V" for V
    using execute_slot [of ?k "te_config te"] assms(4) by (simp add: execute_replay_within_def split_beta Let_def)
  have out: "tr_outcome rec = tr_outcome r" using trial(2,4) assms(2) by simp
  have "W2 = snd (execute_replay_within (te_config te) (dr_call dr) (fo_id e) (te_deadline te) (dr_stopped dr) (dr_mono_after dr)
      AUTO_REPLAY_RECOVERY (Some e) True (write_pacing (dr_now dr) dm ?p Wp))"
    using trial(11) out assms(3) by (auto simp: run_trial_def Let_def split_beta split: if_splits)
  then have "slot ?k W1 = slot ?k (write_pacing (dr_now dr) dm ?p Wp)" using trial(12) ex by simp
  from written_pacing_read [OF this trial(9) assms(6), of "fl (dr_clock_paced dr + min 540 (60 * 2 ^ n))" "te_repr te"]
  show ?thesis using trial_delay [OF assms(5), of 0 n] assms(7,8) trial(8) by (simp add: is_due_def)
qed

section \<open>A tick\<close>

lemma status_kept:
  "skip_for_rows v dm rows res = (skipped, res1) \<Longrightarrow> tk_status res1 = tk_status res"
  "last_checks_before_trial dr dm res = ((st, rs), res1) \<Longrightarrow> tk_status res1 = tk_status res \<and> st \<noteq> Some TICK_COMPLETED"
  by (auto simp: skip_for_rows_def last_checks_before_trial_def Let_def split: if_splits option.splits prod.splits)

lemma status_kept_under_lock:
  "trial_under_lock te dr dm lanes res W = Some (st, tri, res1, W1) \<Longrightarrow> tk_status res1 = tk_status res \<and> st \<noteq> Some TICK_COMPLETED"
  by (auto simp: trial_under_lock_def Let_def split: if_splits option.splits prod.splits dest: status_kept(2))

lemma status_kept_domain:
  "run_domain te dr rows dm (res, sent, W) = Some (st, res1, sent1, W1) \<Longrightarrow> tk_status res1 = tk_status res \<and> st \<noteq> Some TICK_COMPLETED"
  by (auto simp: run_domain_def Let_def split: if_splits option.splits prod.splits dest!: status_kept_under_lock status_kept(1))

lemma run_domain_returns:
  assumes "enumerates (te_iter te)" and "dlq_inv (st_dlq W)"
  shows "\<exists>x. run_domain te dr rows dm (res, sent, W) = Some x"
proof -
  have under: "\<exists>x. trial_under_lock te dr dm lanes res1 V = Some x" if "st_dlq V = st_dlq W" for lanes res1 V
  proof -
    obtain p V1 where r: "read_pacing (te_repr te) (dr_now dr) dm V = (p, V1)" by fastforce
    have "dlq_inv (st_dlq V1)"
      using cache_frames(1) [of "te_repr te" "dr_now dr" dm V] assms(2) that by (simp only: r snd_conv)
    from walk_of_queue [OF assms(1) this refl, where cf = "te_config te" and dm = dm and cap = "cf_max_replay_attempts (te_config te)"
        and deadline = "te_deadline te" and m = "dr_walk dr" and me = "dr_walk_entry dr" and lanes = lanes
        and after = "map (\<lambda>(k, s). (k, decode_replay_cursor (te_float te) s)) (tp_after p)"]
    obtain w where "walk_candidates (te_config te) (lane_page (te_iter te) (cf_max_replay_attempts (te_config te)) (st_dlq V1)) (te_deadline te)
        (dr_walk dr) (dr_walk_entry dr) dm lanes (map (\<lambda>(k, s). (k, decode_replay_cursor (te_float te) s)) (tp_after p)) = Some w"
      by blast
    then show ?thesis
      unfolding trial_under_lock_def r Let_def prod.case by (auto split: option.splits prod.splits)
  qed
  obtain p Wa where rp: "read_pacing (te_repr te) (dr_now dr) dm W = (p, Wa)" by fastforce
  obtain st Wb where al: "try_acquire_recovery_lock (dr_now dr) (dr_owner dr) (te_lock_ttl te) dm Wa = (st, Wb)" by fastforce
  have "st_dlq Wb = st_dlq W"
    using cache_frames(5) [of "dr_now dr" "dr_owner dr" "te_lock_ttl te" dm Wa] cache_frames(1) [of "te_repr te" "dr_now dr" dm W]
    by (simp only: al rp snd_conv)
  then show ?thesis
    using under [of Wb] unfolding run_domain_def rp al Let_def prod.case by (auto split: option.splits prod.splits) (metis option.discI)+
qed

lemma run_domain_inv:
  assumes "run_domain te dr rows dm (res, sent, W) = Some (stop, res1, sent1, W1)" and "dlq_inv (st_dlq W)"
    and "\<And>d. keeps_inv (get_replay_handler d (cf_registry (te_config te)))"
  shows "dlq_inv (st_dlq W1)"
  using assms(1)
proof (cases rule: run_domain_cases)
  case idle
  then show ?thesis using assms(2) by simp
next
  case (trial rec rec1 W2 q Wp cursors e)
  have "dlq_inv (st_dlq V) \<Longrightarrow> dlq_inv (st_dlq (snd (execute_replay_within (te_config te) (dr_call dr) (fo_id e) (te_deadline te) (dr_stopped dr) (dr_mono_after dr)
      AUTO_REPLAY_RECOVERY (Some e) True V)))" for V
    using execute_inv [OF _ assms(3)] by (simp add: execute_replay_within_def split_beta Let_def)
  then have "dlq_inv (st_dlq W2)"
    using trial(11) assms(2) by (auto simp: run_trial_def Let_def split_beta trial(10) split: if_splits)
  then show ?thesis by (simp add: trial(12))
qed

text \<open>The turns of the job names from \<open>dms\<close> on: who is accounted for.\<close>

definition accounted :: "recovery_tick_result \<Rightarrow> string \<Rightarrow> bool" where
  "accounted res dm \<longleftrightarrow> dm \<in> tr_domain ` set (tk_trials res) \<or> dict_get (tk_skipped res) dm \<noteq> None"

lemma skip_all: "dict_get (tk_skipped (fold (\<lambda>d res. skip_domain d r res) dms res)) d = (if d \<in> set dms then Some r else dict_get (tk_skipped res) d)"
    "tk_trials (fold (\<lambda>d res. skip_domain d r res) dms res) = tk_trials res"
  by (induction dms arbitrary: res) auto

lemma run_domains_accounts:
  assumes "enumerates (te_iter te)" and "\<And>d. keeps_inv (get_replay_handler d (cf_registry (te_config te)))"
    and "dlq_inv (st_dlq W)" and "distinct dms" and "tr_domain ` set (tk_trials res) \<inter> set dms = {}"
    and "distinct (map tr_domain (tk_trials res))"
  shows "\<exists>res1 sent1 W1. run_domains te rd rows dms (res, sent, W) = Some (res1, sent1, W1)
    \<and> distinct (map tr_domain (tk_trials res1)) \<and> tr_domain ` set (tk_trials res1) \<subseteq> tr_domain ` set (tk_trials res) \<union> set dms
    \<and> (tk_status res1 = TICK_COMPLETED \<longrightarrow> (\<forall>d. accounted res d \<or> d \<in> set dms \<longrightarrow> accounted res1 d))"
  using assms(3-6)
proof (induction dms arbitrary: res sent W)
  case Nil
  then show ?case by simp
next
  case (Cons dm dms)
  show ?case
  proof (cases "past_deadline (te_deadline te) (dr_mono (rd dm))")
    case True
    then show ?thesis using Cons.prems(4)
      by (auto simp: accounted_def skip_all simp del: fold.simps)
  next
    case False
    obtain stop res1 sent1 W1 where r: "run_domain te (rd dm) (dict_get_or rows dm []) dm (res, sent, W) = Some (stop, res1, sent1, W1)"
      using run_domain_returns [OF assms(1) Cons.prems(1)] by (metis surj_pair)
    note inv = run_domain_inv [OF r Cons.prems(1) assms(2)] and st = status_kept_domain [OF r]
    have step: "distinct (map tr_domain (tk_trials res1)) \<and> tr_domain ` set (tk_trials res1) \<subseteq> insert dm (tr_domain ` set (tk_trials res))
        \<and> (stop = None \<longrightarrow> accounted res1 dm) \<and> (\<forall>d. accounted res d \<longrightarrow> accounted res1 d \<or> d = dm)"
      using r
    proof (cases rule: run_domain_cases)
      case idle
      then show ?thesis using Cons.prems(4) by (auto simp: accounted_def)
    next
      case trial
      then show ?thesis using Cons.prems(3,4) by (auto simp: accounted_def)
    qed
    show ?thesis
    proof (cases stop)
      case None
      have "insert dm (tr_domain ` set (tk_trials res)) \<inter> set dms = {}" using Cons.prems(2,3) by auto
      then have "tr_domain ` set (tk_trials res1) \<inter> set dms = {}" using step by blast
      from Cons.IH [OF inv _ this, of sent1] step Cons.prems(2)
      obtain res2 sent2 W2 where "run_domains te rd rows dms (res1, sent1, W1) = Some (res2, sent2, W2)"
        "distinct (map tr_domain (tk_trials res2))" "tr_domain ` set (tk_trials res2) \<subseteq> tr_domain ` set (tk_trials res1) \<union> set dms"
        "tk_status res2 = TICK_COMPLETED \<longrightarrow> (\<forall>d. accounted res1 d \<or> d \<in> set dms \<longrightarrow> accounted res2 d)" by auto
      then show ?thesis using step None False r by auto
    next
      case (Some x)
      then show ?thesis using step False r st by (auto simp: accounted_def)
    qed
  qed
qed

text \<open>(C23) A tick returns, whatever its readings are, if the queue is one that its operations built and the handlers keep it so.  It starts at most one
  trial for a job name; and unless it was stopped or did nothing at all, every job name with parked work either got its trial or is reported as
  skipped with a reason.\<close>

theorem tick_accounts_for_every_job:
  assumes "enumerates (te_iter te)" and "dict_wf (cf_registry (te_config te))"
    and "\<forall>d. keeps_inv (get_replay_handler d (cf_registry (te_config te)))" and "st_dlq W = dlq_run xs empty_dlq"
  shows "\<exists>res sent W1. run_recovery_trials te now minute view rd W = Some (res, sent, W1)
    \<and> distinct (map tr_domain (tk_trials res))
    \<and> (tk_status res = TICK_COMPLETED \<longrightarrow>
        (\<forall>dm \<in> set (registered_replay_domains (cf_registry (te_config te))).
           dlq_get_pending_count_by_domain dm (st_dlq (snd (release_stale te now W))) = 0 \<or> accounted res dm))"
proof -
  obtain n W1 where rs: "release_stale te now W = (n, W1)" by fastforce
  have "st_dlq W1 = dlq_step (Release_Stale now (stale_release_minutes (te_stale_minutes te))) (st_dlq W)"
    using rs by (auto simp: release_stale_def on_dlq_def split_beta Let_def)
  then have inv: "dlq_inv (st_dlq W1)" using assms(4) by (simp add: dlq_step_inv dlq_run_inv del: dlq_step.simps)
  let ?R = "registered_replay_domains (cf_registry (te_config te))"
  have "distinct ?R" using assms(2) by (simp add: registered_replay_domains_def dict_wf_def)
  then have d: "distinct (domains_with_work te minute W1)"
    using set_take_disj_set_drop_if_distinct [of "filter (\<lambda>dm. dlq_get_pending_count_by_domain dm (st_dlq W1) \<noteq> 0) ?R"]
    by (auto simp: domains_with_work_def Let_def)
  have cov: "dlq_get_pending_count_by_domain dm (st_dlq W1) = 0 \<or> dm \<in> set (domains_with_work te minute W1)" if "dm \<in> set ?R" for dm
  proof -
    have "set (drop k l @ take k l) = set l" for k and l :: "string list" by (metis append_take_drop_id set_append sup_commute)
    then show ?thesis using that unfolding domains_with_work_def Let_def
      by (auto simp: filter_empty_conv simp del: set_append)
  qed
  let ?res = "\<lparr>tk_status = TICK_COMPLETED, tk_released = n, tk_trials = [], tk_skipped = []\<rparr>"
  have "\<exists>res1 sent1 W2. run_domains te rd (rows_by_domain (read_fleet_breaker_rows v)) (domains_with_work te minute W1) (?res, [], W1) = Some (res1, sent1, W2)
      \<and> distinct (map tr_domain (tk_trials res1)) \<and> (tk_status res1 = TICK_COMPLETED \<longrightarrow> (\<forall>dm \<in> set (domains_with_work te minute W1). accounted res1 dm))" for v
    using run_domains_accounts [OF assms(1) _ inv d, of ?res rd "rows_by_domain (read_fleet_breaker_rows v)" "[]"] assms(3) by auto
  then show ?thesis
    unfolding run_recovery_trials_def rs Let_def prod.case snd_conv using cov by (cases view) (auto, metis+)
qed

section \<open>Instances\<close>

lemma sample_turn: obtains stop res1 sent1 W1
  where "run_domain sample_tick dr [] ''payment'' (tick_begun, [], parked_cached) = Some (stop, res1, sent1, W1)"
  using run_domain_returns [of sample_tick parked_cached dr "[]" "''payment''" tick_begun "[]"] enumerates_sorted
  by (simp add: dlq_run_inv del: dlq_run.simps) (metis surj_pair)

text \<open>The kill switch is pulled.\<close>

theorem trial_overrides_no_refusal_witness:
  "\<exists>stop res1 sent1 W1. run_domain sample_tick (sample_reads\<lparr>dr_switch := False\<rparr>) [] ''payment'' (tick_begun, [], parked_cached) = Some (stop, res1, sent1, W1)
    \<and> tk_trials res1 = [] \<and> st_dlq W1 = st_dlq parked_cached"
proof -
  obtain stop res1 sent1 W1 where r: "run_domain sample_tick (sample_reads\<lparr>dr_switch := False\<rparr>) [] ''payment'' (tick_begun, [], parked_cached)
      = Some (stop, res1, sent1, W1)" by (rule sample_turn)
  have "\<not> trial_permitted (sample_reads\<lparr>dr_switch := False\<rparr>) [] ''payment''" by (simp add: trial_permitted_def)
  then have "tk_trials res1 = tk_trials tick_begun \<and> sent1 = [] \<and> st_dlq W1 = st_dlq parked_cached"
    by (intro trial_overrides_no_refusal [OF r]) simp
  then show ?thesis using r by (simp add: tick_begun_def)
qed

text \<open>A first trial fails at second 100: the job name is not due at second 159.\<close>

theorem failing_trials_back_off_witness:
  "\<exists>stop res1 sent1 W1. run_domain sample_tick sample_reads [] ''payment'' (tick_begun, [], parked_cached) = Some (stop, res1, sent1, W1)
    \<and> \<not> is_due 159 (fst (read_pacing (te_repr sample_tick) 6 ''payment'' W1)) \<and> is_due 160 (fst (read_pacing (te_repr sample_tick) 6 ''payment'' W1))"
proof -
  obtain stop res1 sent1 W1 where r: "run_domain sample_tick sample_reads [] ''payment'' (tick_begun, [], parked_cached) = Some (stop, res1, sent1, W1)"
    by (rule sample_turn)
  have "map_option (\<lambda>x. map tr_outcome (tk_trials (fst (snd x)))) (run_domain sample_tick sample_reads [] ''payment'' (tick_begun, [], parked_cached))
      = Some [OUTCOME_FAILED]" by code_simp
  then obtain x where x: "tk_trials res1 = [x]" "tr_outcome x = OUTCOME_FAILED" by (auto simp: r)
  have k: "\<forall>d. keeps_slot (PACING_KEY_PREFIX @ ''payment'') (get_replay_handler d (cf_registry (te_config sample_tick)))"
    by (simp add: sample_handlers keeps_slot_def sample_handler_def default_replay_handler_def)
  have e: "exact_pow (te_fpow sample_tick)" by (simp add: exact_pow_def sample_tick_def whole_pow_def)
  have z: "int 0 = tp_streak (fst (read_pacing (te_repr sample_tick) (dr_now sample_reads) ''payment'' parked_cached))" by code_simp
  have "is_due t (fst (read_pacing (te_repr sample_tick) 6 ''payment'' W1)) \<longleftrightarrow> fl (100 + min 540 (60 * 2 ^ 0)) \<le> t" for t
    using failing_trials_back_off [OF r _ _ k e _ z refl, of x 6 t] x by (simp add: tick_begun_def sample_reads_def seconds_def)
  moreover have "fl 160 = 160" using fl_of_int [of 160] by simp
  ultimately show ?thesis using r by simp
qed

theorem tick_accounts_for_every_job_witness:
  "\<exists>res sent W1. run_recovery_trials sample_tick 5 0 (Some (calm 0, new_service None default_config)) (\<lambda>_. sample_reads) parked_cached = Some (res, sent, W1)
    \<and> distinct (map tr_domain (tk_trials res))"
proof -
  have "\<forall>d. keeps_inv (get_replay_handler d (cf_registry (te_config sample_tick)))"
    by (simp add: sample_handlers keeps_inv_def sample_handler_def default_replay_handler_def)
  moreover have "dict_wf (cf_registry (te_config sample_tick))" by (simp add: sample_registry_def register_replay_handler_def dict_wf_def)
  ultimately show ?thesis
    using tick_accounts_for_every_job [of sample_tick parked_cached "[Create 0 sample_op]"] enumerates_sorted by (simp del: dlq_run.simps) blast
qed

section \<open>Cursors survive the store\<close>

lemma nat_str_digits: "set (nat_str n) \<subseteq> digit_char ` {..<10}"
proof (induction n rule: nat_str.induct)
  case (1 n)
  then show ?case by (cases "n < 10") (auto simp: nat_str.simps [of n])
qed

lemma digit_char_plain: "d < 10 \<Longrightarrow> digit_char d \<noteq> CHR ''|'' \<and> digit_char d \<noteq> CHR ''.'' \<and> digit_char d \<noteq> CHR ''-''"
proof -
  assume "d < 10"
  then have "(of_char (digit_char d) :: nat) = 48 + d" by (simp add: digit_char_def of_char_of)
  then show ?thesis using \<open>d < 10\<close> by auto
qed

lemma nat_str_chars: "c \<in> set (nat_str n) \<Longrightarrow> c \<noteq> CHR ''|'' \<and> c \<noteq> CHR ''.'' \<and> c \<noteq> CHR ''-''"
  using nat_str_digits [of n] digit_char_plain by (metis imageE lessThan_iff subsetD)

lemma us_text_no_bar: "CHR ''|'' \<notin> set (us_text t)"
  using nat_str_chars by (auto simp: us_text_def pad6_def Let_def)

text \<open>A reader of the texts that the encoding writes.\<close>

definition read_us :: "string \<Rightarrow> int option" where
  "read_us s =
     (let neg = (s \<noteq> [] \<and> hd s = CHR ''-''); u = (if neg then tl s else s);
          n = int (str_nat (takeWhile (\<lambda>c. c \<noteq> CHR ''.'') u)) * 1000000 + int (str_nat (tl (dropWhile (\<lambda>c. c \<noteq> CHR ''.'') u)))
      in Some (if neg then - n else n))"

lemma str_nat_pad: "str_nat (pad6 n) = n"
proof -
  have "digit_val (CHR ''0'') = 0" by (simp add: digit_val_def)
  then have "foldl (\<lambda>n c. 10 * n + digit_val c) 0 (replicate k (CHR ''0'') @ s) = foldl (\<lambda>n c. 10 * n + digit_val c) 0 s" for k s
    by (induction k) simp_all
  then have "str_nat (replicate k (CHR ''0'') @ s) = str_nat s" for k s by (simp only: str_nat_def)
  then show ?thesis by (simp add: pad6_def Let_def)
qed

lemma read_us_parts:
  "read_us ((if neg then ''-'' else []) @ nat_str a @ ''.'' @ pad6 b) =
     Some (if neg then - (int a * 1000000 + int b) else int a * 1000000 + int b)"
proof -
  have "\<forall>c \<in> set (nat_str a). c \<noteq> CHR ''.''" using nat_str_chars by blast
  then have "takeWhile (\<lambda>c. c \<noteq> CHR ''.'') (nat_str a @ CHR ''.'' # pad6 b) = nat_str a"
    "dropWhile (\<lambda>c. c \<noteq> CHR ''.'') (nat_str a @ CHR ''.'' # pad6 b) = CHR ''.'' # pad6 b"
    by (simp_all add: takeWhile_append2 dropWhile_append2)
  moreover have "nat_str a \<noteq> []" by (subst nat_str.simps) simp
  moreover from this have "hd (nat_str a) \<noteq> CHR ''-''" using nat_str_chars [of "hd (nat_str a)" a] by simp
  ultimately show ?thesis by (simp add: read_us_def Let_def str_nat_pad)
qed

lemma read_us_text: "read_us (us_text t) = Some t"
proof -
  have "0 \<le> \<bar>t\<bar> div 1000000" by (simp add: pos_imp_zdiv_nonneg_iff)
  then have p: "int (nat (\<bar>t\<bar> div 1000000)) * 1000000 + int (nat (\<bar>t\<bar> mod 1000000)) = \<bar>t\<bar>"
    using div_mult_mod_eq [of "\<bar>t\<bar>" 1000000] by simp
  show ?thesis unfolding us_text_def read_us_parts p by simp
qed



end
