(* ===== verification/Bulkhead.thy ===== *)
theory Bulkhead
  imports Py_Float Prelude
begin

text \<open>
  The bulkhead (\<open>services/bulkhead/semaphore.py\<close>): one count of seats for threads and coroutines.  What runs under the compartment's lock is a
  function of its state; the lock protocol itself, in which a releaser never waits but queues its operation for whoever holds the lock, is a step
  relation of the callers.  A caller is a number, and names its waiter too.  The environment of a step tells the clock and, for a coroutine's
  waiter, what its event loop is doing.
\<close>

section \<open>State\<close>

datatype loop_status = LOOP_RUNNING | LOOP_STOPPED | LOOP_CLOSED

record waiter =
  wt_deadline :: rat
  wt_on_loop :: bool
  wt_queued :: bool
  wt_woken :: bool

datatype pending_op = SEAT_RETURNED | LEFT nat

record bulkhead =
  bk_name :: string
  bk_max_concurrent :: int
  bk_taken :: int
  bk_waiters :: "nat list"
  bk_waiter :: "nat \<Rightarrow> waiter"
  bk_pending :: "pending_op list"
  bk_rejected_count :: int
  bk_last_rejection :: "instant option"

definition no_waiter :: waiter where
  "no_waiter = \<lparr>wt_deadline = 0, wt_on_loop = False, wt_queued = False, wt_woken = False\<rparr>"

definition new_waiter :: "bool \<Rightarrow> rat \<Rightarrow> waiter" where
  "new_waiter on_loop deadline = \<lparr>wt_deadline = deadline, wt_on_loop = on_loop, wt_queued = False, wt_woken = False\<rparr>"

definition new_bulkhead :: "string \<Rightarrow> int \<Rightarrow> bulkhead" where
  "new_bulkhead n mx = \<lparr>bk_name = n, bk_max_concurrent = mx, bk_taken = 0, bk_waiters = [], bk_waiter = (\<lambda>_. no_waiter), bk_pending = [],
     bk_rejected_count = 0, bk_last_rejection = None\<rparr>"

text \<open>What a step reads: the monotonic clock, the wall clock, and the loops of the coroutines.\<close>

record bk_env =
  be_now :: rat
  be_wall :: instant
  be_loop :: "nat \<Rightarrow> loop_status"

definition loop_of :: "bk_env \<Rightarrow> bulkhead \<Rightarrow> nat \<Rightarrow> loop_status" where
  "loop_of E b i = (if wt_on_loop (bk_waiter b i) then be_loop E i else LOOP_RUNNING)"

abbreviation put_waiter :: "nat \<Rightarrow> waiter \<Rightarrow> bulkhead \<Rightarrow> bulkhead" where
  "put_waiter i w b \<equiv> b\<lparr>bk_waiter := (bk_waiter b)(i := w)\<rparr>"

section \<open>Waiters\<close>

definition is_dead :: "bk_env \<Rightarrow> bulkhead \<Rightarrow> nat \<Rightarrow> bool" where
  "is_dead E b i \<longleftrightarrow> loop_of E b i = LOOP_CLOSED \<or> be_now E \<ge> wt_deadline (bk_waiter b i)"

text \<open>Whether the wake reached a waiter that can run it now.\<close>

definition wake :: "bk_env \<Rightarrow> nat \<Rightarrow> bulkhead \<Rightarrow> bool \<times> bulkhead" where
  "wake E i b =
     (if \<not> wt_woken (bk_waiter b i) \<and> loop_of E b i = LOOP_CLOSED then (False, b)
      else (loop_of E b i = LOOP_RUNNING, put_waiter i ((bk_waiter b i)\<lparr>wt_woken := True\<rparr>) b))"

definition unqueue :: "nat \<Rightarrow> bulkhead \<Rightarrow> bulkhead" where
  "unqueue i b =
     (if wt_queued (bk_waiter b i)
      then (put_waiter i ((bk_waiter b i)\<lparr>wt_queued := False\<rparr>) b)\<lparr>bk_waiters := remove1 i (bk_waiters b)\<rparr> else b)"

definition enqueue :: "nat \<Rightarrow> bulkhead \<Rightarrow> bulkhead" where
  "enqueue i b = (put_waiter i ((bk_waiter b i)\<lparr>wt_queued := True\<rparr>) b)\<lparr>bk_waiters := bk_waiters b @ [i]\<rparr>"

fun wake_first :: "bk_env \<Rightarrow> nat list \<Rightarrow> bulkhead \<Rightarrow> bulkhead" where
  "wake_first E [] b = b"
| "wake_first E (i # is) b =
     (if wt_woken (bk_waiter b i) then wake_first E is b
      else let (reached, b1) = wake E i b
           in if reached then b1
              else wake_first E is (if \<not> wt_woken (bk_waiter b1 i) then unqueue i b1 else b1))"

definition wake_next :: "bk_env \<Rightarrow> bulkhead \<Rightarrow> bulkhead" where
  "wake_next E b = wake_first E (bk_waiters b) b"

text \<open>\<open>waiter.woken = False\<close>, and what \<open>rearm\<close> does: the fresh token or future of the next wait has no other part in the state.\<close>

definition pass_on :: "nat \<Rightarrow> bulkhead \<Rightarrow> bulkhead" where
  "pass_on i b = put_waiter i ((bk_waiter b i)\<lparr>wt_woken := False\<rparr>) b"

fun prune_dead :: "bk_env \<Rightarrow> nat list \<Rightarrow> bulkhead \<Rightarrow> nat \<times> bulkhead" where
  "prune_dead E [] b = (0, b)"
| "prune_dead E (i # is) b =
     (if \<not> is_dead E b i then prune_dead E is b
      else if wt_woken (bk_waiter (unqueue i b) i)
      then let (lost, b1) = prune_dead E is (pass_on i (unqueue i b)) in (lost + 1, b1)
      else prune_dead E is (unqueue i b))"

definition prune :: "bk_env \<Rightarrow> bulkhead \<Rightarrow> bulkhead" where
  "prune E b = (let (lost, b1) = prune_dead E (bk_waiters b) b in (wake_next E ^^ lost) b1)"

definition drop_waiter :: "bk_env \<Rightarrow> nat \<Rightarrow> bulkhead \<Rightarrow> bulkhead" where
  "drop_waiter E i b =
     (let b1 = unqueue i b in if wt_woken (bk_waiter b1 i) then wake_next E (pass_on i b1) else b1)"

text \<open>\<open>done\<close>: the future of a coroutine's waiter has been resolved.\<close>

definition requeue :: "bool \<Rightarrow> nat \<Rightarrow> bulkhead \<Rightarrow> bulkhead" where
  "requeue resolved i b =
     (let w = bk_waiter b i
      in if wt_woken w \<or> (wt_on_loop w \<and> resolved) \<or> \<not> wt_queued w then enqueue i (pass_on i (unqueue i b)) else b)"

section \<open>Under the lock\<close>

definition settle_op :: "bk_env \<Rightarrow> pending_op \<Rightarrow> bulkhead \<Rightarrow> bulkhead" where
  "settle_op E p b =
     (case p of
        SEAT_RETURNED \<Rightarrow> if bk_taken b > 0 then wake_next E (b\<lparr>bk_taken := bk_taken b - 1\<rparr>) else b
      | LEFT i \<Rightarrow> drop_waiter E i b)"

definition settle :: "bk_env \<Rightarrow> bulkhead \<Rightarrow> bulkhead" where
  "settle E b =
     (let b1 = fold (settle_op E) (bk_pending b) (b\<lparr>bk_pending := []\<rparr>)
      in if bk_waiters b1 \<noteq> [] then prune E b1 else b1)"

definition take_seat :: "bulkhead \<Rightarrow> bool \<times> bulkhead" where
  "take_seat b = (if bk_taken b < bk_max_concurrent b then (True, b\<lparr>bk_taken := bk_taken b + 1\<rparr>) else (False, b))"

definition count_rejection :: "bk_env \<Rightarrow> bulkhead \<Rightarrow> bulkhead" where
  "count_rejection E b = b\<lparr>bk_rejected_count := bk_rejected_count b + 1, bk_last_rejection := Some (be_wall E)\<rparr>"

datatype admission = SEATED | REJECTED | QUEUED

text \<open>The first attempt of a caller, the same for a thread and (\<open>on_loop\<close>) a coroutine.\<close>

definition attempt :: "bk_env \<Rightarrow> nat \<Rightarrow> bool \<Rightarrow> rat option \<Rightarrow> bulkhead \<Rightarrow> admission \<times> bulkhead" where
  "attempt E i on_loop timeout b =
     (let (ok, b1) = take_seat (settle E b)
      in if ok then (SEATED, b1)
         else case timeout of
                Some t \<Rightarrow> if t > 0 then (QUEUED, enqueue i (put_waiter i (new_waiter on_loop (fl (be_now E + t))) b1))
                          else (REJECTED, count_rejection E b1)
              | None \<Rightarrow> (REJECTED, count_rejection E b1))"

text \<open>A thread that runs an event loop gets the immediate verdict.\<close>

definition try_acquire :: "bk_env \<Rightarrow> nat \<Rightarrow> bool \<Rightarrow> rat option \<Rightarrow> bulkhead \<Rightarrow> admission \<times> bulkhead" where
  "try_acquire E i running_loop timeout b = attempt E i False (if timeout \<noteq> None \<and> running_loop then None else timeout) b"

definition try_acquire_async :: "bk_env \<Rightarrow> nat \<Rightarrow> rat option \<Rightarrow> bulkhead \<Rightarrow> admission \<times> bulkhead" where
  "try_acquire_async E i timeout b = attempt E i True timeout b"

text \<open>A turn of the waiting loop, after the wait: \<open>later\<close> is the clock of the deadline check.\<close>

definition wait_turn :: "bk_env \<Rightarrow> rat \<Rightarrow> bool \<Rightarrow> nat \<Rightarrow> bulkhead \<Rightarrow> admission \<times> bulkhead" where
  "wait_turn E later resolved i b =
     (let (ok, b1) = take_seat (settle E b)
      in if ok then (SEATED, unqueue i b1)
         else if later < wt_deadline (bk_waiter b1 i) then (QUEUED, requeue resolved i b1)
         else (REJECTED, count_rejection E (drop_waiter E i b1)))"

definition wait_as_thread :: "bk_env \<Rightarrow> rat \<Rightarrow> nat \<Rightarrow> bulkhead \<Rightarrow> admission \<times> bulkhead" where
  "wait_as_thread E later i b = wait_turn E later False i b"

definition wait_as_coroutine :: "bk_env \<Rightarrow> rat \<Rightarrow> bool \<Rightarrow> nat \<Rightarrow> bulkhead \<Rightarrow> admission \<times> bulkhead" where
  "wait_as_coroutine E later resolved i b = wait_turn E later resolved i b"

definition queue_op :: "pending_op \<Rightarrow> bulkhead \<Rightarrow> bulkhead" where
  "queue_op p b = b\<lparr>bk_pending := bk_pending b @ [p]\<rparr>"

record bulkhead_state =
  bt_name :: string
  bt_max_concurrent :: int
  bt_active_count :: int
  bt_waiting_count :: nat
  bt_rejected_count :: int
  bt_last_rejection_time :: "instant option"

definition bk_get_state :: "bk_env \<Rightarrow> bulkhead \<Rightarrow> bulkhead_state \<times> bulkhead" where
  "bk_get_state E b =
     (let b1 = settle E b
      in (\<lparr>bt_name = bk_name b1, bt_max_concurrent = bk_max_concurrent b1, bt_active_count = bk_taken b1, bt_waiting_count = length (bk_waiters b1),
           bt_rejected_count = bk_rejected_count b1, bt_last_rejection_time = bk_last_rejection b1\<rparr>, b1))"

definition available_permits :: "bulkhead_state \<Rightarrow> int" where
  "available_permits s = max 0 (bt_max_concurrent s - bt_active_count s)"

definition utilization_percent :: "bulkhead_state \<Rightarrow> rat" where
  "utilization_percent s =
     (if bt_max_concurrent s = 0 then 0 else fmul (fdiv (bt_active_count s) (bt_max_concurrent s)) 100)"

section \<open>The lock protocol\<close>

text \<open>A caller rests or waits for a wake; has done its work under the lock and is about to settle and unlock; looks whether operations were
  queued meanwhile; or applies them.  \<open>True\<close> as the argument: it will wait afterwards.\<close>

datatype bk_phase = Resting | Waiting | Holding bool | Checking bool | Applying bool

definition afterwards :: "bool \<Rightarrow> bk_phase" where
  "afterwards waits = (if waits then Waiting else Resting)"

record bk_system =
  bs_bulkhead :: bulkhead
  bs_phase :: "nat \<Rightarrow> bk_phase"
  bs_lock :: "nat option"
  bs_seats :: int

definition new_system :: "string \<Rightarrow> int \<Rightarrow> bk_system" where
  "new_system n mx = \<lparr>bs_bulkhead = new_bulkhead n mx, bs_phase = (\<lambda>_. Resting), bs_lock = None, bs_seats = 0\<rparr>"

definition move :: "nat \<Rightarrow> bk_phase \<Rightarrow> nat option \<Rightarrow> bulkhead \<Rightarrow> bk_system \<Rightarrow> bk_system" where
  "move a ph lock b S = S\<lparr>bs_bulkhead := b, bs_phase := (bs_phase S)(a := ph), bs_lock := lock\<rparr>"

definition seated :: "admission \<Rightarrow> bk_system \<Rightarrow> bk_system" where
  "seated v S = (if v = SEATED then S\<lparr>bs_seats := bs_seats S + 1\<rparr> else S)"

inductive bk_step :: "bk_system \<Rightarrow> bk_system \<Rightarrow> bool" where
  Try: "bs_phase S a = Resting \<Longrightarrow> bs_lock S = None \<Longrightarrow> try_acquire E a running_loop timeout (bs_bulkhead S) = (v, b)
        \<Longrightarrow> bk_step S (seated v (move a (Holding (v = QUEUED)) (Some a) b S))"
| Try_Async: "bs_phase S a = Resting \<Longrightarrow> bs_lock S = None \<Longrightarrow> try_acquire_async E a timeout (bs_bulkhead S) = (v, b)
        \<Longrightarrow> bk_step S (seated v (move a (Holding (v = QUEUED)) (Some a) b S))"
| Turn: "bs_phase S a = Waiting \<Longrightarrow> bs_lock S = None \<Longrightarrow> \<not> wt_on_loop (bk_waiter (bs_bulkhead S) a)
        \<Longrightarrow> wait_as_thread E later a (bs_bulkhead S) = (v, b) \<Longrightarrow> bk_step S (seated v (move a (Holding (v = QUEUED)) (Some a) b S))"
| Turn_Async: "bs_phase S a = Waiting \<Longrightarrow> bs_lock S = None \<Longrightarrow> wt_on_loop (bk_waiter (bs_bulkhead S) a)
        \<Longrightarrow> wait_as_coroutine E later resolved a (bs_bulkhead S) = (v, b) \<Longrightarrow> bk_step S (seated v (move a (Holding (v = QUEUED)) (Some a) b S))"
| Look: "bs_phase S a = Resting \<Longrightarrow> bs_lock S = None \<Longrightarrow> bk_step S (move a (Holding False) (Some a) (snd (bk_get_state E (bs_bulkhead S))) S)"
| Exit: "bs_phase S a = Holding waits \<Longrightarrow> bk_step S (move a (Checking waits) None (settle E (bs_bulkhead S)) S)"
| Done: "bs_phase S a = Checking waits \<Longrightarrow> bk_pending (bs_bulkhead S) = [] \<Longrightarrow> bk_step S (move a (afterwards waits) (bs_lock S) (bs_bulkhead S) S)"
| Busy: "bs_phase S a = Checking waits \<Longrightarrow> bs_lock S \<noteq> None \<Longrightarrow> bk_step S (move a (afterwards waits) (bs_lock S) (bs_bulkhead S) S)"
| Apply: "bs_phase S a = Checking waits \<Longrightarrow> bk_pending (bs_bulkhead S) \<noteq> [] \<Longrightarrow> bs_lock S = None
        \<Longrightarrow> bk_step S (move a (Applying waits) (Some a) (settle E (bs_bulkhead S)) S)"
| Unlock: "bs_phase S a = Applying waits \<Longrightarrow> bk_step S (move a (Checking waits) None (bs_bulkhead S) S)"
| Release: "bs_phase S a = Resting \<Longrightarrow> 0 < bs_seats S
        \<Longrightarrow> bk_step S (move a (Checking False) (bs_lock S) (queue_op SEAT_RETURNED (bs_bulkhead S)) S\<lparr>bs_seats := bs_seats S - 1\<rparr>)"
| Abandon: "bs_phase S a = Waiting \<Longrightarrow> bk_step S (move a (Checking False) (bs_lock S) (queue_op (LEFT a) (bs_bulkhead S)) S)"

inductive bk_reachable :: "bk_system \<Rightarrow> bk_system \<Rightarrow> bool" for S0 where
  Start: "bk_reachable S0 S0"
| Next: "bk_reachable S0 S \<Longrightarrow> bk_step S T \<Longrightarrow> bk_reachable S0 T"

section \<open>Wakes\<close>

text \<open>The queue is as the waiters' flags say, and enough of those in it are woken: \<open>n\<close>, or all.\<close>

definition well_queued :: "bulkhead \<Rightarrow> bool" where
  "well_queued b \<longleftrightarrow> distinct (bk_waiters b) \<and> (\<forall>i. wt_queued (bk_waiter b i) \<longleftrightarrow> i \<in> set (bk_waiters b))"

definition woken_count :: "bulkhead \<Rightarrow> nat" where
  "woken_count b = length (filter (\<lambda>i. wt_woken (bk_waiter b i)) (bk_waiters b))"

definition covers :: "int \<Rightarrow> bulkhead \<Rightarrow> bool" where
  "covers n b \<longleftrightarrow> well_queued b \<and> (n \<le> int (woken_count b) \<or> woken_count b = length (bk_waiters b))"

lemma covers_le: "covers n b \<Longrightarrow> m \<le> n \<Longrightarrow> covers m b"
  by (auto simp: covers_def)

lemma covers_frames [simp]:
  "covers n (b\<lparr>bk_pending := ps\<rparr>) = covers n b" "covers n (b\<lparr>bk_taken := t\<rparr>) = covers n b" "covers n (count_rejection E b) = covers n b"
  by (simp_all add: covers_def well_queued_def woken_count_def count_rejection_def)

lemma length_filter_remove1:
  "distinct xs \<Longrightarrow> i \<in> set xs \<Longrightarrow> length (filter P xs) = length (filter P (remove1 i xs)) + (if P i then 1 else 0)"
  by (induction xs) auto

lemma filter_cong_out: "i \<notin> set xs \<Longrightarrow> filter (\<lambda>j. P (if j = i then x else f j)) xs = filter (\<lambda>j. P (f j)) xs"
  by (rule filter_cong) auto

lemma woken_count_less: "i \<in> set (bk_waiters b) \<Longrightarrow> \<not> wt_woken (bk_waiter b i) \<Longrightarrow> woken_count b < length (bk_waiters b)"
  unfolding woken_count_def by (rule length_filter_less)

lemma unqueue_covers:
  assumes "covers n b"
  shows "covers (if wt_woken (bk_waiter b i) then n - 1 else n) (unqueue i b)"
proof (cases "wt_queued (bk_waiter b i)")
  case False
  then show ?thesis using assms by (auto simp: unqueue_def covers_def)
next
  case True
  then have i: "distinct (bk_waiters b)" "i \<in> set (bk_waiters b)" using assms by (auto simp: covers_def well_queued_def)
  have w: "woken_count (unqueue i b) = length (filter (\<lambda>j. wt_woken (bk_waiter b j)) (remove1 i (bk_waiters b)))"
    using True i by (auto simp: woken_count_def unqueue_def intro!: arg_cong [where f = length] filter_cong)
  have l: "length (bk_waiters b) = length (remove1 i (bk_waiters b)) + 1" using i length_filter_remove1 [of "bk_waiters b" i "\<lambda>_. True"] by simp
  show ?thesis
    using assms True i w l length_filter_remove1 [OF i, of "\<lambda>j. wt_woken (bk_waiter b j)"]
      woken_count_less [OF i(2)]
    by (auto simp: covers_def well_queued_def woken_count_def [of b] unqueue_def)
qed

lemma woken_up:
  assumes "well_queued b" and "i \<in> set (bk_waiters b)" and "\<not> wt_woken (bk_waiter b i)"
  shows "woken_count (put_waiter i ((bk_waiter b i)\<lparr>wt_woken := True\<rparr>) b) = woken_count b + 1"
proof -
  have d: "distinct (bk_waiters b)" using assms(1) by (simp add: well_queued_def)
  have "filter (\<lambda>j. wt_woken (((bk_waiter b)(i := (bk_waiter b i)\<lparr>wt_woken := True\<rparr>)) j)) (remove1 i (bk_waiters b))
      = filter (\<lambda>j. wt_woken (bk_waiter b j)) (remove1 i (bk_waiters b))"
    using d by (intro filter_cong) auto
  then show ?thesis
    using length_filter_remove1 [OF d assms(2), of "\<lambda>j. wt_woken (bk_waiter b j)"]
      length_filter_remove1 [OF d assms(2), of "\<lambda>j. wt_woken (((bk_waiter b)(i := (bk_waiter b i)\<lparr>wt_woken := True\<rparr>)) j)"] assms(3)
    by (simp add: woken_count_def)
qed

lemma well_queued_woken [simp]: "well_queued (put_waiter i ((bk_waiter b i)\<lparr>wt_woken := x\<rparr>) b) = well_queued b"
  by (auto simp: well_queued_def)

text \<open>A wake is absorbed: one more waiter is woken, or every waiter left in the queue is.\<close>

lemma wake_first_covers:
  assumes "covers n b" and "set is \<subseteq> set (bk_waiters b)" and "\<forall>j \<in> set (bk_waiters b) - set is. wt_woken (bk_waiter b j)" and "distinct is"
  shows "covers (n + 1) (wake_first E is b)"
  using assms
proof (induction E "is" b rule: wake_first.induct)
  case (1 E b)
  then have "woken_count b = length (bk_waiters b)" by (simp add: woken_count_def filter_id_conv)
  then show ?case using 1 by (simp add: covers_def)
next
  case (2 E i "is" b)
  have q: "well_queued b" and i: "i \<in> set (bk_waiters b)" using 2 by (auto simp: covers_def)
  show ?case
  proof (cases "wt_woken (bk_waiter b i)")
    case True
    then show ?thesis using "2.IH"(1) [OF True] "2.prems" by auto
  next
    case nw: False
    let ?b = "put_waiter i ((bk_waiter b i)\<lparr>wt_woken := True\<rparr>) b"
    have up: "covers (n + 1) ?b"
      using woken_up [OF q i nw] "2.prems"(1) q woken_count_less [OF i nw] by (simp add: covers_def)
    show ?thesis
    proof (cases "loop_of E b i = LOOP_CLOSED")
      case True
      then have w: "wake E i b = (False, b)" using nw by (simp add: wake_def)
      have "covers n (unqueue i b)" using unqueue_covers [OF "2.prems"(1), of i] nw by simp
      moreover have "bk_waiters (unqueue i b) = remove1 i (bk_waiters b)" "\<And>j. wt_woken (bk_waiter (unqueue i b) j) = wt_woken (bk_waiter b j)"
        using q i by (auto simp: unqueue_def well_queued_def)
      ultimately show ?thesis
        using "2.IH"(2) [OF nw refl w [symmetric]] nw "2.prems" q by (auto simp: w well_queued_def)
    next
      case False
      then have w: "wake E i b = (loop_of E b i = LOOP_RUNNING, ?b)" using nw by (simp add: wake_def)
      show ?thesis
      proof (cases "loop_of E b i = LOOP_RUNNING")
        case True
        then show ?thesis using up nw w by simp
      next
        case nr: False
        then have w': "wake E i b = (False, ?b)" using w by simp
        have "covers n ?b" using up by (rule covers_le) simp
        then show ?thesis
          using "2.IH"(2) [OF nw refl w' [symmetric]] nw "2.prems" by (auto simp: w')
      qed
    qed
  qed
qed

lemma wake_next_covers: "covers n b \<Longrightarrow> covers (n + 1) (wake_next E b)"
  unfolding wake_next_def by (rule wake_first_covers) (auto simp: covers_def well_queued_def)

lemma wake_next_times: "covers n b \<Longrightarrow> covers (n + int k) ((wake_next E ^^ k) b)"
proof (induction k)
  case (Suc k)
  then show ?case using wake_next_covers [of "n + int k" _ E] by (simp add: add.commute add.left_commute)
qed simp

lemma pass_on_covers: "\<not> wt_queued (bk_waiter b i) \<Longrightarrow> covers n (pass_on i b) = covers n b"
proof -
  assume nq: "\<not> wt_queued (bk_waiter b i)"
  have "woken_count (pass_on i b) = woken_count b" if "well_queued b"
    using nq that by (auto simp: woken_count_def pass_on_def well_queued_def intro!: arg_cong [where f = length] filter_cong)
  then show ?thesis by (auto simp: covers_def pass_on_def)
qed

lemma unqueue_flags [simp]: "wt_queued (bk_waiter (unqueue i b) i) = False" "wt_woken (bk_waiter (unqueue i b) j) = wt_woken (bk_waiter b j)"
  by (auto simp: unqueue_def)

lemma prune_dead_covers: "covers n b \<Longrightarrow> covers (n - int (fst (prune_dead E is b))) (snd (prune_dead E is b))"
proof (induction E "is" b arbitrary: n rule: prune_dead.induct)
  case (2 E i "is" b)
  show ?case
  proof (cases "\<not> is_dead E b i")
    case True
    then show ?thesis using "2.IH"(1) "2.prems" by simp
  next
    case d: False
    show ?thesis
    proof (cases "wt_woken (bk_waiter b i)")
      case True
      then have "covers (n - 1) (pass_on i (unqueue i b))" using unqueue_covers [OF "2.prems", of i] by (simp add: pass_on_covers)
      from "2.IH"(2) [OF d _ this] True d show ?thesis by (simp add: split_beta algebra_simps)
    next
      case False
      then have "covers n (unqueue i b)" using unqueue_covers [OF "2.prems", of i] by simp
      from "2.IH"(3) [OF d _ this] False d show ?thesis by simp
    qed
  qed
qed simp

lemma prune_covers: "covers n b \<Longrightarrow> covers n (prune E b)"
  using wake_next_times [OF prune_dead_covers [of n b E "bk_waiters b"], of "fst (prune_dead E (bk_waiters b) b)" E]
  by (simp add: prune_def split_beta Let_def)

lemma drop_waiter_covers:
  assumes "covers n b"
  shows "covers n (drop_waiter E i b)"
proof (cases "wt_woken (bk_waiter b i)")
  case True
  then have "covers (n - 1) (pass_on i (unqueue i b))" using unqueue_covers [OF assms, of i] by (simp add: pass_on_covers)
  from wake_next_covers [OF this] True show ?thesis by (simp add: drop_waiter_def)
next
  case False
  then show ?thesis using unqueue_covers [OF assms, of i] by (simp add: drop_waiter_def)
qed

lemma enqueue_covers:
  assumes "covers n b" and "\<not> wt_queued (bk_waiter b i)"
  shows "covers (min n 0) (enqueue i b)"
  using assms by (auto simp: covers_def well_queued_def enqueue_def)

text \<open>The name, the seats and the list of operations are not touched by the waiters' bookkeeping.\<close>

definition rest_of_state :: "bulkhead \<Rightarrow> string \<times> int \<times> int \<times> pending_op list" where
  "rest_of_state b = (bk_name b, bk_max_concurrent b, bk_taken b, bk_pending b)"

lemma rest_frames [simp]:
  "rest_of_state (unqueue i b) = rest_of_state b" "rest_of_state (enqueue i b) = rest_of_state b" "rest_of_state (pass_on i b) = rest_of_state b"
  "rest_of_state (count_rejection E b) = rest_of_state b" "rest_of_state (put_waiter i w b) = rest_of_state b"
  by (simp_all add: rest_of_state_def unqueue_def enqueue_def pass_on_def count_rejection_def)

lemma rest_wake_first [simp]: "rest_of_state (wake_first E is b) = rest_of_state b"
proof (induction E "is" b rule: wake_first.induct)
  case (2 E i "is" b)
  have "rest_of_state (snd (wake E i b)) = rest_of_state b" by (simp add: wake_def)
  then show ?case using 2 by (cases "wake E i b") auto
qed simp

lemma rest_prune_dead [simp]: "rest_of_state (snd (prune_dead E is b)) = rest_of_state b"
  by (induction E "is" b rule: prune_dead.induct) (simp_all add: split_beta Let_def)

lemma rest_waiters [simp]: "rest_of_state (wake_next E b) = rest_of_state b" "rest_of_state (prune E b) = rest_of_state b"
    "rest_of_state (drop_waiter E i b) = rest_of_state b" "rest_of_state (requeue r i b) = rest_of_state b"
proof -
  show w: "rest_of_state (wake_next E b) = rest_of_state b" for b by (simp add: wake_next_def)
  have "rest_of_state ((wake_next E ^^ k) c) = rest_of_state c" for k c by (induction k) (simp_all add: w)
  then show "rest_of_state (prune E b) = rest_of_state b" by (simp add: prune_def split_beta Let_def)
  show "rest_of_state (drop_waiter E i b) = rest_of_state b" "rest_of_state (requeue r i b) = rest_of_state b"
    by (simp_all add: drop_waiter_def requeue_def w Let_def)
qed

lemma rest_name: "rest_of_state c = rest_of_state b \<Longrightarrow> bk_name c = bk_name b"
  by (simp add: rest_of_state_def)

lemma settle_name [simp]: "bk_name (settle E b) = bk_name b"
proof -
  have o: "bk_name (settle_op E p c) = bk_name c" for p c
    using rest_name [OF rest_waiters(1) [of E "c\<lparr>bk_taken := bk_taken c - 1\<rparr>"]] rest_name [OF rest_waiters(3) [of E _ c]]
    by (simp add: settle_op_def split: pending_op.splits)
  have "bk_name (fold (settle_op E) ps c) = bk_name c" for ps c by (induction ps arbitrary: c) (simp_all add: o)
  then show ?thesis by (simp add: settle_def Let_def rest_name [OF rest_waiters(2)])
qed

section \<open>Seats\<close>

definition returned :: "pending_op list \<Rightarrow> int" where
  "returned ps = int (length (filter (\<lambda>p. p = SEAT_RETURNED) ps))"

text \<open>The seats held, those on their way back, and a wake for every free seat as long as anyone is queued.\<close>

definition bk_ok :: "int \<Rightarrow> bulkhead \<Rightarrow> bool" where
  "bk_ok n b \<longleftrightarrow> 0 \<le> n \<and> bk_taken b = n + returned (bk_pending b) \<and> bk_taken b \<le> bk_max_concurrent b \<and> covers (bk_max_concurrent b - bk_taken b) b"

lemma bk_ok_rest:
  assumes "bk_ok n b" and "rest_of_state c = rest_of_state b" and "\<And>m. covers m b \<Longrightarrow> covers m c"
  shows "bk_ok n c"
proof -
  have "bk_max_concurrent c = bk_max_concurrent b" "bk_taken c = bk_taken b" "bk_pending c = bk_pending b"
    using assms(2) by (simp_all add: rest_of_state_def)
  then show ?thesis using assms(1,3) unfolding bk_ok_def by metis
qed

lemma settle_op_ok:
  assumes "0 \<le> n" and "bk_taken b = n + returned (p # ps)" and "bk_taken b \<le> bk_max_concurrent b" and "covers (bk_max_concurrent b - bk_taken b) b"
  shows "bk_taken (settle_op E p b) = n + returned ps \<and> bk_max_concurrent (settle_op E p b) = bk_max_concurrent b
    \<and> bk_pending (settle_op E p b) = bk_pending b
    \<and> covers (bk_max_concurrent b - bk_taken (settle_op E p b)) (settle_op E p b)"
proof (cases p)
  case SEAT_RETURNED
  then have "0 < bk_taken b" using assms(1,2) by (simp add: returned_def)
  let ?b = "b\<lparr>bk_taken := bk_taken b - 1\<rparr>"
  have "covers (bk_max_concurrent b - bk_taken b) ?b" using assms(4) by simp
  from wake_next_covers [OF this, of E] \<open>0 < bk_taken b\<close> show ?thesis
    using assms(2) rest_waiters(1) [of E ?b] by (simp add: settle_op_def SEAT_RETURNED returned_def rest_of_state_def algebra_simps)
next
  case (LEFT i)
  then show ?thesis using assms drop_waiter_covers [OF assms(4), of E i] rest_waiters(3) [of E i b]
    by (simp add: settle_op_def returned_def rest_of_state_def)
qed

lemma settle_ops_ok:
  assumes "0 \<le> n"
  shows "bk_taken c = n + returned ps \<Longrightarrow> bk_taken c \<le> bk_max_concurrent c \<Longrightarrow> covers (bk_max_concurrent c - bk_taken c) c \<Longrightarrow> bk_pending c = [] \<Longrightarrow>
    bk_ok n (fold (settle_op E) ps c) \<and> bk_pending (fold (settle_op E) ps c) = [] \<and> bk_max_concurrent (fold (settle_op E) ps c) = bk_max_concurrent c"
proof (induction ps arbitrary: c)
  case Nil
  then show ?case using assms by (simp add: bk_ok_def returned_def)
next
  case (Cons p ps)
  note so = settle_op_ok [OF assms Cons.prems(1-3), of E]
  have "returned ps \<le> returned (p # ps)" by (simp add: returned_def)
  moreover have "covers (bk_max_concurrent c - (n + returned ps)) (settle_op E p c)" using so by metis
  ultimately show ?case using Cons.IH [of "settle_op E p c"] so Cons.prems by simp
qed

lemma settle_ok:
  assumes "bk_ok n b"
  shows "bk_ok n (settle E b)" and "bk_pending (settle E b) = []" and "bk_max_concurrent (settle E b) = bk_max_concurrent b"
proof -
  let ?b = "b\<lparr>bk_pending := []\<rparr>" and ?c = "fold (settle_op E) (bk_pending b) (b\<lparr>bk_pending := []\<rparr>)"
  have n: "0 \<le> n" and t: "bk_taken ?b = n + returned (bk_pending b)" "bk_taken ?b \<le> bk_max_concurrent ?b"
    and c: "covers (bk_max_concurrent ?b - bk_taken ?b) ?b" and e: "bk_pending ?b = []"
    using assms unfolding bk_ok_def by auto
  note f = settle_ops_ok [OF n t c e, of E]
  have "bk_ok n (prune E ?c)" using f by (blast intro: bk_ok_rest [OF _ rest_waiters(2)] prune_covers)
  moreover have "bk_pending (prune E ?c) = bk_pending ?c" "bk_max_concurrent (prune E ?c) = bk_max_concurrent ?c"
    using rest_waiters(2) [of E ?c] by (simp_all add: rest_of_state_def)
  ultimately show "bk_ok n (settle E b)" and "bk_pending (settle E b) = []" and "bk_max_concurrent (settle E b) = bk_max_concurrent b"
    using f by (simp_all add: settle_def Let_def)
qed

text \<open>Nobody enters the queue but through \<open>enqueue\<close>, and a waiter that left is out of it.\<close>

lemma unqueue_queued: "wt_queued (bk_waiter (unqueue i b) j) \<longleftrightarrow> wt_queued (bk_waiter b j) \<and> j \<noteq> i"
  by (auto simp: unqueue_def)

lemma pass_on_queued [simp]: "wt_queued (bk_waiter (pass_on i b) j) = wt_queued (bk_waiter b j)"
  by (simp add: pass_on_def)

lemma wake_first_queued: "wt_queued (bk_waiter (wake_first E is b) j) \<Longrightarrow> wt_queued (bk_waiter b j)"
proof (induction E "is" b rule: wake_first.induct)
  case (2 E i "is" b)
  have w: "wt_queued (bk_waiter (snd (wake E i b)) j) = wt_queued (bk_waiter b j)" by (simp add: wake_def)
  show ?case using 2 w by (cases "wake E i b") (auto simp: unqueue_queued split: if_splits)
qed simp

lemma drop_waiter_queued: "wt_queued (bk_waiter (drop_waiter E i b) j) \<Longrightarrow> wt_queued (bk_waiter b j) \<and> j \<noteq> i"
  unfolding drop_waiter_def wake_next_def Let_def by (auto simp: unqueue_queued dest: wake_first_queued split: if_splits)

lemma prune_dead_queued: "wt_queued (bk_waiter (snd (prune_dead E is b)) j) \<Longrightarrow> wt_queued (bk_waiter b j)"
  by (induction E "is" b rule: prune_dead.induct) (auto simp: split_beta Let_def unqueue_queued split: if_splits)

lemma prune_queued: "wt_queued (bk_waiter (prune E b) j) \<Longrightarrow> wt_queued (bk_waiter b j)"
proof -
  have "wt_queued (bk_waiter ((wake_next E ^^ k) c) j) \<Longrightarrow> wt_queued (bk_waiter c j)" for k c
    by (induction k) (auto simp: wake_next_def dest: wake_first_queued)
  then show "wt_queued (bk_waiter (prune E b) j) \<Longrightarrow> ?thesis"
    using prune_dead_queued [of E "bk_waiters b" b j] unfolding prune_def split_beta Let_def by blast
qed

lemma settle_op_queued: "wt_queued (bk_waiter (settle_op E p b) j) \<Longrightarrow> wt_queued (bk_waiter b j) \<and> p \<noteq> LEFT j"
  by (cases p) (auto simp: settle_op_def wake_next_def split: if_splits dest: wake_first_queued drop_waiter_queued)

lemma settle_ops_queued: "wt_queued (bk_waiter (fold (settle_op E) ps c) j) \<Longrightarrow> wt_queued (bk_waiter c j) \<and> LEFT j \<notin> set ps"
proof (induction ps arbitrary: c)
  case (Cons p ps)
  then have "wt_queued (bk_waiter (settle_op E p c) j) \<and> LEFT j \<notin> set ps" by simp
  then show ?case using settle_op_queued [of E p c j] by auto
qed simp

lemma settle_queued:
  assumes "wt_queued (bk_waiter (settle E b) j)"
  shows "wt_queued (bk_waiter b j) \<and> LEFT j \<notin> set (bk_pending b)"
proof -
  let ?c = "fold (settle_op E) (bk_pending b) (b\<lparr>bk_pending := []\<rparr>)"
  have "settle E b = (if bk_waiters ?c \<noteq> [] then prune E ?c else ?c)" by (simp only: settle_def Let_def)
  then have "settle E b = prune E ?c \<or> settle E b = ?c" by presburger
  then have "wt_queued (bk_waiter ?c j)" using assms prune_queued [of E ?c j] by (elim disjE) simp_all
  from settle_ops_queued [OF this] show ?thesis by simp
qed

section \<open>Under the lock, what holds is kept\<close>

lemma covers_nonpos: "n \<le> 0 \<Longrightarrow> covers n b = well_queued b"
  by (auto simp: covers_def)

lemma bk_ok_well_queued: "bk_ok n b \<Longrightarrow> well_queued b"
  by (simp add: bk_ok_def covers_def)

lemma take_seat_ok:
  assumes "bk_ok n b" and "bk_pending b = []"
  shows "if bk_taken b < bk_max_concurrent b then take_seat b = (True, b\<lparr>bk_taken := bk_taken b + 1\<rparr>) \<and> bk_ok (n + 1) (b\<lparr>bk_taken := bk_taken b + 1\<rparr>)
     else take_seat b = (False, b) \<and> bk_taken b = bk_max_concurrent b"
  using assms covers_le [of "bk_max_concurrent b - bk_taken b" b "bk_max_concurrent b - (bk_taken b + 1)"]
  by (auto simp: take_seat_def bk_ok_def returned_def)

text \<open>With no seat free, any change of the queue that keeps the flags right will do.\<close>

lemma full_ok:
  assumes "bk_ok n b" and "bk_taken b = bk_max_concurrent b" and "rest_of_state c = rest_of_state b" and "well_queued c"
  shows "bk_ok n c"
  using assms by (auto simp: bk_ok_def rest_of_state_def covers_nonpos)

lemma enqueue_well_queued: "well_queued b \<Longrightarrow> \<not> wt_queued (bk_waiter b i) \<Longrightarrow> well_queued (enqueue i b)"
  by (auto simp: well_queued_def enqueue_def)

lemma put_waiter_well_queued: "well_queued b \<Longrightarrow> \<not> wt_queued (bk_waiter b i) \<Longrightarrow> \<not> wt_queued w \<Longrightarrow> well_queued (put_waiter i w b)"
  by (auto simp: well_queued_def)

lemma requeue_well_queued: "well_queued b \<Longrightarrow> well_queued (requeue r i b)"
proof -
  assume "well_queued b"
  then have "well_queued (unqueue i b)" using unqueue_covers [of 0 b i] by (auto simp: covers_nonpos split: if_splits)
  then have "well_queued (enqueue i (pass_on i (unqueue i b)))"
    by (intro enqueue_well_queued) (simp_all add: pass_on_def)
  then show ?thesis using \<open>well_queued b\<close> by (simp add: requeue_def Let_def)
qed

text \<open>What a caller's turn under the lock leaves: the seats and wakes right, nothing pending, and at most that caller newly queued.\<close>

definition turn_ok :: "int \<Rightarrow> nat \<Rightarrow> admission \<Rightarrow> bulkhead \<Rightarrow> bulkhead \<Rightarrow> bool" where
  "turn_ok n a v b c \<longleftrightarrow> bk_ok (if v = SEATED then n + 1 else n) c \<and> bk_pending c = [] \<and> bk_max_concurrent c = bk_max_concurrent b
     \<and> (\<forall>j. wt_queued (bk_waiter c j) \<longrightarrow> (if j = a then v = QUEUED else wt_queued (bk_waiter b j) \<and> LEFT j \<notin> set (bk_pending b)))"

lemma rest_pending: "rest_of_state c = rest_of_state b \<Longrightarrow> bk_pending c = bk_pending b \<and> bk_max_concurrent c = bk_max_concurrent b"
  by (simp add: rest_of_state_def)

lemma attempt_ok:
  assumes "bk_ok n b" and "wt_queued (bk_waiter b a) \<Longrightarrow> LEFT a \<in> set (bk_pending b)" and "attempt E a on_loop timeout b = (v, c)"
  shows "turn_ok n a v b c"
proof -
  let ?s = "settle E b"
  note s = settle_ok [OF assms(1), of E]
  have q: "\<not> wt_queued (bk_waiter ?s a)" using settle_queued [of E b a] assms(2) by blast
  have qs: "wt_queued (bk_waiter ?s j) \<Longrightarrow> wt_queued (bk_waiter b j) \<and> LEFT j \<notin> set (bk_pending b)" for j by (rule settle_queued)
  show ?thesis
  proof (cases "bk_taken ?s < bk_max_concurrent ?s")
    case True
    then show ?thesis using take_seat_ok [OF s(1,2)] assms(3) s q qs by (auto simp: attempt_def turn_ok_def)
  next
    case False
    then have t: "take_seat ?s = (False, ?s)" and full: "bk_taken ?s = bk_max_concurrent ?s" using take_seat_ok [OF s(1,2)] by auto
    show ?thesis
    proof (cases "v = QUEUED")
      case True
      then obtain d where c: "c = enqueue a (put_waiter a (new_waiter on_loop d) ?s)"
        using assms(3) t by (auto simp: attempt_def split: option.splits if_splits)
      have "well_queued (put_waiter a (new_waiter on_loop d) ?s)"
        by (rule put_waiter_well_queued [OF bk_ok_well_queued [OF s(1)] q]) (simp add: new_waiter_def)
      then have "well_queued c" unfolding c by (rule enqueue_well_queued) (simp add: new_waiter_def)
      moreover have r: "rest_of_state c = rest_of_state ?s" by (simp add: c)
      ultimately have "bk_ok n c" using full_ok [OF s(1) full] by blast
      then show ?thesis using True qs rest_pending [OF r] s by (auto simp: turn_ok_def c enqueue_def)
    next
      case False
      then have v: "v = REJECTED" and c: "c = count_rejection E ?s"
        using assms(3) t by (auto simp: attempt_def split: option.splits if_splits)
      have "bk_ok n c" unfolding c by (rule bk_ok_rest [OF s(1)]) simp_all
      then show ?thesis using v q qs rest_pending [of c ?s] s by (auto simp: turn_ok_def c count_rejection_def)
    qed
  qed
qed

lemma seat_and_leave_ok:
  assumes "bk_ok n b" and "bk_pending b = []" and "bk_taken b < bk_max_concurrent b"
  shows "bk_ok (n + 1) (unqueue a (b\<lparr>bk_taken := bk_taken b + 1\<rparr>))"
proof -
  let ?b = "b\<lparr>bk_taken := bk_taken b + 1\<rparr>"
  have "covers (bk_max_concurrent b - bk_taken b) ?b" using assms(1) unfolding covers_frames bk_ok_def by blast
  then have "covers (bk_max_concurrent b - (bk_taken b + 1)) (unqueue a ?b)"
    by (intro covers_le [OF unqueue_covers]) auto
  moreover have "rest_of_state (unqueue a ?b) = rest_of_state ?b" by simp
  ultimately show ?thesis using assms by (simp add: bk_ok_def rest_of_state_def returned_def)
qed

lemma wait_turn_ok:
  assumes "bk_ok n b" and "wait_turn E later resolved a b = (v, c)"
  shows "turn_ok n a v b c"
proof -
  let ?s = "settle E b"
  note s = settle_ok [OF assms(1), of E]
  have qs: "wt_queued (bk_waiter ?s j) \<Longrightarrow> wt_queued (bk_waiter b j) \<and> LEFT j \<notin> set (bk_pending b)" for j by (rule settle_queued)
  show ?thesis
  proof (cases "bk_taken ?s < bk_max_concurrent ?s")
    case True
    then have c: "v = SEATED" "c = unqueue a (?s\<lparr>bk_taken := bk_taken ?s + 1\<rparr>)"
      using take_seat_ok [OF s(1,2)] assms(2) by (auto simp: wait_turn_def)
    then show ?thesis using seat_and_leave_ok [OF s(1,2) True, of a] s qs rest_pending [of c "?s\<lparr>bk_taken := bk_taken ?s + 1\<rparr>"]
      by (auto simp: turn_ok_def unqueue_queued)
  next
    case False
    then have t: "take_seat ?s = (False, ?s)" and full: "bk_taken ?s = bk_max_concurrent ?s" using take_seat_ok [OF s(1,2)] by auto
    show ?thesis
    proof (cases "later < wt_deadline (bk_waiter ?s a)")
      case True
      then have c: "v = QUEUED" "c = requeue resolved a ?s" using assms(2) t by (auto simp: wait_turn_def)
      have r: "rest_of_state c = rest_of_state ?s" by (simp add: c)
      have "bk_ok n c" using full_ok [OF s(1) full r] requeue_well_queued [OF bk_ok_well_queued [OF s(1)]] c by blast
      then show ?thesis using c(1) qs rest_pending [OF r] s
        by (auto simp: turn_ok_def c requeue_def Let_def enqueue_def unqueue_queued split: if_splits)
    next
      case False
      then have c: "v = REJECTED" "c = count_rejection E (drop_waiter E a ?s)" using assms(2) t by (auto simp: wait_turn_def)
      have r: "rest_of_state c = rest_of_state ?s" by (simp add: c)
      have "bk_ok n c" by (rule bk_ok_rest [OF s(1) r]) (simp add: c drop_waiter_covers)
      then show ?thesis using c(1) qs rest_pending [OF r] s
        by (auto simp: turn_ok_def c count_rejection_def dest: drop_waiter_queued)
    qed
  qed
qed

section \<open>The protocol keeps it\<close>

fun holds_lock :: "bk_phase \<Rightarrow> bool" where
  "holds_lock (Holding _) = True"
| "holds_lock (Applying _) = True"
| "holds_lock _ = False"

fun may_be_queued :: "bk_phase \<Rightarrow> bool" where
  "may_be_queued Resting = False"
| "may_be_queued Waiting = True"
| "may_be_queued (Holding waits) = waits"
| "may_be_queued (Checking waits) = waits"
| "may_be_queued (Applying waits) = waits"

definition settled_phase :: "bk_phase \<Rightarrow> bool" where
  "settled_phase ph \<longleftrightarrow> ph = Resting \<or> ph = Waiting"

definition queue_owned :: "(nat \<Rightarrow> bk_phase) \<Rightarrow> bulkhead \<Rightarrow> bool" where
  "queue_owned ph b \<longleftrightarrow> (\<forall>a. wt_queued (bk_waiter b a) \<longrightarrow> may_be_queued (ph a) \<or> LEFT a \<in> set (bk_pending b))"

text \<open>The lock is held by the caller whose phase says so, and whoever left an operation behind left somebody to apply it.\<close>

definition sys_ok :: "int \<Rightarrow> bk_system \<Rightarrow> bool" where
  "sys_ok mx S \<longleftrightarrow> bk_ok (bs_seats S) (bs_bulkhead S) \<and> bk_max_concurrent (bs_bulkhead S) = mx
     \<and> (\<forall>a. bs_lock S = Some a \<longleftrightarrow> holds_lock (bs_phase S a))
     \<and> (bk_pending (bs_bulkhead S) \<noteq> [] \<longrightarrow> (\<exists>a. \<not> settled_phase (bs_phase S a)))
     \<and> queue_owned (bs_phase S) (bs_bulkhead S)"

lemma afterwards_phase [simp]: "holds_lock (afterwards w) = False" "settled_phase (afterwards w)" "may_be_queued (afterwards w) = w"
  by (auto simp: afterwards_def settled_phase_def)

lemma queue_owned_settle:
  assumes "queue_owned ph b" and "may_be_queued (ph a) \<Longrightarrow> may_be_queued x"
  shows "queue_owned (ph(a := x)) (settle E b)"
  unfolding queue_owned_def
proof (intro allI impI)
  fix j
  assume "wt_queued (bk_waiter (settle E b) j)"
  then have "may_be_queued (ph j)" using settle_queued [of E b j] assms(1) by (auto simp: queue_owned_def)
  then show "may_be_queued ((ph(a := x)) j) \<or> LEFT j \<in> set (bk_pending (settle E b))" using assms(2) by auto
qed

lemma queue_owned_turn:
  assumes "queue_owned ph b" and "turn_ok n a v b c"
  shows "queue_owned (ph(a := Holding (v = QUEUED))) c"
  using assms by (auto simp: queue_owned_def turn_ok_def split: if_splits)

text \<open>A settling step: the lock goes from one state to another with its holder, and nothing is pending afterwards.\<close>

lemma sys_ok_settle:
  assumes "sys_ok mx S" and "may_be_queued (bs_phase S a) \<Longrightarrow> may_be_queued x"
    and "\<And>j. (lock = Some j) = holds_lock (((bs_phase S)(a := x)) j)"
  shows "sys_ok mx (move a x lock (settle E (bs_bulkhead S)) S)"
proof -
  have b: "bk_ok (bs_seats S) (bs_bulkhead S)" "bk_max_concurrent (bs_bulkhead S) = mx" "queue_owned (bs_phase S) (bs_bulkhead S)"
    using assms(1) by (simp_all add: sys_ok_def)
  show ?thesis using settle_ok [OF b(1), of E] b(2) queue_owned_settle [OF b(3), where E = E, OF assms(2)] assms(3) by (simp add: sys_ok_def move_def)
qed

lemma sys_ok_turn:
  assumes "sys_ok mx S" and "turn_ok (bs_seats S) a v (bs_bulkhead S) c" and "bs_lock S = None"
  shows "sys_ok mx (seated v (move a (Holding (v = QUEUED)) (Some a) c S))"
proof -
  have q: "queue_owned ((bs_phase S)(a := Holding (v = QUEUED))) c" using assms(1) by (intro queue_owned_turn [OF _ assms(2)]) (simp add: sys_ok_def)
  have "\<not> holds_lock (bs_phase S j)" for j using assms(1,3) by (auto simp: sys_ok_def)
  then show ?thesis using assms q by (auto simp: sys_ok_def turn_ok_def seated_def move_def)
qed

lemma lock_moves:
  assumes "sys_ok mx S"
  shows "bs_lock S = None \<Longrightarrow> holds_lock x \<Longrightarrow> (Some a = Some j) = holds_lock (((bs_phase S)(a := x)) j)"
    and "holds_lock (bs_phase S a) \<Longrightarrow> \<not> holds_lock x \<Longrightarrow> (None = Some j) = holds_lock (((bs_phase S)(a := x)) j)"
    and "\<not> holds_lock (bs_phase S a) \<Longrightarrow> \<not> holds_lock x \<Longrightarrow> (bs_lock S = Some j) = holds_lock (((bs_phase S)(a := x)) j)"
proof -
  have l: "(bs_lock S = Some i) = holds_lock (bs_phase S i)" for i using assms by (simp add: sys_ok_def)
  show "bs_lock S = None \<Longrightarrow> holds_lock x \<Longrightarrow> (Some a = Some j) = holds_lock (((bs_phase S)(a := x)) j)" using l [of j] by auto
  show "holds_lock (bs_phase S a) \<Longrightarrow> \<not> holds_lock x \<Longrightarrow> (None = Some j) = holds_lock (((bs_phase S)(a := x)) j)" using l [of j] l [of a] by auto
  show "\<not> holds_lock (bs_phase S a) \<Longrightarrow> \<not> holds_lock x \<Longrightarrow> (bs_lock S = Some j) = holds_lock (((bs_phase S)(a := x)) j)" using l [of j] l [of a] by auto
qed

lemma queue_owned_phase: "queue_owned ph b \<Longrightarrow> (may_be_queued (ph a) \<Longrightarrow> may_be_queued x) \<Longrightarrow> queue_owned (ph(a := x)) b"
  by (auto simp: queue_owned_def)

lemma bk_ok_op:
  assumes "bk_ok n b" and "p = SEAT_RETURNED \<Longrightarrow> 0 < n"
  shows "bk_ok (if p = SEAT_RETURNED then n - 1 else n) (queue_op p b)"
proof -
  have "covers (bk_max_concurrent b - bk_taken b) (queue_op p b)" using assms(1) by (auto simp: bk_ok_def queue_op_def)
  moreover have "returned (bk_pending (queue_op p b)) = returned (bk_pending b) + (if p = SEAT_RETURNED then 1 else 0)"
    by (simp add: returned_def queue_op_def)
  ultimately show ?thesis using assms by (simp add: bk_ok_def queue_op_def)
qed

lemma queue_owned_op:
  "queue_owned ph b \<Longrightarrow> (may_be_queued (ph a) \<Longrightarrow> p = LEFT a) \<Longrightarrow> queue_owned (ph(a := x)) (queue_op p b)"
  by (auto simp: queue_owned_def queue_op_def)

text \<open>A caller that only looks, unlocks or goes away, with somebody left for what is pending.\<close>

lemma sys_ok_phase:
  assumes "sys_ok mx S" and "may_be_queued (bs_phase S a) \<Longrightarrow> may_be_queued x" and "\<And>j. (lock = Some j) = holds_lock (((bs_phase S)(a := x)) j)"
    and "bk_pending (bs_bulkhead S) \<noteq> [] \<Longrightarrow> \<exists>j. \<not> settled_phase (((bs_phase S)(a := x)) j)"
  shows "sys_ok mx (move a x lock (bs_bulkhead S) S)"
  using assms(1,3,4) queue_owned_phase [OF _ assms(2)] unfolding sys_ok_def move_def by simp

text \<open>A caller that queues an operation stays to see it applied.\<close>

lemma sys_ok_op:
  assumes "sys_ok mx S" and "may_be_queued (bs_phase S a) \<Longrightarrow> p = LEFT a" and "\<not> holds_lock (bs_phase S a)" and "bk_ok n (queue_op p (bs_bulkhead S))"
  shows "sys_ok mx ((move a (Checking False) (bs_lock S) (queue_op p (bs_bulkhead S)) S)\<lparr>bs_seats := n\<rparr>)"
proof -
  have "queue_owned ((bs_phase S)(a := Checking False)) (queue_op p (bs_bulkhead S))"
    using assms(1) by (intro queue_owned_op [OF _ assms(2)]) (simp_all add: sys_ok_def)
  moreover have "\<exists>j. \<not> settled_phase (((bs_phase S)(a := Checking False)) j)" by (rule exI [of _ a]) (simp add: settled_phase_def)
  moreover have "bk_max_concurrent (queue_op p (bs_bulkhead S)) = mx" using assms(1) by (simp add: sys_ok_def queue_op_def)
  ultimately show ?thesis using assms(4) lock_moves(3) [OF assms(1,3), of "Checking False"] unfolding sys_ok_def move_def by simp
qed

lemma sys_ok_attempt:
  assumes "sys_ok mx S" and "bs_phase S a = Resting" and "bs_lock S = None" and "attempt E a on_loop timeout (bs_bulkhead S) = (v, b)"
  shows "sys_ok mx (seated v (move a (Holding (v = QUEUED)) (Some a) b S))"
proof -
  have b: "bk_ok (bs_seats S) (bs_bulkhead S)" using assms(1) by (simp add: sys_ok_def)
  have "wt_queued (bk_waiter (bs_bulkhead S) a) \<Longrightarrow> LEFT a \<in> set (bk_pending (bs_bulkhead S))"
    using assms(1,2) unfolding sys_ok_def queue_owned_def by (metis may_be_queued.simps(1))
  from sys_ok_turn [OF assms(1) attempt_ok [OF b this assms(4)] assms(3)] show ?thesis .
qed

lemma sys_ok_step:
  assumes "sys_ok mx S" and "bk_step S T"
  shows "sys_ok mx T"
proof -
  have b: "bk_ok (bs_seats S) (bs_bulkhead S)" using assms(1) by (simp add: sys_ok_def)
  show ?thesis
    using assms(2)
  proof (cases rule: bk_step.cases)
    case (Try a E running_loop timeout v b)
    show ?thesis unfolding Try(1) by (rule sys_ok_attempt [OF assms(1) Try(2,3) Try(4) [unfolded try_acquire_def]])
  next
    case (Try_Async a E timeout v b)
    show ?thesis unfolding Try_Async(1) by (rule sys_ok_attempt [OF assms(1) Try_Async(2,3) Try_Async(4) [unfolded try_acquire_async_def]])
  next
    case (Turn a E later v b)
    from sys_ok_turn [OF assms(1) wait_turn_ok [OF b Turn(5) [unfolded wait_as_thread_def]] Turn(3)] show ?thesis unfolding Turn(1) .
  next
    case (Turn_Async a E later resolved v b)
    from sys_ok_turn [OF assms(1) wait_turn_ok [OF b Turn_Async(5) [unfolded wait_as_coroutine_def]] Turn_Async(3)] show ?thesis unfolding Turn_Async(1) .
  next
    case (Look a E)
    have s: "snd (bk_get_state E (bs_bulkhead S)) = settle E (bs_bulkhead S)" by (simp add: bk_get_state_def Let_def)
    show ?thesis unfolding Look(1) s using Look(2) lock_moves(1) [OF assms(1) Look(3)] by (intro sys_ok_settle [OF assms(1)]) simp_all
  next
    case (Exit a waits E)
    then have "holds_lock (bs_phase S a)" by simp
    from lock_moves(2) [OF assms(1) this] Exit(2) show ?thesis unfolding Exit(1) by (intro sys_ok_settle [OF assms(1)]) simp_all
  next
    case (Apply a waits E)
    then show ?thesis unfolding Apply(1) using lock_moves(1) [OF assms(1) Apply(4)] by (intro sys_ok_settle [OF assms(1)]) simp_all
  next
    case (Done a waits)
    then have "\<not> holds_lock (bs_phase S a)" by simp
    from lock_moves(3) [OF assms(1) this] Done show ?thesis unfolding Done(1) by (intro sys_ok_phase [OF assms(1)]) simp_all
  next
    case (Busy a waits)
    then obtain h where "bs_lock S = Some h" by blast
    then have h: "holds_lock (bs_phase S h)" using assms(1) unfolding sys_ok_def by blast
    then have "\<not> settled_phase (((bs_phase S)(a := afterwards waits)) h)" using Busy(2) by (auto simp: settled_phase_def)
    then have "\<exists>j. \<not> settled_phase (((bs_phase S)(a := afterwards waits)) j)" by blast
    moreover have "\<not> holds_lock (bs_phase S a)" using Busy(2) by simp
    ultimately show ?thesis unfolding Busy(1) using Busy(2) lock_moves(3) [OF assms(1)] by (intro sys_ok_phase [OF assms(1)]) simp_all
  next
    case (Unlock a waits)
    then have "holds_lock (bs_phase S a)" by simp
    moreover have "\<exists>j. \<not> settled_phase (((bs_phase S)(a := Checking waits)) j)" by (rule exI [of _ a]) (simp add: settled_phase_def)
    ultimately show ?thesis unfolding Unlock(1) using Unlock(2) lock_moves(2) [OF assms(1)] by (intro sys_ok_phase [OF assms(1)]) simp_all
  next
    case (Release a)
    have "bk_ok (bs_seats S - 1) (queue_op SEAT_RETURNED (bs_bulkhead S))"
      using assms(1) Release(3) bk_ok_op [of "bs_seats S" "bs_bulkhead S" SEAT_RETURNED] by (simp add: sys_ok_def)
    from sys_ok_op [OF assms(1) _ _ this, of a] Release(2) show ?thesis unfolding Release(1) by simp
  next
    case (Abandon a)
    have "bk_ok (bs_seats S) (queue_op (LEFT a) (bs_bulkhead S))"
      using assms(1) bk_ok_op [of "bs_seats S" "bs_bulkhead S" "LEFT a"] by (simp add: sys_ok_def)
    from sys_ok_op [OF assms(1) _ _ this] Abandon(2) show ?thesis unfolding Abandon(1) by (simp add: move_def)
  qed
qed

lemma sys_ok_new: "0 \<le> mx \<Longrightarrow> sys_ok mx (new_system n mx)"
  by (simp add: sys_ok_def new_system_def new_bulkhead_def bk_ok_def returned_def covers_def well_queued_def woken_count_def queue_owned_def no_waiter_def)

lemma sys_ok_reachable: "bk_reachable (new_system n mx) S \<Longrightarrow> 0 \<le> mx \<Longrightarrow> sys_ok mx S"
  by (induction rule: bk_reachable.induct) (auto intro: sys_ok_new sys_ok_step)

section \<open>What the compartment promises\<close>

text \<open>(C11) However threads and coroutines interleave their attempts, turns, releases and departures, the callers that hold a seat are never more
  than \<open>max_concurrent\<close>.\<close>

theorem seats_never_exceed_capacity:
  assumes "0 \<le> mx" and "bk_reachable (new_system n mx) S"
  shows "0 \<le> bs_seats S \<and> bs_seats S \<le> mx"
proof -
  have "bk_ok (bs_seats S) (bs_bulkhead S)" "bk_max_concurrent (bs_bulkhead S) = mx" using sys_ok_reachable [OF assms(2,1)] by (simp_all add: sys_ok_def)
  moreover have "0 \<le> returned (bk_pending (bs_bulkhead S))" by (simp add: returned_def)
  ultimately show ?thesis by (simp add: bk_ok_def)
qed


text \<open>A run: caller 0 takes the only seat, caller 2 queues up for a second, caller 0 gives the seat back.\<close>

definition quiet_env :: bk_env where
  "quiet_env = \<lparr>be_now = 0, be_wall = 0, be_loop = (\<lambda>_. LOOP_RUNNING)\<rparr>"

definition queue_example :: "int \<Rightarrow> bool \<Rightarrow> pending_op list \<Rightarrow> bulkhead" where
  "queue_example taken woken ps = (new_bulkhead ''db'' 1)\<lparr>bk_taken := taken, bk_waiters := [2],
     bk_waiter := (\<lambda>_. no_waiter)(2 := (new_waiter False 1)\<lparr>wt_queued := True, wt_woken := woken\<rparr>), bk_pending := ps\<rparr>"

lemmas example_simps = quiet_env_def queue_example_def new_bulkhead_def no_waiter_def new_waiter_def settle_def settle_op_def take_seat_def
  prune_def wake_next_def is_dead_def loop_of_def wake_def enqueue_def unqueue_def

lemma example_steps:
  "try_acquire quiet_env 0 False None (new_bulkhead ''db'' 1) = (SEATED, (new_bulkhead ''db'' 1)\<lparr>bk_taken := 1\<rparr>)"
  "settle quiet_env ((new_bulkhead ''db'' 1)\<lparr>bk_taken := 1\<rparr>) = (new_bulkhead ''db'' 1)\<lparr>bk_taken := 1\<rparr>"
  "try_acquire quiet_env 2 False (Some 1) ((new_bulkhead ''db'' 1)\<lparr>bk_taken := 1\<rparr>) = (QUEUED, queue_example 1 False [])"
  "settle quiet_env (queue_example 1 False []) = queue_example 1 False []"
  "queue_op SEAT_RETURNED (queue_example 1 False []) = queue_example 1 False [SEAT_RETURNED]"
  "settle quiet_env (queue_example 1 False [SEAT_RETURNED]) = queue_example 0 True []"
  using fl_of_int [of 1] by (simp_all add: try_acquire_def attempt_def example_simps queue_op_def)

lemma queue_example_frames [simp]: "bk_pending (queue_example t w ps) = ps" "bk_waiters (queue_example t w ps) = [2]" "bk_taken (queue_example t w ps) = t"
  by (simp_all add: queue_example_def)

definition two_callers :: "bulkhead \<Rightarrow> bk_phase \<Rightarrow> bk_phase \<Rightarrow> nat option \<Rightarrow> int \<Rightarrow> bk_system" where
  "two_callers b ph0 ph1 lock k =
     \<lparr>bs_bulkhead = b, bs_phase = (\<lambda>a. if a = 0 then ph0 else if a = 2 then ph1 else Resting), bs_lock = lock, bs_seats = k\<rparr>"

lemma two_callers_simps:
  "move 0 x l b (two_callers c p q k n) = two_callers b x q l n" "move 2 x l b (two_callers c p q k n) = two_callers b p x l n"
  "(two_callers c p q k n)\<lparr>bs_seats := m\<rparr> = two_callers c p q k m" "bs_bulkhead (two_callers c p q k n) = c" "bs_lock (two_callers c p q k n) = k"
  "bs_seats (two_callers c p q k n) = n" "bs_phase (two_callers c p q k n) 0 = p" "bs_phase (two_callers c p q k n) 2 = q"
  "new_system nm mx = two_callers (new_bulkhead nm mx) Resting Resting None 0"
  by (auto simp: two_callers_def move_def new_system_def fun_eq_iff)

lemma queue_run: "bk_reachable (new_system ''db'' 1) (two_callers (queue_example 0 True []) Resting Waiting None 0)"
proof -
  let ?one = "(new_bulkhead ''db'' 1)\<lparr>bk_taken := 1\<rparr>" and ?q = "queue_example 1 False []"
  let ?r = "bk_reachable (new_system ''db'' 1)"
  have "?r (two_callers (new_bulkhead ''db'' 1) Resting Resting None 0)" using Start [of "new_system ''db'' 1"] by (simp add: two_callers_simps)
  from Next [OF this Try [of _ 0 quiet_env False None SEATED ?one]]
  have "?r (two_callers ?one (Holding False) Resting (Some 0) 1)" by (simp add: two_callers_simps example_steps seated_def)
  from Next [OF this Exit [of _ 0 False quiet_env]]
  have "?r (two_callers ?one (Checking False) Resting None 1)" by (simp add: two_callers_simps example_steps)
  from Next [OF this Done [of _ 0 False]]
  have "?r (two_callers ?one Resting Resting None 1)" by (simp add: two_callers_simps afterwards_def new_bulkhead_def)
  from Next [OF this Try [of _ 2 quiet_env False "Some 1" QUEUED ?q]]
  have "?r (two_callers ?q Resting (Holding True) (Some 2) 1)" using example_steps(3) by (simp add: two_callers_simps seated_def)
  from Next [OF this Exit [of _ 2 True quiet_env]]
  have "?r (two_callers ?q Resting (Checking True) None 1)" by (simp add: two_callers_simps example_steps)
  from Next [OF this Done [of _ 2 True]]
  have "?r (two_callers ?q Resting Waiting None 1)" by (simp add: two_callers_simps afterwards_def)
  from Next [OF this Release [of _ 0]]
  have "?r (two_callers (queue_example 1 False [SEAT_RETURNED]) (Checking False) Waiting None 0)" by (simp add: two_callers_simps example_steps)
  from Next [OF this Apply [of _ 0 False quiet_env]]
  have "?r (two_callers (queue_example 0 True []) (Applying False) Waiting (Some 0) 0)" by (simp add: two_callers_simps example_steps)
  from Next [OF this Unlock [of _ 0 False]]
  have "?r (two_callers (queue_example 0 True []) (Checking False) Waiting None 0)" by (simp add: two_callers_simps)
  from Next [OF this Done [of _ 0 False]] show ?thesis by (simp add: two_callers_simps afterwards_def)
qed

theorem seats_never_exceed_capacity_witness:
  "bs_seats (two_callers (queue_example 0 True []) Resting Waiting None 0) \<le> 1"
  using seats_never_exceed_capacity [OF _ queue_run] by simp


end
