(* ===== verification/Bulkhead_Registry.thy ===== *)
theory Bulkhead_Registry
  imports Bulkhead
begin

text \<open>
  The registry of bulkheads (\<open>services/bulkhead/registry.py\<close>, \<open>settings/bulkhead.py\<close>) and the two policy factories that provision through it
  (\<open>policy.py\<close>).  A compartment is a Python object: the registry and the async views refer to it by its place in a heap, so that the model
  can say when two of them take seats on the same count.
\<close>

section \<open>Settings\<close>

record bulkhead_settings =
  database_max_concurrent :: int
  cache_max_concurrent :: int
  external_api_max_workers :: int
  external_api_queue_size :: int
  message_queue_max_concurrent :: int
  default_max_concurrent :: int
  database_aliases :: "(string, int) dict"
  cache_instances :: "(string, int) dict"

definition default_bulkhead_settings :: bulkhead_settings where
  "default_bulkhead_settings = \<lparr>database_max_concurrent = 10, cache_max_concurrent = 20, external_api_max_workers = 5, external_api_queue_size = 10,
     message_queue_max_concurrent = 15, default_max_concurrent = 10,
     database_aliases = [(''default'', 10), (''replica'', 15)], cache_instances = [(''default'', 20), (''session'', 10)]\<rparr>"

section \<open>Registry\<close>

definition BUILTIN_BULKHEAD_NAMES :: "string list" where
  "BUILTIN_BULKHEAD_NAMES = [''database'', ''cache'', ''external_api'', ''message_queue'']"

datatype registry_error = BULKHEAD_NOT_FOUND string "string list" | BUILTIN_PROTECTED string

record bulkhead_registry =
  rg_settings :: bulkhead_settings
  rg_bulkheads :: "(string, nat) dict"
  rg_async_bulkheads :: "(string, nat) dict"
  rg_heap :: "bulkhead list"

text \<open>The construction of an object: its identity and the heap with it.\<close>

definition allocate :: "bulkhead \<Rightarrow> bulkhead_registry \<Rightarrow> nat \<times> bulkhead_registry" where
  "allocate b r = (length (rg_heap r), r\<lparr>rg_heap := rg_heap r @ [b]\<rparr>)"

definition build_thread_pool_bulkhead :: "string \<Rightarrow> int \<Rightarrow> int option \<Rightarrow> bulkhead" where
  "build_thread_pool_bulkhead n max_workers queue_size = new_bulkhead n max_workers"

definition build_builtin_bulkheads :: "bulkhead_settings \<Rightarrow> (string \<times> bulkhead) list" where
  "build_builtin_bulkheads st =
     [(''database'', new_bulkhead ''database'' (database_max_concurrent st)),
      (''cache'', new_bulkhead ''cache'' (cache_max_concurrent st)),
      (''external_api'', build_thread_pool_bulkhead ''external_api'' (external_api_max_workers st) (Some (external_api_queue_size st))),
      (''message_queue'', new_bulkhead ''message_queue'' (message_queue_max_concurrent st))]"

definition put_compartment :: "string \<Rightarrow> bulkhead \<Rightarrow> bulkhead_registry \<Rightarrow> bulkhead_registry" where
  "put_compartment k b r = (let (i, r1) = allocate b r in r1\<lparr>rg_bulkheads := dict_set k i (rg_bulkheads r1)\<rparr>)"

definition register_default_bulkheads :: "bulkhead_registry \<Rightarrow> bulkhead_registry" where
  "register_default_bulkheads r = fold (\<lambda>(k, b). put_compartment k b) (build_builtin_bulkheads (rg_settings r)) r"

definition new_registry :: "bulkhead_settings \<Rightarrow> bulkhead_registry" where
  "new_registry st = register_default_bulkheads \<lparr>rg_settings = st, rg_bulkheads = [], rg_async_bulkheads = [], rg_heap = []\<rparr>"

definition list_names :: "bulkhead_registry \<Rightarrow> string list" where
  "list_names r = map fst (rg_bulkheads r)"

definition reg_get :: "string \<Rightarrow> bulkhead_registry \<Rightarrow> registry_error + nat" where
  "reg_get k r = (case dict_get (rg_bulkheads r) k of None \<Rightarrow> Inl (BULKHEAD_NOT_FOUND k (list_names r)) | Some i \<Rightarrow> Inr i)"

text \<open>\<open>max_concurrent or default\<close>: a zero counts as not given.\<close>

definition get_or_create :: "string \<Rightarrow> int option \<Rightarrow> string \<Rightarrow> bulkhead_registry \<Rightarrow> nat \<times> bulkhead_registry" where
  "get_or_create k max_concurrent bulkhead_type r =
     (case dict_get (rg_bulkheads r) k of
        Some i \<Rightarrow> (i, r)
      | None \<Rightarrow>
          let concurrent = (case max_concurrent of None \<Rightarrow> default_max_concurrent (rg_settings r)
                            | Some n \<Rightarrow> if n = 0 then default_max_concurrent (rg_settings r) else n);
              b = (if bulkhead_type = ''thread_pool'' then build_thread_pool_bulkhead k concurrent None else new_bulkhead k concurrent)
          in (length (rg_heap r), put_compartment k b r))"

definition get_async :: "string \<Rightarrow> bulkhead_registry \<Rightarrow> (registry_error + nat) \<times> bulkhead_registry" where
  "get_async k r =
     (case dict_get (rg_async_bulkheads r) k of
        Some i \<Rightarrow> (Inr i, r)
      | None \<Rightarrow> (case dict_get (rg_bulkheads r) k of
                   None \<Rightarrow> (Inl (BULKHEAD_NOT_FOUND k (list_names r)), r)
                 | Some i \<Rightarrow> (Inr i, r\<lparr>rg_async_bulkheads := dict_set k i (rg_async_bulkheads r)\<rparr>)))"

definition get_for_database :: "string \<Rightarrow> bulkhead_registry \<Rightarrow> nat \<times> bulkhead_registry" where
  "get_for_database alias r =
     get_or_create (''database:'' @ alias) (Some (dict_get_or (database_aliases (rg_settings r)) alias (database_max_concurrent (rg_settings r))))
       ''semaphore'' r"

definition get_for_cache :: "string \<Rightarrow> bulkhead_registry \<Rightarrow> nat \<times> bulkhead_registry" where
  "get_for_cache n r =
     get_or_create (''cache:'' @ n) (Some (dict_get_or (cache_instances (rg_settings r)) n (cache_max_concurrent (rg_settings r)))) ''semaphore'' r"

definition register :: "nat \<Rightarrow> bulkhead_registry \<Rightarrow> bulkhead_registry" where
  "register i r =
     (let n = bk_name (rg_heap r ! i)
      in r\<lparr>rg_bulkheads := dict_set n i (rg_bulkheads r), rg_async_bulkheads := dict_del n (rg_async_bulkheads r)\<rparr>)"

definition unregister :: "string \<Rightarrow> bulkhead_registry \<Rightarrow> (registry_error + bool) \<times> bulkhead_registry" where
  "unregister k r =
     (if k \<in> set BUILTIN_BULKHEAD_NAMES then (Inl (BUILTIN_PROTECTED k), r)
      else if dict_get (rg_bulkheads r) k \<noteq> None
      then (Inr True, r\<lparr>rg_bulkheads := dict_del k (rg_bulkheads r), rg_async_bulkheads := dict_del k (rg_async_bulkheads r)\<rparr>)
      else (Inr False, r))"

text \<open>The states of all compartments; reading a state settles the compartment.\<close>

fun all_states_of :: "bk_env \<Rightarrow> (string, nat) dict \<Rightarrow> bulkhead_registry \<Rightarrow> (string, bulkhead_state) dict \<times> bulkhead_registry" where
  "all_states_of E [] r = ([], r)"
| "all_states_of E ((k, i) # d) r =
     (let (s, b) = bk_get_state E (rg_heap r ! i); (rest, r1) = all_states_of E d (r\<lparr>rg_heap := (rg_heap r)[i := b]\<rparr>) in ((k, s) # rest, r1))"

definition get_all_states :: "bk_env \<Rightarrow> bulkhead_registry \<Rightarrow> (string, bulkhead_state) dict \<times> bulkhead_registry" where
  "get_all_states E r = all_states_of E (rg_bulkheads r) r"

section \<open>Policies\<close>

definition bulkhead_policy :: "string \<Rightarrow> int option \<Rightarrow> string \<Rightarrow> bulkhead_registry \<Rightarrow> nat \<times> bulkhead_registry" where
  "bulkhead_policy k max_concurrent bulkhead_type r = get_or_create k max_concurrent bulkhead_type r"

definition async_bulkhead_policy :: "string \<Rightarrow> int option \<Rightarrow> bulkhead_registry \<Rightarrow> (registry_error + nat) \<times> bulkhead_registry" where
  "async_bulkhead_policy k max_concurrent r = get_async k (snd (get_or_create k max_concurrent ''semaphore'' r))"

section \<open>Runs\<close>

text \<open>What users do with a registry.  A user registers a compartment built outside it, or one that the registry gave out before.\<close>

datatype reg_op =
    Get_Or_Create string "int option" string
  | Get_Async string
  | Get_For_Database string
  | Get_For_Cache string
  | Register_New string int
  | Register_Known nat
  | Unregister string
  | Get_All_States bk_env
  | Bulkhead_Policy string "int option" string
  | Async_Bulkhead_Policy string "int option"

fun reg_step :: "reg_op \<Rightarrow> bulkhead_registry \<Rightarrow> bulkhead_registry" where
  "reg_step (Get_Or_Create k mx ty) r = snd (get_or_create k mx ty r)"
| "reg_step (Get_Async k) r = snd (get_async k r)"
| "reg_step (Get_For_Database al) r = snd (get_for_database al r)"
| "reg_step (Get_For_Cache n) r = snd (get_for_cache n r)"
| "reg_step (Register_New n mx) r = (let (i, r1) = allocate (new_bulkhead n mx) r in register i r1)"
| "reg_step (Register_Known i) r = (if i < length (rg_heap r) then register i r else r)"
| "reg_step (Unregister k) r = snd (unregister k r)"
| "reg_step (Get_All_States E) r = snd (get_all_states E r)"
| "reg_step (Bulkhead_Policy k mx ty) r = snd (bulkhead_policy k mx ty r)"
| "reg_step (Async_Bulkhead_Policy k mx) r = snd (async_bulkhead_policy k mx r)"

definition reg_run :: "reg_op list \<Rightarrow> bulkhead_settings \<Rightarrow> bulkhead_registry" where
  "reg_run ops st = fold reg_step ops (new_registry st)"

section \<open>Invariant\<close>

text \<open>Every compartment is registered under its own name, an async view is one of the compartment registered, and the built-ins are there.\<close>

definition reg_ok :: "bulkhead_registry \<Rightarrow> bool" where
  "reg_ok r \<longleftrightarrow> dict_all (\<lambda>k i. i < length (rg_heap r) \<and> bk_name (rg_heap r ! i) = k) (rg_bulkheads r)
     \<and> dict_all (\<lambda>k i. dict_get (rg_bulkheads r) k = Some i) (rg_async_bulkheads r)
     \<and> (\<forall>k \<in> set BUILTIN_BULKHEAD_NAMES. dict_get (rg_bulkheads r) k \<noteq> None)"

lemma reg_okD:
  assumes "reg_ok r"
  shows "dict_get (rg_bulkheads r) k = Some i \<Longrightarrow> i < length (rg_heap r) \<and> bk_name (rg_heap r ! i) = k"
    and "dict_get (rg_async_bulkheads r) k = Some j \<Longrightarrow> dict_get (rg_bulkheads r) k = Some j"
    and "k \<in> set BUILTIN_BULKHEAD_NAMES \<Longrightarrow> \<exists>i. dict_get (rg_bulkheads r) k = Some i"
  using assms by (auto simp: reg_ok_def dict_all_def)

lemma put_compartment_ok:
  assumes "reg_ok r" and "dict_get (rg_bulkheads r) k = None" and "bk_name b = k"
  shows "reg_ok (put_compartment k b r)"
  using assms by (auto simp: reg_ok_def dict_all_def put_compartment_def allocate_def nth_append dict_simps intro: less_SucI)

lemma get_or_create_ok: "reg_ok r \<Longrightarrow> reg_ok (snd (get_or_create k mx ty r))"
  by (auto simp: get_or_create_def Let_def build_thread_pool_bulkhead_def new_bulkhead_def split: option.splits intro!: put_compartment_ok)

lemma get_async_ok: "reg_ok r \<Longrightarrow> reg_ok (snd (get_async k r))"
  by (auto simp: get_async_def reg_ok_def dict_all_def dict_simps split: option.splits)

lemma allocate_ok: "reg_ok r \<Longrightarrow> reg_ok (snd (allocate b r))"
  by (auto simp: allocate_def reg_ok_def dict_all_def nth_append intro: less_SucI)

lemma register_ok: "reg_ok r \<Longrightarrow> i < length (rg_heap r) \<Longrightarrow> reg_ok (register i r)"
  by (auto simp: register_def Let_def reg_ok_def dict_all_def dict_simps)

lemma unregister_ok: "reg_ok r \<Longrightarrow> reg_ok (snd (unregister k r))"
  by (auto simp: unregister_def reg_ok_def dict_all_def dict_simps)

lemma heap_update_ok:
  assumes "reg_ok r" and "bk_name b = bk_name (rg_heap r ! i)"
  shows "reg_ok (r\<lparr>rg_heap := (rg_heap r)[i := b]\<rparr>)"
proof -
  have "j < length (rg_heap r) \<Longrightarrow> bk_name ((rg_heap r)[i := b] ! j) = bk_name (rg_heap r ! j)" for j
    using assms(2) by (cases "i = j") simp_all
  then show ?thesis using assms(1) by (simp add: reg_ok_def dict_all_def)
qed

lemma all_states_of_ok: "reg_ok r \<Longrightarrow> reg_ok (snd (all_states_of E d r))"
proof (induction E d r rule: all_states_of.induct)
  case (2 E k i d r)
  have n: "bk_name (snd (bk_get_state E (rg_heap r ! i))) = bk_name (rg_heap r ! i)" by (simp add: bk_get_state_def Let_def)
  obtain s b where g: "bk_get_state E (rg_heap r ! i) = (s, b)" by (cases "bk_get_state E (rg_heap r ! i)")
  from "2.IH" [OF g [symmetric] refl] "2.prems" n g heap_update_ok [of r b i] show ?case by (simp add: split_beta)
qed simp

lemma reg_step_ok: "reg_ok r \<Longrightarrow> reg_ok (reg_step p r)"
proof (cases p)
  case (Register_New n mx)
  assume "reg_ok r"
  from allocate_ok [OF this] have "reg_ok (snd (allocate (new_bulkhead n mx) r))" .
  then show ?thesis using register_ok [of "snd (allocate (new_bulkhead n mx) r)" "length (rg_heap r)"] by (simp add: Register_New allocate_def)
qed (simp_all add: get_or_create_ok get_async_ok get_for_database_def get_for_cache_def register_ok unregister_ok get_all_states_def all_states_of_ok
    bulkhead_policy_def async_bulkhead_policy_def)

lemma new_registry_ok: "reg_ok (new_registry st)"
  by (auto simp: reg_ok_def dict_all_def new_registry_def register_default_bulkheads_def build_builtin_bulkheads_def put_compartment_def allocate_def
      build_thread_pool_bulkhead_def new_bulkhead_def BUILTIN_BULKHEAD_NAMES_def dict_simps split: if_splits)

lemma reg_run_ok: "reg_ok (reg_run ops st)"
proof -
  have "reg_ok r \<Longrightarrow> reg_ok (fold reg_step ops r)" for r by (induction ops arbitrary: r) (simp_all add: reg_step_ok)
  then show ?thesis by (simp add: reg_run_def new_registry_ok)
qed

section \<open>What the registry promises\<close>

text \<open>(C24) Whatever was created, registered, replaced, removed or read before, the lookups of threads and of coroutines agree: the same compartment,
  which bears the name asked for, or the same error, and never an error for a built-in name.\<close>

theorem one_compartment_per_name:
  "case reg_get k (reg_run ops st) of
     Inr i \<Rightarrow> fst (get_async k (reg_run ops st)) = Inr i \<and> i < length (rg_heap (reg_run ops st)) \<and> bk_name (rg_heap (reg_run ops st) ! i) = k
   | Inl e \<Rightarrow> fst (get_async k (reg_run ops st)) = Inl e \<and> k \<notin> set BUILTIN_BULKHEAD_NAMES"
proof -
  note d = reg_okD [OF reg_run_ok [of ops st]]
  show ?thesis
  proof (cases "dict_get (rg_bulkheads (reg_run ops st)) k")
    case None
    then have "dict_get (rg_async_bulkheads (reg_run ops st)) k = None" using d(2) by (metis not_None_eq)
    then show ?thesis using None d(3) [of k] by (auto simp: reg_get_def get_async_def)
  next
    case (Some i)
    then show ?thesis using d(1) [OF Some] d(2) [of k]
      by (cases "dict_get (rg_async_bulkheads (reg_run ops st)) k") (auto simp: reg_get_def get_async_def)
  qed
qed

text \<open>The two policy factories admit on one seat count, whichever comes first.\<close>

lemma get_or_create_registers: "dict_get (rg_bulkheads (snd (get_or_create k mx ty r))) k = Some (fst (get_or_create k mx ty r))"
  by (auto simp: get_or_create_def Let_def put_compartment_def allocate_def dict_simps split: option.splits)

lemma get_async_registered: "reg_ok r \<Longrightarrow> dict_get (rg_bulkheads r) k = Some i \<Longrightarrow> fst (get_async k r) = Inr i \<and> rg_bulkheads (snd (get_async k r)) = rg_bulkheads r"
  using reg_okD(2) [of r k] by (cases "dict_get (rg_async_bulkheads r) k") (auto simp: get_async_def)

theorem policies_share_seats:
  "let (i, r) = bulkhead_policy k mx ty (reg_run ops st); (a, r2) = async_bulkhead_policy k mx2 r in a = Inr i \<and> fst (bulkhead_policy k mx3 ty3 r2) = i"
proof -
  let ?p = "bulkhead_policy k mx ty (reg_run ops st)"
  have r: "dict_get (rg_bulkheads (snd ?p)) k = Some (fst ?p)" unfolding bulkhead_policy_def by (rule get_or_create_registers)
  have "reg_ok (snd ?p)" unfolding bulkhead_policy_def by (rule get_or_create_ok [OF reg_run_ok])
  from get_async_registered [OF this r] r show ?thesis
    by (simp add: split_beta Let_def async_bulkhead_policy_def) (simp add: bulkhead_policy_def get_or_create_def)
qed

end
