(* ===== verification/Spec2Isabelle.thy ===== *)
theory Spec2Isabelle
  imports CB_Evidence Time_Window CB_Config_Source Replay_Batch Recovery_Trial Bulkhead_Registry
begin

text \<open>
  A verification of the parts of baldur that decide: whether a call may go to a dependency, what becomes of
  a call that failed, and who may run it again.  All paths are below \<open>src/src/baldur/\<close>.

  \<^bold>\<open>The program.\<close>  A circuit breaker stands in front of every dependency.  A caller asks the service
  (\<open>services/circuit_breaker/service.py\<close>) for admission and reports the outcome; the service keeps a row
  per dependency in a repository (\<open>adapters/memory/circuit_breaker.py\<close>), a ring of recent outcomes
  (\<open>outcome_window.py\<close>) and a five-minute window (\<open>time_outcome_window.py\<close>), reads its thresholds from a
  configuration that can be replaced at run time (\<open>config.py\<close>), obeys operators (\<open>manual_control.py\<close>) and
  a global freeze (\<open>freeze_mode.py\<close>), and tells an event bus what it did.  A call that failed for good is
  stored in the dead letter queue (\<open>adapters/memory/failed_operation.py\<close>) under the name of its domain
  (\<open>utils/domain_validation.py\<close>) and replayed later; the idempotency gate (\<open>core/idempotency_gate.py\<close>)
  over the cache (\<open>adapters/cache/memory_adapter.py\<close>) keeps a replay from running twice.  The replay service
  (\<open>services/replay_service/service.py\<close>) runs an entry through its handler on request, in batches, and in passes
  over the parked entries of a domain whose circuit has closed; a periodic tick tries single entries whether or not a circuit closes.
  Beside the breakers, bulkheads (\<open>services/bulkhead/\<close>) bound how many calls run in a dependency at once.

  \<^bold>\<open>The theories.\<close>

  \<^item> \<open>Prelude\<close>: dicts as association lists, instants, runs of actions, and the locale \<open>single_winner\<close> of a
    transition that several threads attempt and one performs.  \<open>Py_Float\<close>: rounding to doubles.
    \<open>Py_Values\<close>: untyped values.
  \<^item> \<open>CB_Types\<close> (\<open>interfaces/repositories.py\<close>, \<open>models/emergency.py\<close>): the row \<open>cb_row\<close>, the
    states, the override predicates, \<open>evaluate_trip\<close>.
  \<^item> \<open>Outcome_Window\<close>: every method of the ring; it refines the list of the outcomes since the last change
    of state, and an append by the epoch happens only to an untouched ring.
  \<^item> \<open>Time_Window\<close>: every method of the bucketed window; no failure of the period is lost.
  \<^item> \<open>CB_Memory_Repo\<close>, \<open>CB_Repo_Contract\<close>: the operations of the in-memory repository, each one atomic
    under its lock; its invariant; one winner and one announcement for each transition; the number of trial slots; the
    default implementations of the interface compared with the in-memory ones.
  \<^item> \<open>CB_Freeze\<close>, \<open>CB_Service\<close>, \<open>CB_Manual\<close>: the service.  The record \<open>svc\<close> holds what the object holds
    (repository, window, configuration, overrides, bus, audit log), \<open>env\<close> what a call reads from outside
    (the clock, the emergency level, the kill switch).
  \<^item> \<open>CB_Run\<close>: sequences of service calls and the service's invariant.  \<open>CB_Properties\<close>, \<open>CB_Lifecycle\<close>,
    \<open>CB_Fastpath\<close>, \<open>CB_Evidence\<close>: what such sequences guarantee: a burst of failures cuts off, successful
    trials bring back, an operator's block holds and lifts, a freeze holds, the bus tells every
    change, the read-free path of a success agrees with the full one, the reported evidence is bounded.
  \<^item> \<open>CB_Config_Source\<close> (\<open>config.py\<close>, \<open>settings/circuit_breaker.py\<close>): the admission of stored values
    and the holder of the configuration in force.
  \<^item> \<open>Dlq_Repo\<close>, \<open>Dlq_Invariant\<close>, \<open>Dlq_Selection\<close>: the dead letter queue; its indexes mirror the
    storage; one holder for each entry, the replay budget, pages, eviction, compression, purge.
  \<^item> \<open>Domain_Names\<close>: domain names, metric labels and composite breaker names.
  \<^item> \<open>Memory_Cache\<close>, \<open>Idempotency_Gate\<close>: the cache's atomic operations and the gate built from them, as a
    step relation whose steps are single cache operations, so that checks and marks of several workers interleave.
  \<^item> \<open>Replay_Handlers\<close>, \<open>Replay_Execute\<close> (\<open>services/replay_service/\<close>): the results, the handler registry, and one
    replay from the acquisition of the entry to its completion, over the record \<open>stores\<close> of the queue, the cache,
    the locks and the bus.  A handler is a function of the entry and the stores that may return, raise or leave work running.
    The lemmas give the entry's state and its attempts on every branch.
  \<^item> \<open>Replay_Sweep\<close>: the lanes of a recovered domain, the filling of a pass from them (through the locale
    \<open>lane_pages\<close> of what the queue promises about its pages), the pass with its deadline and the cursors it hands on, and the
    lock of a domain.  A pass selects what its lanes hold and a stopped one is resumed without loss.
  \<^item> \<open>Adaptive_Replay\<close>, \<open>Replay_Batch\<close>: the adaptive batch size and its bounds; the settings of a batch, the
    selection by priority and the batch itself.
  \<^item> \<open>Backoff\<close> (\<open>core/backoff.py\<close>): the delay strategies, their construction, their caps and growth.
  \<^item> \<open>Recovery_Walk\<close>, \<open>Recovery_Trial\<close> (\<open>services/replay_service/recovery.py\<close>): the periodic tick that replays one parked entry of each job name as a
    trial.  The walk over the lanes' pages that picks the entry is a partial function, proved to return with an allowed entry whenever there is
    one; a trial overrides no refusal, failing trials back off, and a tick accounts for every job name.  This is where the replay service
    meets the breaker service: the rows and the refusals a tick reads are those of \<open>CB_Service\<close>.
  \<^item> \<open>Bulkhead\<close> (\<open>services/bulkhead/semaphore.py\<close>): what a compartment does under its lock as functions of the record \<open>bulkhead\<close>, and its lock
    protocol as the step relation \<open>bk_step\<close> over the callers' phases: no more seats than the capacity, no stranded operation, no lost wake.
    \<open>Bulkhead_Registry\<close> (\<open>registry.py\<close>, the factories of \<open>policy.py\<close>): threads and coroutines that name a dependency share one compartment.

  \<^bold>\<open>Conventions.\<close>  An instant is a whole number of microseconds, and an operation reads the clock once: the
  readings within one call of the source are a few microseconds apart, and no branch compares two of them.  A method
  that runs under one lock is one function on the state; where the source releases the lock between two steps the
  model has two functions or two steps of a relation.  A float is a rational rounded by \<open>fl\<close> after
  every operation; infinities and NaN appear only where a stored value can carry them (\<open>CB_Config_Source\<close>).
  The order in which Python iterates over a set is a parameter \<open>it\<close> with the hypothesis \<open>enumerates it\<close>.
  Characters are those below 256.  Log lines, metrics and the wording of messages are left out; a
  result that carries a message carries its kind.  An exception is a value (\<open>Inl\<close>, \<open>None\<close> or a constructor).

  \<^bold>\<open>Bounds and termination.\<close>  Every definition but one is total.  The recursions that are not structural
  (the digits of a number, the walk of the time window, the rounds of the gate's check) have a
  termination proof or a bound that the source itself has (three rounds in the gate, after which it aborts).  The one loop without such a bound,
  the candidate walk, is a partial function with the value \<open>None\<close> for not returning.

  \<^bold>\<open>Not modelled.\<close>  The Redis and SQL stores and the layered repository, whose behaviour is that of a
  server; the threads, timers and event loops of the policies around user functions; the HTTP, console and
  framework adapters; metrics, reports, audit files; the settings of the parts above.
  Of the bulkhead, an exception that a signal handler raises while the lock is held, and the wrappers that run a user function inside a seat.  The runtime
  configuration manager, the emergency manager and the downstream checkers are other packages or plug-ins: parameters.
\<close>

end
